(* ===== verification/Prelude.thy ===== *)
theory Prelude
  imports Main "HOL-Library.AList" "HOL-Library.Multiset" "HOL-Library.Sublist"
begin

text \<open>
  What every component of the tracker shares: Go maps as association lists, slices that
  keep only their newest entries, the decimal printing behind the generated identifiers,
  the string tests of package strings, and the exchange sort that the store writes out
  wherever it sorts. Two interfaces are stated as locales: \<open>bounded_log\<close>, the
  contract of every append-only buffer that drops its oldest entries, and
  \<open>strict_weak_order\<close>, what a comparison has to satisfy for the exchange sort to sort.
\<close>

named_theorems go_simps \<open>unfoldings of the Go helpers shared by the components\<close>

subsection \<open>Go maps\<close>

text \<open>
  A Go map is an association list with distinct keys. Go leaves the iteration order of
  \<open>range m\<close> open, so an operation that ranges over a map takes the order as an argument
  \<open>ord\<close> (a function that rearranges the entries): the only thing the code may rely on is
  \<open>range_order\<close>, that the entries are enumerated once each.
\<close>

type_synonym ('k, 'v) gomap = "('k \<times> 'v) list"

abbreviation mget :: "('k, 'v) gomap \<Rightarrow> 'k \<Rightarrow> 'v option" where
  "mget m k \<equiv> map_of m k"

abbreviation mput :: "'k \<Rightarrow> 'v \<Rightarrow> ('k, 'v) gomap \<Rightarrow> ('k, 'v) gomap" where
  "mput k v m \<equiv> AList.update k v m"

abbreviation mdel :: "'k \<Rightarrow> ('k, 'v) gomap \<Rightarrow> ('k, 'v) gomap" where
  "mdel k m \<equiv> AList.delete k m"

abbreviation map_ok :: "('k, 'v) gomap \<Rightarrow> bool" where
  "map_ok m \<equiv> distinct (map fst m)"

definition range_order :: "(('k, 'v) gomap \<Rightarrow> ('k, 'v) gomap) \<Rightarrow> bool" where
  "range_order ord \<longleftrightarrow> (\<forall>m. mset (ord m) = mset m)"

text \<open>\<open>m[k]\<close> of an absent key is the zero value of the element type.\<close>

definition mget0 :: "'v \<Rightarrow> ('k, 'v) gomap \<Rightarrow> 'k \<Rightarrow> 'v" where
  "mget0 z m k = (case mget m k of None \<Rightarrow> z | Some v \<Rightarrow> v)"

lemma mget_mput [simp]: "mget (mput k v m) k' = (if k' = k then Some v else mget m k')"
  by (simp add: update_conv')

lemma mget_mdel [simp]: "mget (mdel k m) k' = (if k' = k then None else mget m k')"
  by (simp add: delete_conv')

lemma map_ok_mput [simp]: "map_ok m \<Longrightarrow> map_ok (mput k v m)"
  by (rule distinct_update)

lemma map_ok_mdel [simp]: "map_ok m \<Longrightarrow> map_ok (mdel k m)"
  by (rule distinct_delete)

lemma mget0_mput [simp]: "mget0 z (mput k v m) k' = (if k' = k then v else mget0 z m k')"
  by (simp add: mget0_def)

lemma set_gomap: "map_ok m \<Longrightarrow> (k, v) \<in> set m \<longleftrightarrow> mget m k = Some v"
  by (simp add: map_of_eq_Some_iff)

lemma set_mput:
  assumes ok: "map_ok m"
  shows "set (mput k v m) = insert (k, v) {p \<in> set m. fst p \<noteq> k}"
proof -
  have "(a, b) \<in> set (mput k v m) \<longleftrightarrow> (if a = k then b = v else (a, b) \<in> set m)" for a b
    unfolding set_gomap [OF map_ok_mput [OF ok]] set_gomap [OF ok] by auto
  then show ?thesis by (auto split: if_splits)
qed

lemma range_order_id: "range_order (\<lambda>m. m)"
  by (simp add: range_order_def)

lemma range_order_rev: "range_order rev"
  by (simp add: range_order_def)

lemma range_order_set: "range_order ord \<Longrightarrow> set (ord m) = set m"
  by (metis range_order_def set_mset_mset)

lemma range_order_mset: "range_order ord \<Longrightarrow> mset (ord m) = mset m"
  by (simp add: range_order_def)

lemma range_order_length: "range_order ord \<Longrightarrow> length (ord m) = length m"
  by (metis range_order_mset size_mset)

subsection \<open>Slices that keep their newest entries\<close>

definition keep_last :: "nat \<Rightarrow> 'a list \<Rightarrow> 'a list" where
  "keep_last n xs = drop (length xs - n) xs"

lemma length_keep_last [simp]: "length (keep_last n xs) = min n (length xs)"
  by (simp add: keep_last_def)

lemma keep_last_short: "length xs \<le> n \<Longrightarrow> keep_last n xs = xs"
  by (simp add: keep_last_def)

lemma keep_last_append: "length ys \<le> n \<Longrightarrow> keep_last n (xs @ ys) = keep_last (n - length ys) xs @ ys"
  by (cases "n \<le> length xs + length ys") (auto simp: keep_last_def)

lemma keep_last_long: "n \<le> length ys \<Longrightarrow> keep_last n (xs @ ys) = keep_last n ys"
  by (simp add: keep_last_def)

lemma keep_last_keep_last_append: "keep_last n (keep_last n xs @ ys) = keep_last n (xs @ ys)"
proof (cases "length ys \<le> n")
  case True
  then have "keep_last (n - length ys) (keep_last n xs) = keep_last (n - length ys) xs"
    by (cases "length xs \<le> n") (simp_all add: keep_last_def add.commute)
  with True show ?thesis by (simp add: keep_last_append)
next
  case False
  then show ?thesis by (simp add: keep_last_long)
qed

lemma rev_keep_last: "rev (keep_last n xs) = take n (rev xs)"
  by (simp add: keep_last_def take_rev)

lemma take_append_take: "take n (xs @ take n ys) = take n (xs @ ys)"
  by (simp add: take_append)

lemma map_keep_last: "map f (keep_last n xs) = keep_last n (map f xs)"
  by (simp add: keep_last_def drop_map)

lemma set_keep_last: "set (keep_last n xs) \<subseteq> set xs"
  by (simp add: keep_last_def set_drop_subset)

text \<open>
  The contract of a buffer that keeps its newest \<open>cap\<close> entries. The providers are the
  ring buffer and the login trail of the store, the validator's dead letters and the
  detector's list of anomalies.
\<close>

locale bounded_log =
  fixes push :: "'a \<Rightarrow> 's \<Rightarrow> 's"
    and view :: "'s \<Rightarrow> 'a list"
    and cap :: "'s \<Rightarrow> nat"
    and wf :: "'s \<Rightarrow> bool"
  assumes view_push: "wf s \<Longrightarrow> view (push x s) = keep_last (cap s) (view s @ [x])"
    and cap_push: "wf s \<Longrightarrow> cap (push x s) = cap s"
    and wf_push: "wf s \<Longrightarrow> wf (push x s)"
    and cap_pos: "wf s \<Longrightarrow> 0 < cap s"
    and view_le: "wf s \<Longrightarrow> length (view s) \<le> cap s"
begin

lemma wf_pushes: "wf s \<Longrightarrow> wf (fold push xs s)"
  by (induction xs arbitrary: s) (auto intro: wf_push)

lemma cap_pushes: "wf s \<Longrightarrow> cap (fold push xs s) = cap s"
  by (induction xs arbitrary: s) (auto simp: cap_push wf_push)

lemma view_pushes: "wf s \<Longrightarrow> view (fold push xs s) = keep_last (cap s) (view s @ xs)"
proof (induction xs arbitrary: s)
  case Nil
  then show ?case by (simp add: keep_last_short view_le)
next
  case (Cons x xs)
  then have "view (fold push (x # xs) s) = keep_last (cap s) (keep_last (cap s) (view s @ [x]) @ xs)"
    by (simp add: wf_push cap_push view_push)
  then show ?case by (simp add: keep_last_keep_last_append)
qed

lemma length_view_pushes: "wf s \<Longrightarrow> length (view (fold push xs s)) \<le> cap s"
  by (simp add: view_pushes)

lemma newest_kept: "wf s \<Longrightarrow> view (push x s) \<noteq> [] \<and> last (view (push x s)) = x"
  using cap_pos [of s] by (auto simp: view_push keep_last_append)

text \<open>An entry is still there after fewer than \<open>cap\<close> later ones.\<close>

lemma entry_survives:
  assumes "wf s" and "length xs < cap s"
  shows "x \<in> set (view (fold push xs (push x s)))"
proof -
  have "view (fold push xs (push x s)) = keep_last (cap s) (view s @ x # xs)"
    using view_pushes [of s "x # xs"] assms(1) by simp
  also have "\<dots> = keep_last (cap s - length (x # xs)) (view s) @ x # xs"
    using assms(2) by (intro keep_last_append) simp
  finally show ?thesis by simp
qed

text \<open>After \<open>cap\<close> entries everything older has been dropped.\<close>

lemma old_dropped:
  assumes "wf s" and "cap s \<le> length xs"
  shows "view (fold push xs s) = keep_last (cap s) xs"
  using assms by (simp add: view_pushes keep_last_long)

end

subsection \<open>Integers and strings\<close>

text \<open>\<open>int64\<close> wraps around; integer division truncates towards zero.\<close>

definition wrap64 :: "int \<Rightarrow> int" where
  "wrap64 x = (x + 2 ^ 63) mod 2 ^ 64 - 2 ^ 63"

definition go_div :: "int \<Rightarrow> int \<Rightarrow> int" where
  "go_div a b = sgn a * sgn b * (\<bar>a\<bar> div \<bar>b\<bar>)"

lemma wrap64_id: "- (2 ^ 63) \<le> x \<Longrightarrow> x < 2 ^ 63 \<Longrightarrow> wrap64 x = x"
  by (simp add: wrap64_def)

lemma wrap64_range: "- (2 ^ 63) \<le> wrap64 x \<and> wrap64 x < 2 ^ 63"
  by (simp add: wrap64_def)

lemma wrap64_wrap64 [simp]: "wrap64 (wrap64 x) = wrap64 x"
  using wrap64_range [of x] by (simp add: wrap64_id)

lemma wrap64_add_left: "wrap64 (wrap64 a + b) = wrap64 (a + b)"
proof -
  have "wrap64 a + b + 2 ^ 63 = (a + 2 ^ 63) mod 2 ^ 64 + b" by (simp add: wrap64_def)
  moreover have "((a + 2 ^ 63) mod 2 ^ 64 + b) mod 2 ^ 64 = (a + 2 ^ 63 + b) mod 2 ^ 64"
    by (rule mod_add_left_eq)
  ultimately show ?thesis unfolding wrap64_def [of "wrap64 a + b"] wrap64_def [of "a + b"]
    by (simp only: add.assoc add.commute [of "2 ^ 63" b])
qed

lemma go_div_nonneg: "0 \<le> a \<Longrightarrow> 0 < b \<Longrightarrow> go_div a b = a div b"
  by (cases "a = 0") (simp_all add: go_div_def)

text \<open>Decimal printing: \<open>%d\<close> of a natural number and the padded \<open>%04d\<close>.\<close>

fun dec :: "nat \<Rightarrow> string" where
  "dec n = (if n < 10 then [char_of (48 + n)] else dec (n div 10) @ [char_of (48 + n mod 10)])"

declare dec.simps [simp del]

definition undec :: "string \<Rightarrow> nat" where
  "undec s = foldl (\<lambda>a c. 10 * a + (of_char c - 48)) 0 s"

definition pad04 :: "nat \<Rightarrow> string" where
  "pad04 n = replicate (4 - length (dec n)) (CHR ''0'') @ dec n"

definition itoa :: "int \<Rightarrow> string" where
  "itoa i = (if i < 0 then CHR ''-'' # dec (nat (- i)) else dec (nat i))"

lemma undec_snoc: "undec (s @ [c]) = 10 * undec s + (of_char c - 48)"
  by (simp add: undec_def)

lemma undec_dec [simp]: "undec (dec n) = n"
proof (induction n rule: dec.induct)
  case (1 n)
  show ?case
  proof (cases "n < 10")
    case True
    then show ?thesis by (subst dec.simps) (simp add: undec_def)
  next
    case False
    with 1 show ?thesis by (subst dec.simps) (simp add: undec_snoc)
  qed
qed

lemma undec_zeros: "undec (replicate k (CHR ''0'') @ s) = undec s"
  by (induction k) (simp_all add: undec_def)

lemma pad04_inject [simp]: "pad04 m = pad04 n \<longleftrightarrow> m = n"
  by (metis pad04_def undec_dec undec_zeros)

lemma dec_inject [simp]: "dec m = dec n \<longleftrightarrow> m = n"
  by (metis undec_dec)

text \<open>Package strings: \<open>HasPrefix\<close>, \<open>CutPrefix\<close>, \<open>Index\<close> of one byte, \<open>Contains\<close>.\<close>

abbreviation HasPrefix :: "string \<Rightarrow> string \<Rightarrow> bool" where
  "HasPrefix s p \<equiv> prefix p s"

definition CutPrefix :: "string \<Rightarrow> string \<Rightarrow> string option" where
  "CutPrefix s p = (if prefix p s then Some (drop (length p) s) else None)"

abbreviation Contains :: "string \<Rightarrow> string \<Rightarrow> bool" where
  "Contains s p \<equiv> sublist p s"

lemma prefix_iff_take: "prefix p s \<longleftrightarrow> take (length p) s = p"
proof
  show "prefix p s" if "take (length p) s = p"
    using take_is_prefix [of "length p" s] unfolding that .
qed (auto simp: prefix_def)

text \<open>Splitting at the first occurrence of a byte: \<open>None\<close> when it does not occur.\<close>

definition cut_at :: "char \<Rightarrow> string \<Rightarrow> (string \<times> string) option" where
  "cut_at c s = (if c \<in> set s then Some (takeWhile (\<lambda>x. x \<noteq> c) s, tl (dropWhile (\<lambda>x. x \<noteq> c) s))
                 else None)"

lemma CutPrefix_append [simp]: "CutPrefix (p @ r) p = Some r"
  by (simp add: CutPrefix_def)

lemma CutPrefix_Some: "CutPrefix s p = Some r \<longleftrightarrow> s = p @ r"
  by (auto simp: CutPrefix_def prefix_def)

lemma cut_at_append [simp]: "c \<notin> set a \<Longrightarrow> cut_at c (a @ c # b) = Some (a, b)"
  by (induction a) (auto simp: cut_at_def)

lemma cut_at_None: "cut_at c s = None \<longleftrightarrow> c \<notin> set s"
  by (simp add: cut_at_def)

lemma cut_at_Some: "cut_at c s = Some (a, b) \<longleftrightarrow> s = a @ c # b \<and> c \<notin> set a"
proof
  assume h: "cut_at c s = Some (a, b)"
  then have "c \<in> set s" by (auto simp: cut_at_def split: if_splits)
  then obtain p q where s: "s = p @ c # q" and "c \<notin> set p"
    by (metis split_list_first)
  with h show "s = a @ c # b \<and> c \<notin> set a" by simp
qed auto

end
