(* ===== verification/Exchange_Sort.thy ===== *)
theory Exchange_Sort
  imports Prelude
begin

text \<open>
  The exchange sort that \<open>RecentTraces\<close>, \<open>GetLineageSources\<close>,
  \<open>DashboardSummary\<close> (internal/store/memory.go) and \<open>RecentActivity\<close>
  (internal/api/rest/handlers.go) each write out:
  \<^verbatim>\<open>
  for i := 0; i < len(out)-1; i++ {
    for j := i + 1; j < len(out); j++ {
      if before(out[j], out[i]) { out[i], out[j] = out[j], out[i] }
    }
  }
  \<close>
  It is shown once, for any strict weak order, to permute its input and to leave it sorted;
  the store interprets the locale for each comparison the code uses.
\<close>

definition swap_if :: "('a \<Rightarrow> 'a \<Rightarrow> bool) \<Rightarrow> nat \<Rightarrow> nat \<Rightarrow> 'a list \<Rightarrow> 'a list" where
  "swap_if before i j xs =
     (if before (xs ! j) (xs ! i) then xs[i := xs ! j, j := xs ! i] else xs)"

definition inner_pass :: "('a \<Rightarrow> 'a \<Rightarrow> bool) \<Rightarrow> nat \<Rightarrow> 'a list \<Rightarrow> 'a list" where
  "inner_pass before i xs = fold (swap_if before i) [Suc i..<length xs] xs"

definition exchange_sort :: "('a \<Rightarrow> 'a \<Rightarrow> bool) \<Rightarrow> 'a list \<Rightarrow> 'a list" where
  "exchange_sort before xs = fold (inner_pass before) [0..<length xs - 1] xs"

subsection \<open>Whatever the comparison, the result is a permutation\<close>

lemma length_swap_if [simp]: "length (swap_if before i j xs) = length xs"
  by (simp add: swap_if_def)

lemma mset_swap_if [simp]:
  "i < length xs \<Longrightarrow> j < length xs \<Longrightarrow> mset (swap_if before i j xs) = mset xs"
  by (simp add: swap_if_def mset_swap)

lemma nth_swap_if_other: "k \<noteq> i \<Longrightarrow> k \<noteq> j \<Longrightarrow> swap_if before i j xs ! k = xs ! k"
  by (simp add: swap_if_def)

lemma nth_swap_if:
  assumes "i < length xs" and "j < length xs"
  shows nth_swap_if_i: "swap_if before i j xs ! i = (if before (xs ! j) (xs ! i) then xs ! j else xs ! i)"
    and nth_swap_if_j: "swap_if before i j xs ! j = (if before (xs ! j) (xs ! i) then xs ! i else xs ! j)"
  using assms by (auto simp: swap_if_def nth_list_update)

lemma fold_swap_if:
  assumes "k \<le> length xs" and "i < length xs"
  shows "length (fold (swap_if before i) [Suc i..<k] xs) = length xs
    \<and> mset (fold (swap_if before i) [Suc i..<k] xs) = mset xs
    \<and> (\<forall>a < i. fold (swap_if before i) [Suc i..<k] xs ! a = xs ! a)"
  using assms(1)
proof (induction k)
  case 0
  then show ?case by simp
next
  case (Suc k)
  show ?case
  proof (cases "Suc i \<le> k")
    case True
    with Suc assms(2) show ?thesis by (simp add: nth_swap_if_other)
  next
    case False
    then show ?thesis by (cases "k = i") simp_all
  qed
qed

lemma inner_pass_frame:
  assumes "i < length xs"
  shows length_inner_pass: "length (inner_pass before i xs) = length xs"
    and mset_inner_pass: "mset (inner_pass before i xs) = mset xs"
    and nth_inner_pass: "a < i \<Longrightarrow> inner_pass before i xs ! a = xs ! a"
  using fold_swap_if [OF order_refl assms, of before] by (simp_all add: inner_pass_def)

lemma fold_inner_pass:
  assumes "k \<le> length xs"
  shows "length (fold (inner_pass before) [0..<k] xs) = length xs
    \<and> mset (fold (inner_pass before) [0..<k] xs) = mset xs"
  using assms by (induction k) (simp_all add: length_inner_pass mset_inner_pass)

lemma mset_exchange_sort [simp]: "mset (exchange_sort before xs) = mset xs"
  using fold_inner_pass [of "length xs - 1" xs before] by (simp add: exchange_sort_def)

lemma length_exchange_sort [simp]: "length (exchange_sort before xs) = length xs"
  by (metis mset_exchange_sort size_mset)

lemma set_exchange_sort [simp]: "set (exchange_sort before xs) = set xs"
  by (metis mset_exchange_sort set_mset_mset)

lemma inner_pass_tail:
  assumes "i < length xs" and "i \<le> b" and "b < length xs"
  shows "\<exists>c. i \<le> c \<and> c < length xs \<and> inner_pass before i xs ! b = xs ! c"
proof -
  let ?ys = "inner_pass before i xs"
  have len: "length ?ys = length xs" by (rule length_inner_pass [OF assms(1)])
  have "take i ?ys = take i xs"
    using nth_inner_pass [OF assms(1)] assms(1) len by (intro nth_equalityI) auto
  moreover have "mset (take i ?ys) + mset (drop i ?ys) = mset (take i xs) + mset (drop i xs)"
    unfolding mset_append [symmetric] append_take_drop_id by (rule mset_inner_pass [OF assms(1)])
  ultimately have "set (drop i ?ys) = set (drop i xs)"
    by (metis add_left_cancel set_mset_mset)
  moreover have "?ys ! b \<in> set (drop i ?ys)"
    using assms len by (metis (no_types) le_add_diff_inverse nth_drop length_drop
        diff_less_mono nth_mem less_imp_le)
  ultimately obtain d where "d < length (drop i xs)" and "drop i xs ! d = ?ys ! b"
    by (metis in_set_conv_nth)
  then show ?thesis by (intro exI [of _ "i + d"]) auto
qed

subsection \<open>For a strict weak order, the result is sorted\<close>

locale strict_weak_order =
  fixes before :: "'a \<Rightarrow> 'a \<Rightarrow> bool"
  assumes before_irrefl: "\<not> before x x"
    and before_trans: "before x y \<Longrightarrow> before y z \<Longrightarrow> before x z"
    and before_negtrans: "\<not> before x y \<Longrightarrow> \<not> before y z \<Longrightarrow> \<not> before x z"
begin

lemma before_asym: "before x y \<Longrightarrow> \<not> before y x"
  using before_irrefl before_trans by blast

lemma fold_swap_if_front:
  assumes "k \<le> length xs" and "i < length xs" and "i < m" and "m < k"
  shows "\<not> before (fold (swap_if before i) [Suc i..<k] xs ! m)
                   (fold (swap_if before i) [Suc i..<k] xs ! i)"
  using assms(1,4)
proof (induction k)
  case 0
  then show ?case by simp
next
  case (Suc k)
  let ?ys = "fold (swap_if before i) [Suc i..<k] xs"
  have len: "length ?ys = length xs"
    using fold_swap_if [of k xs i before] Suc.prems(1) assms(2) by simp
  have k: "Suc i \<le> k" "k < length xs" using assms(3) Suc.prems by simp_all
  have step: "fold (swap_if before i) [Suc i..<Suc k] xs = swap_if before i k ?ys"
    using k by simp
  have bounds: "i < length ?ys" "k < length ?ys" using k assms(2) len by simp_all
  show ?case
  proof (cases "m = k")
    case True
    then show ?thesis
      unfolding step nth_swap_if_i [OF bounds] True nth_swap_if_j [OF bounds]
      using before_asym by auto
  next
    case False
    then have "m < k" using Suc.prems(2) by simp
    then have "\<not> before (?ys ! m) (?ys ! i)" using Suc.IH Suc.prems(1) by simp
    then show ?thesis
      unfolding step nth_swap_if_i [OF bounds]
      using False assms(3) before_trans by (auto simp: nth_swap_if_other)
  qed
qed

lemma inner_pass_front:
  "i < m \<Longrightarrow> m < length xs \<Longrightarrow> \<not> before (inner_pass before i xs ! m) (inner_pass before i xs ! i)"
  unfolding inner_pass_def by (rule fold_swap_if_front) auto

lemma fold_inner_pass_sorted:
  assumes "k < length xs" and "a < k" and "a < b" and "b < length xs"
  shows "\<not> before (fold (inner_pass before) [0..<k] xs ! b) (fold (inner_pass before) [0..<k] xs ! a)"
  using assms
proof (induction k arbitrary: a b)
  case 0
  then show ?case by simp
next
  case (Suc k)
  let ?ys = "fold (inner_pass before) [0..<k] xs"
  have len: "length ?ys = length xs" using fold_inner_pass [of k xs before] Suc.prems(1) by simp
  have k: "k < length ?ys" using Suc.prems(1) len by simp
  show ?case
  proof (cases "a = k")
    case True
    then show ?thesis using inner_pass_front [of k b ?ys] Suc.prems len by simp
  next
    case False
    then have a: "a < k" using Suc.prems(2) by simp
    obtain c where c: "a < c" "c < length xs" "inner_pass before k ?ys ! b = ?ys ! c"
    proof (cases "b < k")
      case True
      then show ?thesis using that [of b] Suc.prems nth_inner_pass [OF k] by simp
    next
      case False
      then show ?thesis using that inner_pass_tail [OF k, of b before] Suc.prems(4) len a
        by (metis leI order.strict_trans1 order_less_le_trans)
    qed
    have "\<not> before (?ys ! c) (?ys ! a)"
      using Suc.IH [of a c] a c Suc.prems(1) by simp
    then show ?thesis using c(3) nth_inner_pass [OF k a] by simp
  qed
qed

lemma exchange_sort_sorted: "sorted_wrt (\<lambda>x y. \<not> before y x) (exchange_sort before xs)"
proof (cases "xs = []")
  case True
  then show ?thesis by (simp add: exchange_sort_def)
next
  case False
  then show ?thesis
    using fold_inner_pass_sorted [of "length xs - 1" xs]
    by (auto simp: sorted_wrt_iff_nth_less exchange_sort_def
        fold_inner_pass [THEN conjunct1] Suc_lessI)
qed

text \<open>Cutting the sorted list keeps entries that nothing dropped comes before.\<close>

lemma exchange_sort_take:
  assumes "x \<in> set (take n (exchange_sort before xs))"
    and "y \<in> set (drop n (exchange_sort before xs))"
  shows "\<not> before y x"
proof -
  have "sorted_wrt (\<lambda>x y. \<not> before y x)
      (take n (exchange_sort before xs) @ drop n (exchange_sort before xs))"
    by (simp add: exchange_sort_sorted)
  with assms show ?thesis unfolding sorted_wrt_append by blast
qed

text \<open>
  Merging the first \<open>k\<close> entries of several sorted lists, sorting and cutting at \<open>k\<close> gives
  \<open>k\<close> first entries of all of them: nothing left out comes before anything kept.
\<close>

lemma merge_take:
  assumes "\<And>xs. xs \<in> set xss \<Longrightarrow> sorted_wrt (\<lambda>x y. \<not> before y x) xs"
    and a: "a \<in> set (take k (exchange_sort before (concat (map (take k) xss))))"
    and b: "b \<in># mset (concat xss) - mset (take k (exchange_sort before (concat (map (take k) xss))))"
  shows "\<not> before b a"
proof
  assume ba: "before b a"
  let ?P = "concat (map (take k) xss)" and ?S = "exchange_sort before (concat (map (take k) xss))"
  have all: "mset (concat xss) = mset ?P + mset (concat (map (drop k) xss))"
  proof (induction xss)
    case (Cons x xss)
    have "mset x = mset (take k x) + mset (drop k x)" by (metis append_take_drop_id mset_append)
    then show ?case using Cons by simp
  qed simp
  have S: "mset ?P = mset (take k ?S) + mset (drop k ?S)"
    by (metis append_take_drop_id mset_append mset_exchange_sort)
  have "mset (concat xss) - mset (take k ?S) = mset (drop k ?S) + mset (concat (map (drop k) xss))"
    unfolding all S by simp
  then have "b \<in> set (drop k ?S) \<or> b \<in> set (concat (map (drop k) xss))" using b by simp
  then show False
  proof
    assume "b \<in> set (drop k ?S)"
    from exchange_sort_take [OF a this] ba show False by blast
  next
    assume "b \<in> set (concat (map (drop k) xss))"
    then obtain xs where xs: "xs \<in> set xss" "b \<in> set (drop k xs)" by auto
    then have len: "length (take k xs) = k" by (metis drop_eq_Nil length_take list.set(1) empty_iff min.absorb2 nle_le)
    have "sorted_wrt (\<lambda>x y. \<not> before y x) (take k xs @ drop k xs)" using assms(1) [OF xs(1)] by simp
    then have le: "\<not> before b x" if "x \<in> set (take k xs)" for x
      using that xs(2) unfolding sorted_wrt_append by blast
    have kept: "x \<notin> set (drop k ?S)" if "\<not> before b x" for x
      using before_negtrans [OF that] exchange_sort_take [OF a] ba by blast
    let ?le = "\<lambda>x. \<not> before b x"
    have "mset (take k xs) \<subseteq># mset ?P"
      using xs(1) by (induction xss) (auto intro: subset_mset.order_trans)
    then have "filter_mset ?le (mset (take k xs)) \<subseteq># filter_mset ?le (mset ?P)" by (rule multiset_filter_mono)
    moreover have "filter_mset ?le (mset (take k xs)) = mset (take k xs)" using le by (simp add: filter_mset_eq_conv)
    moreover have "filter_mset ?le (mset (drop k ?S)) = {#}" using kept by (auto simp: filter_mset_eq_conv multiset_eq_iff)
    ultimately have "mset (take k xs) \<subseteq># filter_mset ?le (mset (take k ?S))" unfolding S by simp
    then have "k \<le> size (filter_mset ?le (mset (take k ?S)))" using len size_mset_mono [of "mset (take k xs)"] by simp
    also have "\<dots> < size (mset (take k ?S))"
      using a ba by (intro mset_subset_size) (metis (no_types, lifting) filter_mset_eq_conv multiset_filter_subset
          set_mset_mset subset_mset.less_le subset_mset.refl)
    also have "\<dots> \<le> k" by simp
    finally show False by simp
  qed
qed

lemma merge_length:
  "length (take k (exchange_sort before (concat (map (take k) xss)))) = min k (length (concat xss))"
proof -
  have "min k (length (concat (map (take k) xss))) = min k (length (concat xss))"
  proof (induction xss)
    case (Cons x xss)
    then show ?case by (auto simp: min_def split: if_splits)
  qed simp
  then show ?thesis by (simp add: min.commute)
qed

lemma merge_submset:
  "mset (take k (exchange_sort before (concat (map (take k) xss)))) \<subseteq># mset (concat xss)"
proof -
  have "mset (concat (map (take k) xss)) \<subseteq># mset (concat xss)"
  proof (induction xss)
    case (Cons x xss)
    have "mset (take k x) \<subseteq># mset x" by (metis append_take_drop_id mset_append mset_subset_eq_add_left)
    then show ?case using Cons by (simp add: subset_mset.add_mono)
  qed simp
  moreover have "mset (take k ys) \<subseteq># mset ys" for ys :: "'a list"
    by (metis append_take_drop_id mset_append mset_subset_eq_add_left)
  ultimately show ?thesis by (metis mset_exchange_sort subset_mset.order_trans)
qed

end

text \<open>Comparing a key of a linear order is a strict weak order, in both directions.\<close>

lemma strict_weak_order_less: "strict_weak_order (\<lambda>x y. (f x :: 'b::linorder) < f y)"
  by unfold_locales auto

lemma strict_weak_order_greater: "strict_weak_order (\<lambda>x y. (f x :: 'b::linorder) > f y)"
  by unfold_locales auto

end
