(* ===== verification/GoTime.thy ===== *)
theory GoTime
  imports Prelude
begin

text \<open>
  What the tracker uses of Go's package time. A \<open>time.Time\<close> is its instant in
  nanoseconds since Go's zero time (1 January of year 1, UTC), so \<open>IsZero\<close> is
  comparison with 0; a \<open>time.Duration\<close> is an \<open>int64\<close> number of nanoseconds.
  Monotonic clock readings are not modelled. \<open>ParseDuration\<close> follows the standard
  library's parser, its only deviation being that the fraction is scaled exactly instead of in
  \<open>float64\<close>.
\<close>

type_synonym gotime = int
type_synonym duration = int

definition Nanosecond :: duration where "Nanosecond = 1"
definition Microsecond :: duration where "Microsecond = 1000"
definition Millisecond :: duration where "Millisecond = 1000000"
definition Second :: duration where "Second = 1000000000"
definition Minute :: duration where "Minute = 60000000000"
definition Hour :: duration where "Hour = 3600000000000"

lemmas duration_defs [go_simps] =
  Nanosecond_def Microsecond_def Millisecond_def Second_def Minute_def Hour_def

definition time_IsZero :: "gotime \<Rightarrow> bool" where
  "time_IsZero t \<longleftrightarrow> t = 0"

definition time_Before :: "gotime \<Rightarrow> gotime \<Rightarrow> bool" where
  "time_Before t u \<longleftrightarrow> t < u"

definition time_After :: "gotime \<Rightarrow> gotime \<Rightarrow> bool" where
  "time_After t u \<longleftrightarrow> t > u"

definition time_Add :: "gotime \<Rightarrow> duration \<Rightarrow> gotime" where
  "time_Add t d = t + d"

text \<open>\<open>t.Sub(u)\<close> saturates at the ends of \<open>int64\<close>.\<close>

definition time_Sub :: "gotime \<Rightarrow> gotime \<Rightarrow> duration" where
  "time_Sub t u = max (- (2 ^ 63)) (min (2 ^ 63 - 1) (t - u))"

definition Milliseconds :: "duration \<Rightarrow> int" where
  "Milliseconds d = go_div d 1000000"

text \<open>The instant of the Unix epoch, \<open>t.Unix()\<close>, \<open>t.UnixNano()\<close> and \<open>time.Unix(0, n)\<close>.\<close>

definition unix_epoch :: gotime where
  "unix_epoch = 62135596800 * 1000000000"

definition time_Unix :: "gotime \<Rightarrow> int" where
  "time_Unix t = t div 1000000000 - 62135596800"

definition UnixNano :: "gotime \<Rightarrow> int" where
  "UnixNano t = wrap64 (t - unix_epoch)"

definition time_FromUnixNano :: "int \<Rightarrow> gotime" where
  "time_FromUnixNano n = unix_epoch + n"

text \<open>
  \<open>t.Hour()\<close> in a location whose offset from UTC at that instant is \<open>zone\<close> seconds.
\<close>

definition time_Hour :: "(gotime \<Rightarrow> int) \<Rightarrow> gotime \<Rightarrow> int" where
  "time_Hour zone t = ((t div 1000000000 + zone t) mod 86400) div 3600"

lemmas time_order_defs [go_simps] = time_IsZero_def time_Before_def time_After_def time_Add_def

lemma time_Hour_range: "0 \<le> time_Hour zone t \<and> time_Hour zone t < 24"
proof -
  have "0 \<le> y div 3600 \<and> y div 3600 < 24" if "0 \<le> y" "y < 86400" for y :: int
    using that by linarith
  then show ?thesis by (simp add: time_Hour_def)
qed

lemma UnixNano_FromUnixNano:
  "- (2 ^ 63) \<le> n \<Longrightarrow> n < 2 ^ 63 \<Longrightarrow> UnixNano (time_FromUnixNano n) = n"
  by (simp add: UnixNano_def time_FromUnixNano_def wrap64_id)

lemma time_Sub_exact:
  "\<bar>t - u\<bar> < 2 ^ 63 \<Longrightarrow> time_Sub t u = t - u"
  by (simp add: time_Sub_def)

lemma time_Sub_nonneg: "u \<le> t \<Longrightarrow> 0 \<le> time_Sub t u"
  by (simp add: time_Sub_def)

lemma Milliseconds_nonneg: "0 \<le> d \<Longrightarrow> 0 \<le> Milliseconds d"
  by (simp add: Milliseconds_def go_div_nonneg)

subsection \<open>ParseDuration\<close>

definition is_digit :: "char \<Rightarrow> bool" where
  "is_digit c \<longleftrightarrow> (let n = (of_char c :: int) in 48 \<le> n \<and> n \<le> 57)"

definition digit_val :: "char \<Rightarrow> int" where
  "digit_val c = of_char c - 48"

fun leadingInt :: "int \<Rightarrow> string \<Rightarrow> (int \<times> string) option" where
  "leadingInt x [] = Some (x, [])"
| "leadingInt x (c # s) =
     (if \<not> is_digit c then Some (x, c # s)
      else if x > 2 ^ 63 div 10 then None
      else let y = x * 10 + digit_val c in
        if y > 2 ^ 63 then None else leadingInt y s)"

fun leadingFraction :: "int \<Rightarrow> int \<Rightarrow> bool \<Rightarrow> string \<Rightarrow> int \<times> int \<times> string" where
  "leadingFraction x scale overflow [] = (x, scale, [])"
| "leadingFraction x scale overflow (c # s) =
     (if \<not> is_digit c then (x, scale, c # s)
      else if overflow then leadingFraction x scale True s
      else if x > (2 ^ 63 - 1) div 10 then leadingFraction x scale True s
      else let y = x * 10 + digit_val c in
        if y > 2 ^ 63 then leadingFraction x scale True s
        else leadingFraction y (scale * 10) False s)"

definition unitMap :: "string \<Rightarrow> int option" where
  "unitMap u =
     (if u = ''ns'' then Some 1
      else if u = ''us'' \<or> u = [CHR 0xC2, CHR 0xB5, CHR ''s''] \<or> u = [CHR 0xCE, CHR 0xBC, CHR ''s'']
        then Some 1000
      else if u = ''ms'' then Some 1000000
      else if u = ''s'' then Some 1000000000
      else if u = ''m'' then Some 60000000000
      else if u = ''h'' then Some 3600000000000
      else None)"

definition unit_char :: "char \<Rightarrow> bool" where
  "unit_char c \<longleftrightarrow> c \<noteq> CHR ''.'' \<and> \<not> is_digit c"

text \<open>One \<open>number unit\<close> group: its value in nanoseconds and the rest of the string.\<close>

definition parse_group :: "string \<Rightarrow> (int \<times> string) option" where
  "parse_group s =
     (if s = [] \<or> \<not> (hd s = CHR ''.'' \<or> is_digit (hd s)) then None
      else case leadingInt 0 s of None \<Rightarrow> None | Some (v, s1) \<Rightarrow>
        (let pre = (length s1 \<noteq> length s);
             dot = (s1 \<noteq> [] \<and> hd s1 = CHR ''.'');
             (f, scale, s2) = (if dot then leadingFraction 0 1 False (tl s1) else (0, 1, s1));
             post = (dot \<and> length s2 \<noteq> length (tl s1));
             u = takeWhile unit_char s2
         in if \<not> pre \<and> \<not> post then None
            else if u = [] then None
            else case unitMap u of None \<Rightarrow> None | Some unit \<Rightarrow>
              if v > 2 ^ 63 div unit then None
              else let w = v * unit + (f * unit) div scale in
                if w > 2 ^ 63 then None else Some (w, dropWhile unit_char s2)))"

lemma leadingInt_rest: "leadingInt x s = Some (v, r) \<Longrightarrow> length r \<le> length s"
  by (induction x s rule: leadingInt.induct) (auto simp: Let_def split: if_splits)

lemma leadingFraction_rest: "leadingFraction x sc ov s = (f, scale, r) \<Longrightarrow> length r \<le> length s"
  by (induction x sc ov s rule: leadingFraction.induct) (auto simp: Let_def split: if_splits)

lemma dropWhile_shorter: "takeWhile P s \<noteq> [] \<Longrightarrow> length (dropWhile P s) < length s"
  by (cases s) (auto simp: le_imp_less_Suc length_dropWhile_le split: if_splits)

lemma parse_group_shorter:
  assumes "parse_group s = Some (v, r)"
  shows "length r < length s"
proof -
  obtain v0 s1 where s1: "leadingInt 0 s = Some (v0, s1)"
    using assms by (auto simp: parse_group_def split: if_splits option.splits)
  obtain f sc s2 where s2: "(if s1 \<noteq> [] \<and> hd s1 = CHR ''.'' then leadingFraction 0 1 False (tl s1)
      else (0, 1, s1)) = (f, sc, s2)"
    by (metis prod_cases3)
  have "length s2 \<le> length s1"
    using s2 by (auto split: if_splits dest!: leadingFraction_rest)
  moreover have "takeWhile unit_char s2 \<noteq> []" "r = dropWhile unit_char s2"
    using assms s1 s2
    by (auto simp: parse_group_def Let_def split: if_splits option.splits prod.splits)
  ultimately show ?thesis
    using dropWhile_shorter [of unit_char s2] leadingInt_rest [OF s1] by simp
qed

function parse_groups :: "int \<Rightarrow> string \<Rightarrow> int option" where
  "parse_groups d s =
     (if s = [] then Some d
      else case parse_group s of None \<Rightarrow> None | Some (v, r) \<Rightarrow>
        (let d' = (d + v) mod 2 ^ 64 in if d' > 2 ^ 63 then None else parse_groups d' r))"
  by pat_completeness auto
termination
  by (relation "measure (\<lambda>(d, s). length s)") (auto dest: parse_group_shorter)

declare parse_groups.simps [simp del]

definition ParseDuration :: "string \<Rightarrow> duration option" where
  "ParseDuration s0 =
     (let neg = (s0 \<noteq> [] \<and> hd s0 = CHR ''-'');
          s = (if s0 \<noteq> [] \<and> (hd s0 = CHR ''-'' \<or> hd s0 = CHR ''+'') then tl s0 else s0)
      in if s = ''0'' then Some 0
         else if s = [] then None
         else case parse_groups 0 s of None \<Rightarrow> None | Some d \<Rightarrow>
           if neg then Some (- d)
           else if d > 2 ^ 63 - 1 then None
           else Some d)"

lemma parse_groups_bound:
  "0 \<le> d \<Longrightarrow> d \<le> 2 ^ 63 \<Longrightarrow> parse_groups d s = Some r \<Longrightarrow> 0 \<le> r \<and> r \<le> 2 ^ 63"
proof (induction d s rule: parse_groups.induct)
  case (1 d s)
  show ?case
  proof (cases "s = []")
    case True
    with "1.prems" show ?thesis by (simp add: parse_groups.simps [of d "[]"])
  next
    case False
    with "1.prems"(3) obtain v t where g: "parse_group s = Some (v, t)"
      and d: "(d + v) mod 2 ^ 64 \<le> 2 ^ 63" and r: "parse_groups ((d + v) mod 2 ^ 64) t = Some r"
      by (auto simp: parse_groups.simps [of d s] Let_def split: if_splits option.splits)
    show ?thesis
      by (rule "1.IH" [OF False g refl refl]) (use d r in simp_all)
  qed
qed

text \<open>A parsed duration is an \<open>int64\<close>.\<close>

lemma ParseDuration_range:
  assumes "ParseDuration s = Some d"
  shows "- (2 ^ 63) \<le> d \<and> d < 2 ^ 63"
proof -
  consider "d = 0"
    | n t where "parse_groups 0 t = Some n" "d = - n"
    | n t where "parse_groups 0 t = Some n" "d = n" "n \<le> 2 ^ 63 - 1"
    using assms unfolding ParseDuration_def Let_def
    by (auto split: if_splits option.splits)
  then show ?thesis
    by cases (auto dest!: parse_groups_bound [rotated 2])
qed

lemma ParseDuration_5m: "ParseDuration ''5m'' = Some (5 * Minute)"
  by code_simp

lemma ParseDuration_1h30m: "ParseDuration ''1h30m'' = Some (90 * Minute)"
  by code_simp

lemma ParseDuration_half: "ParseDuration ''1.5h'' = Some (90 * Minute)"
  by code_simp

lemma ParseDuration_bad: "ParseDuration ''15'' = None"
  by code_simp

subsection \<open>Printing a duration\<close>

text \<open>\<open>Duration.String()\<close>: hours, minutes and seconds, or a smaller unit below one second.\<close>

fun trim_zeros :: "string \<Rightarrow> string" where
  "trim_zeros s = rev (dropWhile (\<lambda>c. c = CHR ''0'') (rev s))"

definition pad_to :: "nat \<Rightarrow> string \<Rightarrow> string" where
  "pad_to n s = replicate (n - length s) (CHR ''0'') @ s"

definition frac_text :: "nat \<Rightarrow> int \<Rightarrow> string" where
  "frac_text n v = (let f = trim_zeros (pad_to n (dec (nat v))) in if f = [] then [] else ''.'' @ f)"

definition duration_text :: "duration \<Rightarrow> string" where
  "duration_text d =
     (let u = \<bar>d\<bar>; neg = (if d < 0 then ''-'' else []) in
      if u = 0 then ''0s''
      else if u < 1000 then neg @ dec (nat u) @ ''ns''
      else if u < 1000000 then neg @ dec (nat (u div 1000)) @ frac_text 3 (u mod 1000) @ [CHR 0xC2, CHR 0xB5, CHR ''s'']
      else if u < 1000000000 then neg @ dec (nat (u div 1000000)) @ frac_text 6 (u mod 1000000) @ ''ms''
      else let secs = u div 1000000000; mins = secs div 60; hours = mins div 60;
               s_text = dec (nat (secs mod 60)) @ frac_text 9 (u mod 1000000000) @ ''s''
           in neg @ (if mins = 0 then s_text
                     else if hours = 0 then dec (nat mins) @ ''m'' @ s_text
                     else dec (nat hours) @ ''h'' @ dec (nat (mins mod 60)) @ ''m'' @ s_text))"

end
