(* ===== verification/Models.thy ===== *)
theory Models
  imports GoTime Complex_Main "HOL-Library.Char_ord" "HOL-Library.List_Lexorder"
begin

text \<open>
  The domain types of internal/models/types.go, one record per struct with the source's
  field names behind a short prefix, and the JSON codec of event timestamps. Go's
  \<open>float64\<close> values are exact rationals here; \<open>map[string]any\<close> values are
  \<open>goany\<close>, whose constructors are the dynamic types the code produces or tests for.
\<close>

subsection \<open>Dynamic values\<close>

datatype goany =
    GNil
  | GBool bool
  | GInt int
  | GFloat rat
  | GStr string
  | GList "goany list"
  | GMap "(string \<times> goany) list"

text \<open>The type assertions \<open>v, ok := m[k].(string)\<close> and \<open>m[k].(float64)\<close>.\<close>

definition as_string :: "(string, goany) gomap \<Rightarrow> string \<Rightarrow> string option" where
  "as_string m k = (case mget m k of Some (GStr s) \<Rightarrow> Some s | _ \<Rightarrow> None)"

definition as_float :: "(string, goany) gomap \<Rightarrow> string \<Rightarrow> rat option" where
  "as_float m k = (case mget m k of Some (GFloat v) \<Rightarrow> Some v | _ \<Rightarrow> None)"

text \<open>\<open>int(v)\<close> of a float truncates towards zero.\<close>

definition trunc_rat :: "rat \<Rightarrow> int" where
  "trunc_rat v = (if v < 0 then - \<lfloor>- v\<rfloor> else \<lfloor>v\<rfloor>)"

lemma trunc_rat_of_int [simp]: "trunc_rat (of_int n) = n"
  by (simp add: trunc_rat_def flip: of_int_minus)

subsection \<open>Events\<close>

record BastionEvent =
  ev_EventID :: string
  ev_SchemaVersion :: string
  ev_TraceID :: string
  ev_SpanID :: string
  ev_ParentSpanID :: string
  ev_Module :: string
  ev_ModuleVersion :: string
  ev_EventType :: string
  ev_Severity :: string
  ev_Category :: string
  ev_Timestamp :: gotime
  ev_TenantID :: string
  ev_UserID :: string
  ev_RequestID :: string
  ev_Labels :: "(string, string) gomap"
  ev_Data :: "(string, goany) gomap"
  ev_PipelineType :: string
  ev_ModulesUsed :: "string list"
  ev_ModulesSkipped :: "string list"
  ev_DurationMs :: int
  ev_Status :: string
  ev_ActionTaken :: string
  ev_Signature :: string

definition zero_event :: BastionEvent where
  "zero_event = \<lparr>ev_EventID = [], ev_SchemaVersion = [], ev_TraceID = [], ev_SpanID = [],
     ev_ParentSpanID = [], ev_Module = [], ev_ModuleVersion = [], ev_EventType = [],
     ev_Severity = [], ev_Category = [], ev_Timestamp = 0, ev_TenantID = [], ev_UserID = [],
     ev_RequestID = [], ev_Labels = [], ev_Data = [], ev_PipelineType = [], ev_ModulesUsed = [],
     ev_ModulesSkipped = [], ev_DurationMs = 0, ev_Status = [], ev_ActionTaken = [],
     ev_Signature = []\<rparr>"

subsection \<open>Traces\<close>

record Span =
  sp_SpanID :: string
  sp_Module :: string
  sp_EventType :: string
  sp_StartTime :: gotime
  sp_DurationMs :: int
  sp_Status :: string
  sp_Data :: "(string, goany) gomap"

record Trace =
  tr_TraceID :: string
  tr_RequestID :: string
  tr_TenantID :: string
  tr_UserID :: string
  tr_PipelineType :: string
  tr_ModulesUsed :: "string list"
  tr_ModulesSkipped :: "string list"
  tr_StartTime :: gotime
  tr_EndTime :: "gotime option"
  tr_TotalMs :: int
  tr_Status :: string
  tr_Spans :: "Span list"

record TimelineEntry =
  te_SpanID :: string
  te_Module :: string
  te_EventType :: string
  te_OffsetMs :: int
  te_DurationMs :: int
  te_Status :: string

record TraceTimeline =
  tt_TraceID :: string
  tt_PipelineType :: string
  tt_TotalMs :: int
  tt_MaxMs :: int
  tt_Entries :: "TimelineEntry list"

subsection \<open>Incidents, honey-tokens, alerts\<close>

datatype IncidentStatus = IncidentOpen | IncidentInvestigating | IncidentResolved

fun IncidentStatus_str :: "IncidentStatus \<Rightarrow> string" where
  "IncidentStatus_str IncidentOpen = ''open''"
| "IncidentStatus_str IncidentInvestigating = ''investigating''"
| "IncidentStatus_str IncidentResolved = ''resolved''"

record Incident =
  inc_IncidentID :: string
  inc_Title :: string
  inc_Severity :: string
  inc_Status :: IncidentStatus
  inc_CreatedAt :: gotime
  inc_UpdatedAt :: gotime
  inc_ResolvedAt :: "gotime option"
  inc_TenantID :: string
  inc_Description :: string
  inc_EventIDs :: "string list"
  inc_Notes :: string

record HoneyToken =
  ht_TokenID :: string
  ht_Name :: string
  ht_Type :: string
  ht_Location :: string
  ht_Description :: string
  ht_CreatedAt :: gotime
  ht_Enabled :: bool
  ht_TriggerCount :: nat
  ht_LastTriggered :: "gotime option"
  ht_IncidentID :: string

record HoneyTokenTrigger =
  trg_TriggerID :: string
  trg_TokenID :: string
  trg_TriggeredAt :: gotime
  trg_SourceIP :: string
  trg_UserID :: string
  trg_TenantID :: string
  trg_EventID :: string

datatype AlertStatus = AlertFiring | AlertAcknowledged | AlertResolved

fun AlertStatus_str :: "AlertStatus \<Rightarrow> string" where
  "AlertStatus_str AlertFiring = ''firing''"
| "AlertStatus_str AlertAcknowledged = ''acknowledged''"
| "AlertStatus_str AlertResolved = ''resolved''"

record Alert =
  al_AlertID :: string
  al_RuleName :: string
  al_Severity :: string
  al_Status :: AlertStatus
  al_Message :: string
  al_Module :: string
  al_TenantID :: string
  al_FiredAt :: gotime
  al_AckedAt :: "gotime option"
  al_ResolvedAt :: "gotime option"
  al_EscalatedAt :: "gotime option"

text \<open>The lifecycle order of an alert: firing, then acknowledged, then resolved.\<close>

instantiation AlertStatus :: linorder
begin

fun alert_rank :: "AlertStatus \<Rightarrow> nat" where
  "alert_rank AlertFiring = 0"
| "alert_rank AlertAcknowledged = 1"
| "alert_rank AlertResolved = 2"

definition less_eq_AlertStatus :: "AlertStatus \<Rightarrow> AlertStatus \<Rightarrow> bool" where
  "s \<le> t \<longleftrightarrow> alert_rank s \<le> alert_rank t"

definition less_AlertStatus :: "AlertStatus \<Rightarrow> AlertStatus \<Rightarrow> bool" where
  "s < t \<longleftrightarrow> alert_rank s < alert_rank t"

instance
proof
  fix s t :: AlertStatus
  show "s \<le> t \<Longrightarrow> t \<le> s \<Longrightarrow> s = t"
    by (cases s; cases t) (simp_all add: less_eq_AlertStatus_def)
qed (auto simp: less_eq_AlertStatus_def less_AlertStatus_def)

end

lemma AlertStatus_str_inject [simp]: "AlertStatus_str s = AlertStatus_str t \<longleftrightarrow> s = t"
  by (cases s; cases t) simp_all

lemma IncidentStatus_str_inject [simp]: "IncidentStatus_str s = IncidentStatus_str t \<longleftrightarrow> s = t"
  by (cases s; cases t) simp_all

lemma AlertStatus_str_nonempty [simp]: "AlertStatus_str s \<noteq> []"
  by (cases s) simp_all

subsection \<open>Demo scenarios and recordings\<close>

record Annotation =
  an_OffsetMs :: int
  an_Text :: string
  an_Style :: string

record DemoEvent =
  de_OffsetMs :: int
  de_Event :: BastionEvent

record DemoScenario =
  sc_Name :: string
  sc_Description :: string
  sc_DurationSec :: rat
  sc_Events :: "DemoEvent list"
  sc_Annotations :: "Annotation list"

datatype RecordingState = RecordingIdle | RecordingActive | RecordingStopped

record RecordingStatus =
  rs_State :: RecordingState
  rs_StartedAt :: "gotime option"
  rs_StoppedAt :: "gotime option"
  rs_EventCount :: nat
  rs_Scenario :: "DemoScenario option"

subsection \<open>Topology, statistics, dashboards\<close>

record ModuleHealth =
  mh_Module :: string
  mh_Status :: string
  mh_LatencyMs :: rat
  mh_ErrorRate :: rat
  mh_Throughput :: rat
  mh_LastEventAt :: "gotime option"

record TopologySnapshot =
  ts_UpdatedAt :: gotime
  ts_Modules :: "ModuleHealth list"

record PipelineStats =
  ps_PeriodStart :: gotime
  ps_PeriodEnd :: gotime
  ps_TotalRequests :: int
  ps_Breakdown :: "(string, int) gomap"

record ModuleVolume =
  mv_Module :: string
  mv_Count :: int

record DashboardSummary =
  ds_EventCount1h :: int
  ds_EventCount24h :: int
  ds_ActiveIncidents :: nat
  ds_FiringAlerts :: nat
  ds_HoneyTokenTriggers :: nat
  ds_BlockedRequests1h :: int
  ds_TopModules :: "ModuleVolume list"
  ds_UpdatedAt :: gotime

record PipelineHealthEntry =
  ph_Module :: string
  ph_Status :: string
  ph_AvgLatencyMs :: rat
  ph_ErrorRate :: rat
  ph_EventsPerMin :: rat
  ph_LastEventAt :: "gotime option"

record PipelineHealthResponse =
  phr_Modules :: "PipelineHealthEntry list"
  phr_UpdatedAt :: gotime

record TenantActivity =
  ta_TenantID :: string
  ta_EventCount1h :: int
  ta_IncidentCount :: nat
  ta_BlockedCount1h :: int
  ta_HoneyTokenTriggers :: nat
  ta_CategoryBreakdown :: "(string, int) gomap"
  ta_UpdatedAt :: gotime

record EventsPage =
  ep_Events :: "BastionEvent list"
  ep_Total :: nat
  ep_NextCursor :: string

subsection \<open>Lineage, audit, logins, anomalies, queries\<close>

record ChunkLineageEntry =
  cl_ChunkID :: string
  cl_DocumentID :: string
  cl_Score :: rat
  cl_Rank :: int
  cl_Collection :: string
  cl_TenantID :: string

record AuditVerifyResult =
  av_Total :: nat
  av_Valid :: nat
  av_Invalid :: nat
  av_Unsigned :: nat
  av_Tampered :: "string list"

record LoginAuditEvent =
  la_Timestamp :: gotime
  la_Username :: string
  la_Role :: string
  la_SourceIP :: string
  la_Success :: bool
  la_Reason :: string

record AnomalyBaseline =
  ab_Module :: string
  ab_EventType :: string
  ab_WindowH :: int
  ab_Mean :: real
  ab_StdDev :: real
  ab_SigmaThresh :: real
  ab_LastUpdated :: gotime

record AnomalyEvent =
  ano_AnomalyID :: string
  ano_Pattern :: string
  ano_Severity :: string
  ano_TenantID :: string
  ano_UserID :: string
  ano_TraceID :: string
  ano_DetectedAt :: gotime
  ano_Description :: string
  ano_Evidence :: "(string, goany) gomap"

record QueryRequest =
  q_TraceID :: string
  q_UserID :: string
  q_TenantID :: string
  q_Module :: string
  q_Severity :: string
  q_Status :: string
  q_Since :: gotime
  q_Until :: gotime
  q_Limit :: int

definition zero_query :: QueryRequest where
  "zero_query = \<lparr>q_TraceID = [], q_UserID = [], q_TenantID = [], q_Module = [], q_Severity = [],
     q_Status = [], q_Since = 0, q_Until = 0, q_Limit = 0\<rparr>"

record SubmitResponse =
  sr_EventID :: string
  sr_Accepted :: bool

record BatchResponse =
  br_Accepted :: nat
  br_Rejected :: nat

record ErrorResponse =
  er_Error :: string
  er_Code :: nat

subsection \<open>The timestamp codec of BastionEvent\<close>

text \<open>
  \<open>MarshalJSON\<close> writes the timestamp as the integer \<open>UnixNano\<close>. \<open>UnmarshalJSON\<close> decodes it
  into an \<open>interface{}\<close>, which encoding/json fills with a \<open>float64\<close>: the integer is rounded
  to 53 significant bits (to nearest, ties to even) before \<open>int64(v)\<close> reads it back.
  \<open>f64_exp\<close> is the binary exponent of the last place of that \<open>float64\<close>.
\<close>

function f64_exp :: "int \<Rightarrow> nat" where
  "f64_exp n = (if n < 2 ^ 53 then 0 else Suc (f64_exp (n div 2)))"
  by pat_completeness auto
termination
  by (relation "measure nat") auto

declare f64_exp.simps [simp del]

definition f64_round :: "int \<Rightarrow> int" where
  "f64_round n =
     (let u = 2 ^ f64_exp n; q = n div u; r = n mod u
      in if 2 * r < u \<or> (2 * r = u \<and> even q) then q * u else (q + 1) * u)"

definition f64_of_int :: "int \<Rightarrow> int" where
  "f64_of_int n = (if n < 0 then - f64_round (- n) else f64_round n)"

text \<open>
  The dynamic value of \<open>aux.Timestamp\<close>; \<open>parse layout s\<close> is \<open>time.Parse\<close>, which reads
  RFC 3339 strings.
\<close>

datatype json_time = TsAbsent | TsFloat rat | TsString string | TsOther

definition UnmarshalTimestamp ::
    "(string \<Rightarrow> string \<Rightarrow> gotime option) \<Rightarrow> json_time \<Rightarrow> gotime \<Rightarrow> gotime" where
  "UnmarshalTimestamp parse j old =
     (case j of
        TsFloat v \<Rightarrow> time_FromUnixNano (trunc_rat v)
      | TsString s \<Rightarrow>
          (case parse ''2006-01-02T15:04:05.999999999Z07:00'' s of
             Some t \<Rightarrow> t
           | None \<Rightarrow> (case parse ''2006-01-02T15:04:05Z07:00'' s of Some t \<Rightarrow> t | None \<Rightarrow> old))
      | _ \<Rightarrow> old)"

definition MarshalTimestamp :: "gotime \<Rightarrow> int" where
  "MarshalTimestamp t = UnixNano t"

text \<open>How encoding/json reads an integer literal into an \<open>interface{}\<close>.\<close>

definition json_number :: "int \<Rightarrow> json_time" where
  "json_number n = TsFloat (of_int (f64_of_int n))"

lemma f64_exp_le: "n < 2 ^ (53 + k) \<Longrightarrow> f64_exp n \<le> k"
proof (induction k arbitrary: n)
  case 0
  then show ?case by (subst f64_exp.simps) simp
next
  case (Suc k)
  have "n < 2 * 2 ^ (53 + k)" using Suc.prems by (simp add: power_add)
  then have "n div 2 < 2 ^ (53 + k)" by linarith
  then show ?case using Suc.IH [of "n div 2"] by (subst f64_exp.simps) simp
qed

lemma f64_round_error:
  shows "2 * \<bar>f64_round n - n\<bar> \<le> 2 ^ f64_exp n"
proof -
  define u :: int where "u = 2 ^ f64_exp n"
  have u: "0 < u" by (simp add: u_def)
  have n: "n = u * (n div u) + n mod u" by simp
  have r: "0 \<le> n mod u" "n mod u < u" using u by simp_all
  show ?thesis
  proof (cases "2 * (n mod u) < u \<or> (2 * (n mod u) = u \<and> even (n div u))")
    case True
    then have "f64_round n = u * (n div u)"
      by (simp add: f64_round_def Let_def mult.commute flip: u_def)
    then have "f64_round n - n = - (n mod u)" using n by linarith
    then have "\<bar>f64_round n - n\<bar> = n mod u" using r by simp
    moreover have "2 * (n mod u) \<le> u" using True by auto
    ultimately show ?thesis unfolding u_def [symmetric] by simp
  next
    case False
    then have "f64_round n = u * (n div u) + u"
      by (auto simp: f64_round_def Let_def algebra_simps simp flip: u_def)
    then have "f64_round n - n = u - n mod u" using n by linarith
    then have "\<bar>f64_round n - n\<bar> = u - n mod u" using r by simp
    moreover have "u \<le> 2 * (n mod u)" using False by auto
    ultimately show ?thesis unfolding u_def [symmetric] by simp
  qed
qed

lemma f64_of_int_error:
  assumes "\<bar>n\<bar> < 2 ^ (54 + k)"
  shows "\<bar>f64_of_int n - n\<bar> \<le> 2 ^ k"
proof -
  have *: "\<bar>f64_round m - m\<bar> \<le> 2 ^ k" if "m < 2 ^ (54 + k)" for m
  proof -
    have "f64_exp m \<le> Suc k" by (rule f64_exp_le) (use that in simp)
    then have "(2::int) ^ f64_exp m \<le> 2 ^ Suc k" by (intro power_increasing) simp_all
    then show ?thesis using f64_round_error [of m] by simp
  qed
  show ?thesis using * [of n] * [of "- n"] assms by (auto simp: f64_of_int_def)
qed

lemma f64_round_exact: "n < 2 ^ 53 \<Longrightarrow> f64_round n = n"
  by (simp add: f64_round_def f64_exp.simps [of n])

lemma f64_of_int_exact: "\<bar>n\<bar> < 2 ^ 53 \<Longrightarrow> f64_of_int n = n"
  by (simp add: f64_of_int_def f64_round_exact)

lemma Unmarshal_Marshal:
  "UnmarshalTimestamp parse (json_number (MarshalTimestamp t)) old
     = unix_epoch + f64_of_int (UnixNano t)"
  by (simp add: UnmarshalTimestamp_def json_number_def MarshalTimestamp_def time_FromUnixNano_def)

subsection \<open>Properties\<close>

text \<open>
  C39: timestamps survive the JSON codec up to 128 nanoseconds. For every instant within 73
  years of the Unix epoch, marshalling an event's timestamp and unmarshalling the number gives
  an instant at most 128 ns away, and the same instant when it is within 104 days of the epoch;
  the number passes through a \<open>float64\<close>, so it is not exact in general.
\<close>

theorem timestamp_codec_error:
  assumes "\<bar>t - unix_epoch\<bar> < 2 ^ 61"
  shows "\<bar>UnmarshalTimestamp parse (json_number (MarshalTimestamp t)) old - t\<bar> \<le> 128
    \<and> (\<bar>t - unix_epoch\<bar> < 2 ^ 53 \<longrightarrow>
         UnmarshalTimestamp parse (json_number (MarshalTimestamp t)) old = t)"
proof -
  have n: "UnixNano t = t - unix_epoch"
    unfolding UnixNano_def using assms by (intro wrap64_id) (simp_all add: abs_less_iff)
  have "\<bar>f64_of_int (t - unix_epoch) - (t - unix_epoch)\<bar> \<le> 2 ^ 7"
    by (rule f64_of_int_error) (use assms in simp)
  then show ?thesis
    using f64_of_int_exact [of "t - unix_epoch"] unfolding Unmarshal_Marshal n by auto
qed

lemma timestamp_codec_error_witness:
  "let t = unix_epoch + 1700000000000000100; t' = UnmarshalTimestamp (\<lambda>l s. None) (json_number (MarshalTimestamp t)) 0
   in \<bar>t' - t\<bar> \<le> 128 \<and> t' \<noteq> t"
proof -
  let ?t = "unix_epoch + 1700000000000000100"
  have "\<bar>UnmarshalTimestamp (\<lambda>l s. None) (json_number (MarshalTimestamp ?t)) 0 - ?t\<bar> \<le> 128"
    using timestamp_codec_error [of ?t "\<lambda>l s. None" 0] by simp
  moreover have "UnmarshalTimestamp (\<lambda>l s. None) (json_number (MarshalTimestamp ?t)) 0 \<noteq> ?t"
    by code_simp
  ultimately show ?thesis by (simp only: Let_def) simp
qed

end
