(* ===== verification/Store.thy ===== *)
theory Store
  imports Models Exchange_Sort
begin

text \<open>
  The state of internal/store/memory.go and its event ring: \<open>New\<close>, \<open>AddEvent\<close>,
  \<open>GetEvent\<close>, \<open>RecentEvents\<close>, \<open>EventsPage\<close>, \<open>SearchEvents\<close>, and the login
  trail. Every method holds the store's mutex, so each is one atomic step of the state.
  The ring is refined to the list \<open>newest s\<close> of its events, newest first; every reading
  operation is characterised over that list.
\<close>

record Store =
  st_events :: "BastionEvent list"
  st_maxEvents :: nat
  st_head :: nat
  st_count :: nat
  st_traces :: "(string, Trace) gomap"
  st_incidents :: "(string, Incident) gomap"
  st_alerts :: "(string, Alert) gomap"
  st_tokens :: "(string, HoneyToken) gomap"
  st_triggers :: "(string, HoneyTokenTrigger list) gomap"
  st_lineage :: "(string, ChunkLineageEntry list) gomap"
  st_loginAudit :: "LoginAuditEvent list"

definition Store_New :: "int \<Rightarrow> Store" where
  "Store_New maxEvents =
     (let n = (if maxEvents \<le> 0 then 10000 else nat maxEvents)
      in \<lparr>st_events = replicate n zero_event, st_maxEvents = n, st_head = 0, st_count = 0,
          st_traces = [], st_incidents = [], st_alerts = [], st_tokens = [], st_triggers = [],
          st_lineage = [], st_loginAudit = []\<rparr>)"

subsection \<open>The ring\<close>

definition AddEvent :: "BastionEvent \<Rightarrow> Store \<Rightarrow> Store" where
  "AddEvent ev s =
     s\<lparr>st_events := (st_events s)[st_head s := ev],
       st_head := (st_head s + 1) mod st_maxEvents s,
       st_count := st_count s + 1\<rparr>"

definition ring_size :: "Store \<Rightarrow> nat" where
  "ring_size s = (if st_count s < st_maxEvents s then st_count s else st_maxEvents s)"

text \<open>\<open>((s.head - 1 - i) + s.maxEvents) % s.maxEvents\<close>\<close>

definition ring_idx :: "Store \<Rightarrow> nat \<Rightarrow> nat" where
  "ring_idx s i = nat (((int (st_head s) - 1 - int i) + int (st_maxEvents s)) mod int (st_maxEvents s))"

definition ring_at :: "Store \<Rightarrow> nat \<Rightarrow> BastionEvent" where
  "ring_at s i = st_events s ! ring_idx s i"

definition newest :: "Store \<Rightarrow> BastionEvent list" where
  "newest s = map (ring_at s) [0..<ring_size s]"

definition ring_ok :: "Store \<Rightarrow> bool" where
  "ring_ok s \<longleftrightarrow> 0 < st_maxEvents s \<and> length (st_events s) = st_maxEvents s
     \<and> st_head s = st_count s mod st_maxEvents s"

lemma ring_ok_head: "ring_ok s \<Longrightarrow> st_head s < st_maxEvents s"
  by (simp add: ring_ok_def)

lemma ring_ok_New: "ring_ok (Store_New n)"
  by (simp add: ring_ok_def Store_New_def Let_def)

lemma newest_New [simp]: "newest (Store_New n) = []"
  by (simp add: newest_def ring_size_def Store_New_def Let_def)

lemma ring_ok_AddEvent: "ring_ok s \<Longrightarrow> ring_ok (AddEvent ev s)"
  by (simp add: ring_ok_def AddEvent_def mod_Suc_eq)

text \<open>
  For \<open>i\<close> below the ring size the index the code computes is in range, so the
  slice access never panics.
\<close>

lemma ring_idx_eq:
  assumes "st_head s < st_maxEvents s" and "i < st_maxEvents s"
  shows "ring_idx s i = (if i < st_head s then st_head s - 1 - i
                         else st_maxEvents s + st_head s - 1 - i)"
proof (cases "i < st_head s")
  case True
  have "(int (st_head s) - 1 - int i + int (st_maxEvents s)) mod int (st_maxEvents s)
      = (int (st_head s) - 1 - int i) mod int (st_maxEvents s)" by simp
  also have "\<dots> = int (st_head s) - 1 - int i" using True assms by (intro mod_pos_pos_trivial) simp_all
  finally show ?thesis using True by (simp add: ring_idx_def)
next
  case False
  then have "(int (st_head s) - 1 - int i + int (st_maxEvents s)) mod int (st_maxEvents s)
      = int (st_head s) - 1 - int i + int (st_maxEvents s)"
    using assms by (intro mod_pos_pos_trivial) simp_all
  with False show ?thesis using assms by (simp add: ring_idx_def)
qed

lemma ring_idx_less:
  "st_head s < st_maxEvents s \<Longrightarrow> i < st_maxEvents s \<Longrightarrow> ring_idx s i < st_maxEvents s"
  by (auto simp: ring_idx_eq)

lemma ring_idx_ge0:
  "i < ring_size s \<Longrightarrow> 0 \<le> (int (st_head s) - 1 - int i) + int (st_maxEvents s)"
  by (auto simp: ring_size_def split: if_splits)

lemma length_newest [simp]: "length (newest s) = min (st_count s) (st_maxEvents s)"
  by (simp add: newest_def ring_size_def min_def)

lemma ring_at_AddEvent_0:
  assumes "ring_ok s"
  shows "ring_at (AddEvent ev s) 0 = ev"
proof -
  have h: "st_head s < st_maxEvents s" by (rule ring_ok_head [OF assms])
  have "ring_idx (AddEvent ev s) 0 = st_head s"
    using h by (cases "Suc (st_head s) = st_maxEvents s") (simp_all add: ring_idx_eq AddEvent_def)
  then show ?thesis using h assms by (simp add: ring_at_def AddEvent_def ring_ok_def)
qed

lemma ring_at_AddEvent_Suc:
  assumes "ring_ok s" and "Suc i < st_maxEvents s"
  shows "ring_at (AddEvent ev s) (Suc i) = ring_at s i"
proof -
  have h: "st_head s < st_maxEvents s" by (rule ring_ok_head [OF assms(1)])
  have "ring_idx (AddEvent ev s) (Suc i) = ring_idx s i"
    using h assms(2)
    by (cases "Suc (st_head s) = st_maxEvents s") (auto simp: ring_idx_eq AddEvent_def)
  moreover have "ring_idx s i \<noteq> st_head s" using h assms(2) by (auto simp: ring_idx_eq)
  ultimately show ?thesis by (simp add: ring_at_def AddEvent_def)
qed

text \<open>The refinement: adding an event pushes it at the front of a list cut to the capacity.\<close>

lemma newest_AddEvent:
  assumes "ring_ok s"
  shows "newest (AddEvent ev s) = take (st_maxEvents s) (ev # newest s)"
proof (rule nth_equalityI)
  have max: "st_maxEvents (AddEvent ev s) = st_maxEvents s" "st_count (AddEvent ev s) = Suc (st_count s)"
    by (simp_all add: AddEvent_def)
  show "length (newest (AddEvent ev s)) = length (take (st_maxEvents s) (ev # newest s))"
    using assms by (auto simp: max ring_ok_def min_def)
  fix i assume i: "i < length (newest (AddEvent ev s))"
  then have i': "i < st_maxEvents s" "i < Suc (st_count s)" by (simp_all add: max)
  have "newest (AddEvent ev s) ! i = ring_at (AddEvent ev s) i"
    using i by (simp add: newest_def)
  also have "\<dots> = (ev # newest s) ! i"
  proof (cases i)
    case 0
    then show ?thesis using ring_at_AddEvent_0 [OF assms] by simp
  next
    case (Suc k)
    then have "newest s ! k = ring_at s k" using i' by (simp add: newest_def ring_size_def)
    then show ?thesis using ring_at_AddEvent_Suc [OF assms, of k] Suc i' by simp
  qed
  finally show "newest (AddEvent ev s) ! i = take (st_maxEvents s) (ev # newest s) ! i"
    using i' by simp
qed

text \<open>The ring is a bounded log: the instance the reading operations and the processor use.\<close>

abbreviation ring_log :: "Store \<Rightarrow> BastionEvent list" where
  "ring_log s \<equiv> rev (newest s)"

interpretation ring: bounded_log AddEvent ring_log st_maxEvents ring_ok
proof
  fix s :: Store and ev
  assume ok: "ring_ok s"
  show "ring_log (AddEvent ev s) = keep_last (st_maxEvents s) (ring_log s @ [ev])"
    by (metis newest_AddEvent [OF ok, of ev] rev_keep_last rev_rev_ident rev.simps(2))
  show "st_maxEvents (AddEvent ev s) = st_maxEvents s" by (simp add: AddEvent_def)
  show "ring_ok (AddEvent ev s)" by (rule ring_ok_AddEvent [OF ok])
  show "0 < st_maxEvents s" using ok by (simp add: ring_ok_def)
  show "length (ring_log s) \<le> st_maxEvents s" by simp
qed

subsection \<open>Reading the ring\<close>

definition matchEvent :: "BastionEvent \<Rightarrow> QueryRequest \<Rightarrow> bool" where
  "matchEvent ev q =
     (if q_Module q \<noteq> [] \<and> ev_Module ev \<noteq> q_Module q then False
      else if q_TenantID q \<noteq> [] \<and> ev_TenantID ev \<noteq> q_TenantID q then False
      else if q_UserID q \<noteq> [] \<and> ev_UserID ev \<noteq> q_UserID q then False
      else if q_Severity q \<noteq> [] \<and> ev_Severity ev \<noteq> q_Severity q then False
      else if q_Status q \<noteq> [] \<and> ev_Status ev \<noteq> q_Status q then False
      else if q_TraceID q \<noteq> [] \<and> ev_TraceID ev \<noteq> q_TraceID q then False
      else if \<not> time_IsZero (q_Since q) \<and> time_Before (ev_Timestamp ev) (q_Since q) then False
      else if \<not> time_IsZero (q_Until q) \<and> time_After (ev_Timestamp ev) (q_Until q) then False
      else True)"

text \<open>
  The loop \<open>for i := start; i < size && len(results) < limit; i++\<close>: it skips the events
  that fail \<open>keep\<close> and stops once \<open>limit\<close> results are collected.
\<close>

fun scan_loop :: "(BastionEvent \<Rightarrow> bool) \<Rightarrow> nat \<Rightarrow> BastionEvent list \<Rightarrow> BastionEvent list \<Rightarrow> BastionEvent list" where
  "scan_loop keep limit results [] = results"
| "scan_loop keep limit results (ev # evs) =
     (if length results < limit
      then scan_loop keep limit (if keep ev then results @ [ev] else results) evs
      else results)"

lemma scan_loop_eq:
  "length acc \<le> limit \<Longrightarrow>
     scan_loop keep limit acc evs = acc @ take (limit - length acc) (filter keep evs)"
proof (induction evs arbitrary: acc)
  case Nil
  then show ?case by simp
next
  case (Cons ev evs)
  show ?case
  proof (cases "length acc < limit")
    case True
    then have "limit - length acc = Suc (limit - Suc (length acc))" by simp
    with True Cons.IH [of "if keep ev then acc @ [ev] else acc"] show ?thesis by simp
  next
    case False
    with Cons.prems show ?thesis by simp
  qed
qed

lemma scan_loop_take [simp]: "scan_loop keep limit [] evs = take limit (filter keep evs)"
  by (simp add: scan_loop_eq)

definition GetEvent :: "Store \<Rightarrow> string \<Rightarrow> BastionEvent option" where
  "GetEvent s eid = List.find (\<lambda>ev. ev_EventID ev = eid) (newest s)"

definition default_limit :: "int \<Rightarrow> int \<Rightarrow> nat" where
  "default_limit def limit = nat (if limit \<le> 0 then def else limit)"

definition RecentEvents :: "Store \<Rightarrow> QueryRequest \<Rightarrow> int \<Rightarrow> BastionEvent list" where
  "RecentEvents s q limit =
     scan_loop (\<lambda>ev. ev_EventID ev \<noteq> [] \<and> matchEvent ev q) (default_limit 100 limit) [] (newest s)"

text \<open>The cursor loop: one past the first position that carries the id, or 0.\<close>

fun cursor_start :: "string \<Rightarrow> nat \<Rightarrow> BastionEvent list \<Rightarrow> nat" where
  "cursor_start cursor i [] = 0"
| "cursor_start cursor i (ev # evs) =
     (if ev_EventID ev = cursor then i + 1 else cursor_start cursor (i + 1) evs)"

definition page_limit :: "int \<Rightarrow> nat" where
  "page_limit limit = nat (if limit \<le> 0 \<or> limit > 200 then 50 else limit)"

definition Store_EventsPage :: "Store \<Rightarrow> QueryRequest \<Rightarrow> string \<Rightarrow> int \<Rightarrow> EventsPage" where
  "Store_EventsPage s q cursor limit0 =
     (let limit = page_limit limit0;
          startIdx = (if cursor \<noteq> [] then cursor_start cursor 0 (newest s) else 0);
          results = scan_loop (\<lambda>ev. ev_EventID ev \<noteq> [] \<and> matchEvent ev q) limit []
                      (drop startIdx (newest s));
          nextCursor = (if length results = limit then ev_EventID (results ! (length results - 1)) else [])
      in \<lparr>ep_Events = results, ep_Total = length results, ep_NextCursor = nextCursor\<rparr>)"

text \<open>
  \<open>strings.ToLower\<close> on ASCII letters; the bytes of other characters are left as they are.
\<close>

definition lower_char :: "char \<Rightarrow> char" where
  "lower_char c = (let n = (of_char c :: nat) in if 65 \<le> n \<and> n \<le> 90 then char_of (n + 32) else c)"

definition ToLower :: "string \<Rightarrow> string" where
  "ToLower s = map lower_char s"

definition SearchEvents :: "Store \<Rightarrow> string \<Rightarrow> int \<Rightarrow> BastionEvent list" where
  "SearchEvents s keyword limit =
     (let kw = ToLower keyword
      in scan_loop (\<lambda>ev. ev_EventID ev \<noteq> [] \<and>
           (kw = [] \<or> Contains (ToLower (ev_EventType ev)) kw
            \<or> Contains (ToLower (ev_Module ev)) kw \<or> Contains (ToLower (ev_TenantID ev)) kw))
           (default_limit 100 limit) [] (newest s))"

lemma RecentEvents_eq:
  "RecentEvents s q limit =
     take (default_limit 100 limit) (filter (\<lambda>ev. ev_EventID ev \<noteq> [] \<and> matchEvent ev q) (newest s))"
  by (simp add: RecentEvents_def)

lemma RecentEvents_subset: "set (RecentEvents s q limit) \<subseteq> set (newest s)"
  unfolding RecentEvents_eq by (meson filter_is_subset order_trans set_take_subset)

lemma matchEvent_iff:
  "matchEvent ev q \<longleftrightarrow>
     (q_Module q = [] \<or> ev_Module ev = q_Module q)
   \<and> (q_TenantID q = [] \<or> ev_TenantID ev = q_TenantID q)
   \<and> (q_UserID q = [] \<or> ev_UserID ev = q_UserID q)
   \<and> (q_Severity q = [] \<or> ev_Severity ev = q_Severity q)
   \<and> (q_Status q = [] \<or> ev_Status ev = q_Status q)
   \<and> (q_TraceID q = [] \<or> ev_TraceID ev = q_TraceID q)
   \<and> (q_Since q = 0 \<or> q_Since q \<le> ev_Timestamp ev)
   \<and> (q_Until q = 0 \<or> ev_Timestamp ev \<le> q_Until q)"
  by (auto simp: matchEvent_def go_simps)

lemma default_limit_pos: "0 < def \<Longrightarrow> 0 < default_limit def limit"
  by (simp add: default_limit_def)

lemma page_limit_range: "1 \<le> page_limit limit \<and> page_limit limit \<le> 200"
  by (auto simp: page_limit_def)

subsection \<open>Cursor pagination\<close>

lemma cursor_start_first:
  "ev_EventID e = c \<Longrightarrow> c \<notin> ev_EventID ` set xs \<Longrightarrow>
     cursor_start c i (xs @ e # ys) = i + length xs + 1"
  by (induction xs arbitrary: i) auto

text \<open>Resuming after the last event of a page continues with exactly the rest.\<close>

lemma resume_after:
  assumes ids: "distinct (map ev_EventID evs)"
    and pre: "take n (filter keep evs) = res" and ne: "res \<noteq> []"
  shows "filter keep (drop (cursor_start (ev_EventID (last res)) 0 evs) evs)
       = drop (length res) (filter keep evs)"
proof -
  have "last res \<in> set (filter keep evs)" using pre ne by (metis in_set_takeD last_in_set)
  then have last: "last res \<in> set evs" and keep: "keep (last res)" by simp_all
  then obtain xs ys where evs: "evs = xs @ last res # ys" by (meson split_list)
  have notin: "ev_EventID (last res) \<notin> ev_EventID ` set xs" using ids evs
    by (metis distinct_append list.set_map list.simps(9) map_append disjoint_iff list.set_intros(1))
  have drop: "drop (cursor_start (ev_EventID (last res)) 0 evs) evs = ys"
    using cursor_start_first [OF refl notin, of 0 ys] evs by simp
  have f: "filter keep evs = filter keep xs @ last res # filter keep ys"
    using keep by (subst evs) simp
  have dist: "distinct (filter keep evs)" using ids by (simp add: distinct_map)
  have "res ! (length res - 1) = last res" using ne by (simp add: last_conv_nth)
  moreover have "filter keep evs ! (length res - 1) = res ! (length res - 1)"
    using pre ne by (metis diff_less length_greater_0_conv length_take min_less_iff_conj nth_take zero_less_one)
  moreover have "filter keep evs ! length (filter keep xs) = last res"
    using f by (metis nth_append_length)
  moreover have "length res - 1 < length (filter keep evs)"
    using pre ne by (metis diff_less length_greater_0_conv length_take min_less_iff_conj zero_less_one)
  moreover have "length (filter keep xs) < length (filter keep evs)" using f by simp
  ultimately have "length res - 1 = length (filter keep xs)"
    using dist by (metis nth_eq_iff_index_eq)
  then have "length res = Suc (length (filter keep xs))" using ne by (cases res) simp_all
  then show ?thesis using f drop by simp
qed

text \<open>A client that follows \<open>next_cursor\<close> until it is empty.\<close>

fun walk_pages :: "nat \<Rightarrow> Store \<Rightarrow> QueryRequest \<Rightarrow> string \<Rightarrow> int \<Rightarrow> BastionEvent list" where
  "walk_pages 0 s q cursor limit = []"
| "walk_pages (Suc n) s q cursor limit =
     (let p = Store_EventsPage s q cursor limit
      in ep_Events p @ (if ep_NextCursor p = [] then [] else walk_pages n s q (ep_NextCursor p) limit))"

definition start_of :: "string \<Rightarrow> BastionEvent list \<Rightarrow> nat" where
  "start_of cursor evs = (if cursor \<noteq> [] then cursor_start cursor 0 evs else 0)"

abbreviation page_keep :: "QueryRequest \<Rightarrow> BastionEvent \<Rightarrow> bool" where
  "page_keep q \<equiv> (\<lambda>ev. ev_EventID ev \<noteq> [] \<and> matchEvent ev q)"

lemma EventsPage_eq:
  "Store_EventsPage s q cursor limit =
     (let res = take (page_limit limit) (filter (page_keep q) (drop (start_of cursor (newest s)) (newest s)))
      in \<lparr>ep_Events = res, ep_Total = length res,
          ep_NextCursor = (if length res = page_limit limit then ev_EventID (last res) else [])\<rparr>)"
proof -
  let ?res = "take (page_limit limit) (filter (page_keep q) (drop (start_of cursor (newest s)) (newest s)))"
  have "?res ! (length ?res - 1) = last ?res" if "length ?res = page_limit limit"
    using that page_limit_range [of limit] by (intro last_conv_nth [symmetric]) auto
  then show ?thesis
    by (simp only: Store_EventsPage_def Let_def scan_loop_take start_of_def [symmetric] cong: if_cong)
qed

lemma walk_pages_from:
  assumes ids: "distinct (map ev_EventID (newest s))"
    and start: "filter (page_keep q) (drop (start_of cursor (newest s)) (newest s))
                = drop m (filter (page_keep q) (newest s))"
    and fuel: "length (filter (page_keep q) (newest s)) - m < fuel"
  shows "walk_pages fuel s q cursor limit = drop m (filter (page_keep q) (newest s))"
  using start fuel
proof (induction fuel arbitrary: cursor m)
  case 0
  then show ?case by simp
next
  case (Suc fuel)
  let ?F = "filter (page_keep q) (newest s)" and ?L = "page_limit limit"
  define res where "res = take ?L (drop m ?F)"
  have L: "0 < ?L" using page_limit_range [of limit] by simp
  have page: "Store_EventsPage s q cursor limit = \<lparr>ep_Events = res, ep_Total = length res,
      ep_NextCursor = (if length res = ?L then ev_EventID (last res) else [])\<rparr>"
    by (simp add: EventsPage_eq Suc.prems(1) res_def Let_def)
  show ?case
  proof (cases "length res = ?L")
    case False
    then have "length (drop m ?F) \<le> ?L" unfolding res_def by simp
    then show ?thesis using False by (simp add: page res_def)
  next
    case True
    have ne: "res \<noteq> []" using True L by auto
    have big: "m + ?L \<le> length ?F" using True L unfolding res_def length_take length_drop by linarith
    have last: "last res = last (take (m + ?L) ?F)"
      using ne unfolding res_def take_add by simp
    have "set res \<subseteq> set ?F" unfolding res_def by (rule order_trans [OF set_take_subset set_drop_subset])
    with last_in_set [OF ne] have "last res \<in> set ?F" by (rule rev_subsetD)
    then have cur: "ev_EventID (last res) \<noteq> []" by simp
    have "length (take (m + ?L) ?F) = m + ?L" using big by simp
    then have "take (m + ?L) ?F \<noteq> []" using L by (metis add_is_0 list.size(3) not_gr_zero)
    then have "filter (page_keep q) (drop (cursor_start (ev_EventID (last res)) 0 (newest s)) (newest s))
        = drop (m + ?L) ?F"
      using resume_after [OF ids refl, of "m + ?L" "page_keep q"] big unfolding last by (simp add: min_absorb2)
    then have "filter (page_keep q) (drop (start_of (ev_EventID (last res)) (newest s)) (newest s))
        = drop (m + ?L) ?F" using cur by (simp add: start_of_def)
    then have rest: "walk_pages fuel s q (ev_EventID (last res)) limit = drop (m + ?L) ?F"
      by (rule Suc.IH) (use Suc.prems(2) big L in linarith)
    have "walk_pages (Suc fuel) s q cursor limit = res @ drop (m + ?L) ?F"
      using True cur rest by (simp add: page)
    also have "\<dots> = drop m ?F"
      unfolding res_def add.commute [of m] drop_drop [symmetric] by (rule append_take_drop_id)
    finally show ?thesis .
  qed
qed

subsection \<open>The login trail\<close>

definition RecordLogin :: "LoginAuditEvent \<Rightarrow> Store \<Rightarrow> Store" where
  "RecordLogin ev s =
     (let trimmed = (if length (st_loginAudit s) \<ge> 10000 then tl (st_loginAudit s) else st_loginAudit s)
      in s\<lparr>st_loginAudit := trimmed @ [ev]\<rparr>)"

definition RecentLogins :: "Store \<Rightarrow> int \<Rightarrow> LoginAuditEvent list" where
  "RecentLogins s limit0 =
     (let limit = default_limit 100 limit0
      in if length (st_loginAudit s) \<le> limit then st_loginAudit s
         else drop (length (st_loginAudit s) - limit) (st_loginAudit s))"

abbreviation logins_ok :: "Store \<Rightarrow> bool" where
  "logins_ok s \<equiv> length (st_loginAudit s) \<le> 10000"

lemma keep_last_snoc:
  "length xs \<le> n \<Longrightarrow> 0 < n \<Longrightarrow> keep_last n (xs @ [x]) = (if length xs \<ge> n then tl xs else xs) @ [x]"
  by (cases "length xs = n") (simp_all add: keep_last_append, simp_all add: keep_last_def drop_Suc)

interpretation logins: bounded_log RecordLogin st_loginAudit "\<lambda>s. 10000" logins_ok
  by unfold_locales (auto simp: RecordLogin_def Let_def keep_last_snoc)

lemma RecentLogins_eq: "RecentLogins s limit = keep_last (default_limit 100 limit) (st_loginAudit s)"
  by (simp add: RecentLogins_def keep_last_def Let_def)

subsection \<open>Properties\<close>

lemma newest_fold:
  "newest (fold AddEvent evs (Store_New n)) = take (if n \<le> 0 then 10000 else nat n) (rev evs)"
proof -
  have "rev (ring_log (fold AddEvent evs (Store_New n))) = rev (keep_last (st_maxEvents (Store_New n)) evs)"
    using ring.view_pushes [OF ring_ok_New, of evs n] by simp
  then show ?thesis by (simp add: rev_keep_last Store_New_def Let_def)
qed

text \<open>
  C12: the event store is a faithful bounded log. After any sequence of \<open>AddEvent\<close> the ring
  enumerates, newest first, exactly the last \<open>maxEvents\<close> events added (10000 when the
  configured size is not positive), and every slice index it computes is in range.
\<close>

theorem ring_is_bounded_log:
  "newest (fold AddEvent evs (Store_New n)) = take (if n \<le> 0 then 10000 else nat n) (rev evs)
   \<and> list_all (\<lambda>i. ring_idx (fold AddEvent evs (Store_New n)) i
        < length (st_events (fold AddEvent evs (Store_New n))))
       [0..<ring_size (fold AddEvent evs (Store_New n))]"
proof
  let ?s = "fold AddEvent evs (Store_New n)"
  show "newest ?s = take (if n \<le> 0 then 10000 else nat n) (rev evs)" by (rule newest_fold)
  have ok: "ring_ok ?s" by (rule ring.wf_pushes [OF ring_ok_New])
  show "list_all (\<lambda>i. ring_idx ?s i < length (st_events ?s)) [0..<ring_size ?s]"
    using ring_idx_less [OF ring_ok_head [OF ok]] ok
    by (auto simp: list_all_iff ring_size_def ring_ok_def split: if_splits)
qed

text \<open>
  An event that was stored is found by its id until \<open>maxEvents\<close> later events have
  overwritten it, and a later event with the same id is found instead of an older one.
\<close>

theorem stored_event_found:
  assumes "length later < st_maxEvents (Store_New n)"
    and "ev_EventID ev \<notin> ev_EventID ` set later"
  shows "GetEvent (fold AddEvent (earlier @ ev # later) (Store_New n)) (ev_EventID ev) = Some ev"
proof -
  let ?s = "fold AddEvent (earlier @ ev # later) (Store_New n)"
  have "ring_log ?s = keep_last (st_maxEvents (Store_New n)) (earlier @ ev # later)"
    using ring.view_pushes [OF ring_ok_New, of "earlier @ ev # later" n] by simp
  also have "\<dots> = keep_last (st_maxEvents (Store_New n) - length (ev # later)) earlier @ ev # later"
    using assms(1) by (intro keep_last_append) simp
  finally have "newest ?s = rev (keep_last (st_maxEvents (Store_New n) - length (ev # later)) earlier @ ev # later)"
    by (metis rev_rev_ident)
  then have "newest ?s = rev later @ ev # rev (keep_last (st_maxEvents (Store_New n) - length (ev # later)) earlier)"
    by simp
  moreover have "List.find P (xs @ y # ys) = Some y" if "P y" "\<forall>x \<in> set xs. \<not> P x" for P y and xs ys :: "BastionEvent list"
    using that by (induction xs) auto
  ultimately show ?thesis using assms(2) unfolding GetEvent_def by (metis (mono_tags, lifting) image_eqI set_rev)
qed

text \<open>
  C13: pagination is complete and without repeats. A client that follows \<open>next_cursor\<close>
  through \<open>EventsPage\<close> over an unchanged store with distinct event ids receives every
  matching event exactly once, newest first, whatever the page size, and no page exceeds 200.
\<close>

theorem pages_cover_matches:
  assumes "distinct (map ev_EventID (newest s))"
    and "length (filter (page_keep q) (newest s)) < fuel"
  shows "walk_pages fuel s q [] limit = filter (page_keep q) (newest s)
    \<and> length (ep_Events (Store_EventsPage s q cursor limit)) \<le> 200"
proof
  show "walk_pages fuel s q [] limit = filter (page_keep q) (newest s)"
    using walk_pages_from [OF assms(1), of q "[]" 0 fuel limit] assms(2) by (simp add: start_of_def)
  show "length (ep_Events (Store_EventsPage s q cursor limit)) \<le> 200"
    using page_limit_range [of limit] by (simp add: EventsPage_eq Let_def min_le_iff_disj)
qed

definition three_events :: "BastionEvent list" where
  "three_events = [zero_event\<lparr>ev_EventID := ''a''\<rparr>, zero_event\<lparr>ev_EventID := ''b'', ev_Module := ''vault''\<rparr>,
     zero_event\<lparr>ev_EventID := ''c''\<rparr>]"

lemma stored_event_found_witness:
  "GetEvent (fold AddEvent ([] @ zero_event\<lparr>ev_EventID := ''a''\<rparr> # [zero_event\<lparr>ev_EventID := ''b''\<rparr>])
     (Store_New 2)) ''a'' = Some (zero_event\<lparr>ev_EventID := ''a''\<rparr>)"
proof -
  have "GetEvent (fold AddEvent ([] @ zero_event\<lparr>ev_EventID := ''a''\<rparr> # [zero_event\<lparr>ev_EventID := ''b''\<rparr>])
     (Store_New 2)) (ev_EventID (zero_event\<lparr>ev_EventID := ''a''\<rparr>)) = Some (zero_event\<lparr>ev_EventID := ''a''\<rparr>)"
    by (rule stored_event_found) (simp_all add: Store_New_def Let_def)
  then show ?thesis by simp
qed

lemma pages_cover_matches_witness:
  "walk_pages 4 (fold AddEvent three_events (Store_New 3)) zero_query [] 1
     = filter (page_keep zero_query) (newest (fold AddEvent three_events (Store_New 3)))
   \<and> length (ep_Events (Store_EventsPage (fold AddEvent three_events (Store_New 3)) zero_query [] 1)) \<le> 200"
proof (rule pages_cover_matches)
  show "distinct (map ev_EventID (newest (fold AddEvent three_events (Store_New 3))))" by code_simp
  show "length (filter (page_keep zero_query) (newest (fold AddEvent three_events (Store_New 3)))) < 4" by code_simp
qed

text \<open>
  \<open>RecentEvents\<close> answers a query with the newest matching events: the first \<open>limit\<close>
  (100 when none is given) of the retained events that carry an id and pass every filter of
  the query, newest first.
\<close>

theorem recent_events_are_newest_matches:
  "RecentEvents (fold AddEvent evs (Store_New n)) q limit =
     take (if limit \<le> 0 then 100 else nat limit)
       (filter (\<lambda>ev. ev_EventID ev \<noteq> []
            \<and> (q_Module q = [] \<or> ev_Module ev = q_Module q)
            \<and> (q_TenantID q = [] \<or> ev_TenantID ev = q_TenantID q)
            \<and> (q_UserID q = [] \<or> ev_UserID ev = q_UserID q)
            \<and> (q_Severity q = [] \<or> ev_Severity ev = q_Severity q)
            \<and> (q_Status q = [] \<or> ev_Status ev = q_Status q)
            \<and> (q_TraceID q = [] \<or> ev_TraceID ev = q_TraceID q)
            \<and> (q_Since q = 0 \<or> q_Since q \<le> ev_Timestamp ev)
            \<and> (q_Until q = 0 \<or> ev_Timestamp ev \<le> q_Until q))
         (take (if n \<le> 0 then 10000 else nat n) (rev evs)))"
  unfolding RecentEvents_eq matchEvent_iff newest_fold default_limit_def if_distrib [of nat] nat_numeral
  by (rule refl)

end
