(* ===== verification/Traces.thy ===== *)
theory Traces
  imports Store
begin

text \<open>
  The traces and the chunk lineage of internal/store/memory.go (\<open>UpsertTrace\<close>,
  \<open>GetTrace\<close>, \<open>RecentTraces\<close>, \<open>AddChunkLineage\<close>, \<open>GetLineageSources\<close>) and the
  timeline that \<open>GetTraceTimeline\<close> (internal/api/rest/handlers.go) computes from a trace.
  \<open>trace_spec\<close> states what a trace promises: it is determined by the list of the
  events that carry its id, in arrival order.
\<close>

subsection \<open>UpsertTrace\<close>

definition new_trace :: "BastionEvent \<Rightarrow> Trace" where
  "new_trace ev = \<lparr>tr_TraceID = ev_TraceID ev, tr_RequestID = ev_RequestID ev,
     tr_TenantID = ev_TenantID ev, tr_UserID = ev_UserID ev, tr_PipelineType = ev_PipelineType ev,
     tr_ModulesUsed = ev_ModulesUsed ev, tr_ModulesSkipped = ev_ModulesSkipped ev,
     tr_StartTime = ev_Timestamp ev, tr_EndTime = None, tr_TotalMs = 0,
     tr_Status = ''in_progress'', tr_Spans = []\<rparr>"

definition span_of :: "BastionEvent \<Rightarrow> Span" where
  "span_of ev = \<lparr>sp_SpanID = ev_SpanID ev, sp_Module = ev_Module ev, sp_EventType = ev_EventType ev,
     sp_StartTime = ev_Timestamp ev, sp_DurationMs = ev_DurationMs ev, sp_Status = ev_Status ev,
     sp_Data = ev_Data ev\<rparr>"

definition set_pipeline :: "BastionEvent \<Rightarrow> Trace \<Rightarrow> Trace" where
  "set_pipeline ev tr =
     (if tr_PipelineType tr = []
      then tr\<lparr>tr_PipelineType := ev_PipelineType ev, tr_ModulesUsed := ev_ModulesUsed ev,
              tr_ModulesSkipped := ev_ModulesSkipped ev\<rparr>
      else tr)"

definition set_status :: "BastionEvent \<Rightarrow> Trace \<Rightarrow> Trace" where
  "set_status ev tr =
     (if ev_Status ev = ''blocked'' \<or> ev_Status ev = ''error'' then tr\<lparr>tr_Status := ev_Status ev\<rparr>
      else if ev_Module ev = ''llm'' \<or> ev_Module ev = ''anchor'' then tr\<lparr>tr_Status := ''completed''\<rparr>
      else tr)"

definition set_end :: "BastionEvent \<Rightarrow> Trace \<Rightarrow> Trace" where
  "set_end ev tr =
     (if tr_Status tr = ''completed'' \<or> tr_Status tr = ''blocked'' \<or> tr_Status tr = ''error''
      then tr\<lparr>tr_EndTime := Some (ev_Timestamp ev),
              tr_TotalMs := Milliseconds (time_Sub (ev_Timestamp ev) (tr_StartTime tr))\<rparr>
      else tr)"

definition extend_trace :: "BastionEvent \<Rightarrow> Trace \<Rightarrow> Trace" where
  "extend_trace ev tr =
     (let tr1 = set_pipeline ev tr;
          tr2 = tr1\<lparr>tr_Spans := tr_Spans tr1 @ [span_of ev]\<rparr>
      in set_end ev (set_status ev tr2))"

definition UpsertTrace :: "BastionEvent \<Rightarrow> Store \<Rightarrow> Store" where
  "UpsertTrace ev s =
     (if ev_TraceID ev = [] then s
      else let tr = (case mget (st_traces s) (ev_TraceID ev) of None \<Rightarrow> new_trace ev | Some tr \<Rightarrow> tr)
           in s\<lparr>st_traces := mput (ev_TraceID ev) (extend_trace ev tr) (st_traces s)\<rparr>)"

definition GetTrace :: "Store \<Rightarrow> string \<Rightarrow> Trace option" where
  "GetTrace s traceID = mget (st_traces s) traceID"

lemmas extend_defs = extend_trace_def set_pipeline_def set_status_def set_end_def Let_def

lemma extend_trace_spans [simp]: "tr_Spans (extend_trace ev tr) = tr_Spans tr @ [span_of ev]"
  by (simp add: extend_defs)

lemma extend_trace_id [simp]:
  "tr_TraceID (extend_trace ev tr) = tr_TraceID tr"
  "tr_TenantID (extend_trace ev tr) = tr_TenantID tr"
  "tr_UserID (extend_trace ev tr) = tr_UserID tr"
  "tr_RequestID (extend_trace ev tr) = tr_RequestID tr"
  "tr_StartTime (extend_trace ev tr) = tr_StartTime tr"
  by (simp_all add: extend_defs)

subsection \<open>What a trace promises\<close>

definition decisive :: "BastionEvent \<Rightarrow> bool" where
  "decisive ev \<longleftrightarrow> ev_Status ev = ''blocked'' \<or> ev_Status ev = ''error''
                  \<or> ev_Module ev = ''llm'' \<or> ev_Module ev = ''anchor''"

definition verdict :: "BastionEvent \<Rightarrow> string" where
  "verdict ev = (if ev_Status ev = ''blocked'' \<or> ev_Status ev = ''error'' then ev_Status ev else ''completed'')"

definition status_spec :: "BastionEvent list \<Rightarrow> string" where
  "status_spec evs = (if filter decisive evs = [] then ''in_progress''
                      else verdict (last (filter decisive evs)))"

definition trace_spec :: "BastionEvent list \<Rightarrow> Trace \<Rightarrow> bool" where
  "trace_spec evs tr \<longleftrightarrow> evs \<noteq> []
     \<and> tr_TraceID tr = ev_TraceID (hd evs) \<and> tr_RequestID tr = ev_RequestID (hd evs)
     \<and> tr_TenantID tr = ev_TenantID (hd evs) \<and> tr_UserID tr = ev_UserID (hd evs)
     \<and> tr_StartTime tr = ev_Timestamp (hd evs)
     \<and> tr_Spans tr = map span_of evs
     \<and> tr_Status tr = status_spec evs
     \<and> (if \<exists>ev \<in> set evs. decisive ev
        then tr_EndTime tr = Some (ev_Timestamp (last evs))
           \<and> tr_TotalMs tr = Milliseconds (time_Sub (ev_Timestamp (last evs)) (ev_Timestamp (hd evs)))
        else tr_EndTime tr = None \<and> tr_TotalMs tr = 0)"

lemma status_spec_snoc:
  "status_spec (evs @ [ev]) = (if decisive ev then verdict ev else status_spec evs)"
  by (simp add: status_spec_def)

lemma status_spec_cases: "status_spec evs \<in> {''in_progress'', ''completed'', ''blocked'', ''error''}"
  by (auto simp: status_spec_def verdict_def)

lemma status_spec_ended:
  "status_spec evs \<in> {''completed'', ''blocked'', ''error''} \<longleftrightarrow> (\<exists>ev \<in> set evs. decisive ev)"
proof (cases "filter decisive evs = []")
  case True
  then show ?thesis by (auto simp: status_spec_def filter_empty_conv)
next
  case False
  then have "\<exists>ev \<in> set evs. decisive ev" by (simp add: filter_empty_conv)
  moreover have "status_spec evs = verdict (last (filter decisive evs))"
    using False by (simp add: status_spec_def)
  ultimately show ?thesis by (simp add: verdict_def)
qed

lemma set_status_eq: "tr_Status (set_status ev tr) = (if decisive ev then verdict ev else tr_Status tr)"
  by (auto simp: set_status_def decisive_def verdict_def)

lemma extend_trace_status:
  "tr_Status (extend_trace ev tr) = (if decisive ev then verdict ev else tr_Status tr)"
  by (simp add: extend_trace_def set_end_def Let_def set_status_eq set_pipeline_def)

lemma extend_trace_end:
  "tr_EndTime (extend_trace ev tr) =
     (if tr_Status (extend_trace ev tr) \<in> {''completed'', ''blocked'', ''error''}
      then Some (ev_Timestamp ev) else tr_EndTime tr)"
  "tr_TotalMs (extend_trace ev tr) =
     (if tr_Status (extend_trace ev tr) \<in> {''completed'', ''blocked'', ''error''}
      then Milliseconds (time_Sub (ev_Timestamp ev) (tr_StartTime tr)) else tr_TotalMs tr)"
  by (auto simp: extend_defs)

lemma trace_spec_new: "trace_spec [ev] (extend_trace ev (new_trace ev))"
  using status_spec_ended [of "[ev]"] status_spec_snoc [of "[]" ev]
  by (auto simp: trace_spec_def extend_trace_status extend_trace_end new_trace_def status_spec_def)

lemma trace_spec_extend:
  assumes "trace_spec evs tr"
  shows "trace_spec (evs @ [ev]) (extend_trace ev tr)"
proof -
  have st: "tr_Status (extend_trace ev tr) = status_spec (evs @ [ev])"
    using assms by (simp add: extend_trace_status status_spec_snoc trace_spec_def)
  show ?thesis
    using assms status_spec_ended [of "evs @ [ev]"]
    unfolding trace_spec_def extend_trace_end st by (auto split: if_splits)
qed

text \<open>Every trace of the store after any sequence of events.\<close>

lemma UpsertTrace_get:
  "mget (st_traces (UpsertTrace ev s)) t =
     (if ev_TraceID ev = t \<and> t \<noteq> []
      then Some (extend_trace ev (case mget (st_traces s) t of None \<Rightarrow> new_trace ev | Some tr \<Rightarrow> tr))
      else mget (st_traces s) t)"
  by (auto simp: UpsertTrace_def Let_def)

lemma UpsertTrace_ok: "map_ok (st_traces s) \<Longrightarrow> map_ok (st_traces (UpsertTrace ev s))"
  by (simp add: UpsertTrace_def Let_def)

lemma traces_fold:
  assumes "st_traces s = []" and "t \<noteq> []"
  shows "case mget (st_traces (fold UpsertTrace evs s)) t of
           None \<Rightarrow> filter (\<lambda>ev. ev_TraceID ev = t) evs = []
         | Some tr \<Rightarrow> trace_spec (filter (\<lambda>ev. ev_TraceID ev = t) evs) tr"
proof (induction evs rule: rev_induct)
  case Nil
  then show ?case by (simp add: assms)
next
  case (snoc ev evs)
  then show ?case
    using assms(2) by (auto simp: UpsertTrace_get trace_spec_new trace_spec_extend split: option.splits)
qed

subsection \<open>RecentTraces\<close>

definition matchTrace :: "Trace \<Rightarrow> QueryRequest \<Rightarrow> bool" where
  "matchTrace tr q =
     (if q_TraceID q \<noteq> [] \<and> tr_TraceID tr \<noteq> q_TraceID q then False
      else if q_UserID q \<noteq> [] \<and> tr_UserID tr \<noteq> q_UserID q then False
      else if q_TenantID q \<noteq> [] \<and> tr_TenantID tr \<noteq> q_TenantID q then False
      else if q_Status q \<noteq> [] \<and> tr_Status tr \<noteq> q_Status q then False
      else if \<not> time_IsZero (q_Since q) \<and> time_Before (tr_StartTime tr) (q_Since q) then False
      else True)"

definition newer_trace :: "Trace \<Rightarrow> Trace \<Rightarrow> bool" where
  "newer_trace a b \<longleftrightarrow> time_After (tr_StartTime a) (tr_StartTime b)"

definition RecentTraces ::
    "((string, Trace) gomap \<Rightarrow> (string, Trace) gomap) \<Rightarrow> Store \<Rightarrow> QueryRequest \<Rightarrow> int \<Rightarrow> Trace list" where
  "RecentTraces ord s q limit0 =
     (let limit = default_limit 50 limit0;
          out = filter (\<lambda>tr. matchTrace tr q) (map snd (ord (st_traces s)));
          out' = exchange_sort newer_trace out
      in if length out' > limit then take limit out' else out')"

interpretation newer_trace: strict_weak_order newer_trace
  using strict_weak_order_greater [of tr_StartTime] by (simp add: newer_trace_def [abs_def] go_simps)

definition matching_traces :: "Store \<Rightarrow> QueryRequest \<Rightarrow> Trace multiset" where
  "matching_traces s q = filter_mset (\<lambda>tr. matchTrace tr q) (image_mset snd (mset (st_traces s)))"

lemma RecentTraces_take:
  "RecentTraces ord s q limit =
     take (default_limit 50 limit)
       (exchange_sort newer_trace (filter (\<lambda>tr. matchTrace tr q) (map snd (ord (st_traces s)))))"
  by (simp add: RecentTraces_def Let_def)

subsection \<open>Chunk lineage\<close>

definition AddChunkLineage :: "string \<Rightarrow> ChunkLineageEntry \<Rightarrow> Store \<Rightarrow> Store" where
  "AddChunkLineage traceID entry s =
     (if traceID = [] then s
      else s\<lparr>st_lineage := mput traceID (mget0 [] (st_lineage s) traceID @ [entry]) (st_lineage s)\<rparr>)"

definition lower_rank :: "ChunkLineageEntry \<Rightarrow> ChunkLineageEntry \<Rightarrow> bool" where
  "lower_rank a b \<longleftrightarrow> cl_Rank a < cl_Rank b"

definition GetLineageSources :: "Store \<Rightarrow> string \<Rightarrow> ChunkLineageEntry list option" where
  "GetLineageSources s traceID =
     (case mget (st_lineage s) traceID of
        None \<Rightarrow> None
      | Some entries \<Rightarrow> if length entries = 0 then None else Some (exchange_sort lower_rank entries))"

interpretation lower_rank: strict_weak_order lower_rank
  using strict_weak_order_less [of cl_Rank] by (simp add: lower_rank_def [abs_def])

lemma lineage_fold:
  assumes "t \<noteq> []"
  shows "mget0 [] (st_lineage (fold (\<lambda>(t, e). AddChunkLineage t e) ps s)) t
       = mget0 [] (st_lineage s) t @ map snd (filter (\<lambda>p. fst p = t) ps)"
  using assms by (induction ps arbitrary: s) (auto simp: AddChunkLineage_def)

lemma GetLineageSources_eq:
  "GetLineageSources s t =
     (if mget0 [] (st_lineage s) t = [] then None
      else Some (exchange_sort lower_rank (mget0 [] (st_lineage s) t)))"
  by (auto simp: GetLineageSources_def mget0_def split: option.split)

subsection \<open>The timeline of a trace\<close>

definition timeline_entry :: "Trace \<Rightarrow> Span \<Rightarrow> TimelineEntry" where
  "timeline_entry tr sp =
     (let offset = Milliseconds (time_Sub (sp_StartTime sp) (tr_StartTime tr))
      in \<lparr>te_SpanID = sp_SpanID sp, te_Module = sp_Module sp, te_EventType = sp_EventType sp,
          te_OffsetMs = (if offset < 0 then 0 else offset), te_DurationMs = sp_DurationMs sp,
          te_Status = sp_Status sp\<rparr>)"

fun timeline_loop :: "Trace \<Rightarrow> TimelineEntry list \<Rightarrow> int \<Rightarrow> Span list \<Rightarrow> TimelineEntry list \<times> int" where
  "timeline_loop tr entries maxMs [] = (entries, maxMs)"
| "timeline_loop tr entries maxMs (sp # sps) =
     timeline_loop tr (entries @ [timeline_entry tr sp])
       (if sp_DurationMs sp > maxMs then sp_DurationMs sp else maxMs) sps"

definition GetTraceTimeline :: "Store \<Rightarrow> string \<Rightarrow> TraceTimeline option" where
  "GetTraceTimeline s traceID =
     (case GetTrace s traceID of
        None \<Rightarrow> None
      | Some tr \<Rightarrow>
          (let (entries, maxMs) = timeline_loop tr [] 0 (tr_Spans tr)
           in Some \<lparr>tt_TraceID = tr_TraceID tr, tt_PipelineType = tr_PipelineType tr,
                    tt_TotalMs = tr_TotalMs tr, tt_MaxMs = maxMs, tt_Entries = entries\<rparr>))"

lemma timeline_loop_eq:
  "timeline_loop tr es m sps = (es @ map (timeline_entry tr) sps, Max (set (m # map sp_DurationMs sps)))"
proof -
  have "timeline_loop tr es m sps = (es @ map (timeline_entry tr) sps, fold max (map sp_DurationMs sps) m)"
  proof (induction sps arbitrary: es m)
    case (Cons sp sps)
    have "(if sp_DurationMs sp > m then sp_DurationMs sp else m) = max (sp_DurationMs sp) m" by simp
    then show ?case using Cons.IH by simp
  qed simp
  then show ?thesis by (simp only: Max.set_eq_fold)
qed

subsection \<open>Properties\<close>

text \<open>
  C14: a trace is determined by the events that carry its id. After any sequence of
  \<open>UpsertTrace\<close>, a trace exists exactly when some event with that (non-empty) id arrived;
  its spans are those events in arrival order, its identity and start time come from the
  first, its status from the last decisive one (blocked, error, or from the llm or anchor
  module), and once decided its end time and total follow the last event of all.
\<close>

theorem trace_follows_its_events:
  "case GetTrace (fold UpsertTrace evs (Store_New n)) t of
     None \<Rightarrow> filter (\<lambda>ev. ev_TraceID ev = t \<and> t \<noteq> []) evs = []
   | Some tr \<Rightarrow> t \<noteq> [] \<and> trace_spec (filter (\<lambda>ev. ev_TraceID ev = t) evs) tr
       \<and> tr_Status tr \<in> {''in_progress'', ''completed'', ''blocked'', ''error''}"
proof (cases "t = []")
  case True
  have "mget (st_traces (fold UpsertTrace evs s)) [] = mget (st_traces s) []" for s
    by (induction evs arbitrary: s) (simp_all add: UpsertTrace_get)
  then show ?thesis using True by (simp add: GetTrace_def Store_New_def Let_def)
next
  case False
  have "st_traces (Store_New n) = []" by (simp add: Store_New_def Let_def)
  note spec = traces_fold [OF this False, of evs]
  show ?thesis
  proof (cases "mget (st_traces (fold UpsertTrace evs (Store_New n))) t")
    case None
    then show ?thesis using spec False by (simp add: GetTrace_def)
  next
    case (Some tr)
    then have tr: "trace_spec (filter (\<lambda>ev. ev_TraceID ev = t) evs) tr" using spec by simp
    then have "tr_Status tr = status_spec (filter (\<lambda>ev. ev_TraceID ev = t) evs)"
      by (simp add: trace_spec_def)
    then show ?thesis using Some tr False status_spec_cases by (simp add: GetTrace_def del: insert_iff)
  qed
qed

text \<open>
  \<open>RecentTraces\<close> returns the newest matching traces, whatever order the map is
  iterated in: at most \<open>limit\<close> (50 when none is given) of the matching traces, by
  decreasing start time, and no trace left out started later than one returned.
\<close>

theorem recent_traces_newest_first:
  assumes "range_order ord"
  shows "sorted_wrt (\<lambda>a b. tr_StartTime b \<le> tr_StartTime a) (RecentTraces ord s q limit)
    \<and> length (RecentTraces ord s q limit)
        = min (if limit \<le> 0 then 50 else nat limit) (size (matching_traces s q))
    \<and> mset (RecentTraces ord s q limit) \<subseteq># matching_traces s q
    \<and> Ball (set (RecentTraces ord s q limit)) (\<lambda>a. Ball (set_mset (matching_traces s q - mset (RecentTraces ord s q limit)))
          (\<lambda>b. tr_StartTime b \<le> tr_StartTime a))"
proof -
  let ?F = "filter (\<lambda>tr. matchTrace tr q) (map snd (ord (st_traces s)))"
  let ?S = "exchange_sort newer_trace ?F" and ?n = "default_limit 50 limit"
  have R: "RecentTraces ord s q limit = take ?n ?S" by (rule RecentTraces_take)
  have M: "matching_traces s q = mset ?S"
    using range_order_mset [OF assms, of "st_traces s"]
    by (simp add: matching_traces_def mset_filter)
  have split: "mset ?S = mset (take ?n ?S) + mset (drop ?n ?S)"
    by (metis append_take_drop_id mset_append)
  have sorted: "sorted_wrt (\<lambda>a b. tr_StartTime b \<le> tr_StartTime a) ?S"
    using newer_trace.exchange_sort_sorted [of ?F] by (simp add: newer_trace_def go_simps not_less)
  have rest: "tr_StartTime b \<le> tr_StartTime a"
    if "a \<in> set (take ?n ?S)" "b \<in> set (drop ?n ?S)" for a b
    using newer_trace.exchange_sort_take [OF that] by (simp add: newer_trace_def go_simps not_less)
  have len: "length ?S = size (matching_traces s q)" unfolding M by (rule size_mset [symmetric])
  have left: "matching_traces s q - mset (take ?n ?S) = mset (drop ?n ?S)"
    unfolding M split by simp
  have n: "?n = (if limit \<le> 0 then 50 else nat limit)"
    by (simp add: default_limit_def)
  have "mset (take ?n ?S) \<subseteq># matching_traces s q" unfolding M split by simp
  then show ?thesis
    unfolding R left set_mset_mset length_take len n [symmetric] min.commute [of ?n]
    using sorted_wrt_take [OF sorted] rest by blast
qed

lemma recent_traces_newest_first_witness:
  "let s = fold UpsertTrace [zero_event\<lparr>ev_TraceID := ''t1'', ev_Timestamp := 5\<rparr>,
                             zero_event\<lparr>ev_TraceID := ''t2'', ev_Timestamp := 9\<rparr>] (Store_New 4)
   in sorted_wrt (\<lambda>a b. tr_StartTime b \<le> tr_StartTime a) (RecentTraces rev s zero_query 1)
    \<and> length (RecentTraces rev s zero_query 1) = 1"
proof -
  let ?s = "fold UpsertTrace [zero_event\<lparr>ev_TraceID := ''t1'', ev_Timestamp := 5\<rparr>,
                             zero_event\<lparr>ev_TraceID := ''t2'', ev_Timestamp := 9\<rparr>] (Store_New 4)"
  have "length (RecentTraces rev ?s zero_query 1) = 1" by code_simp
  then show ?thesis using recent_traces_newest_first [OF range_order_rev, of ?s zero_query 1]
    unfolding Let_def by blast
qed

text \<open>
  The sources of an answer come back in retrieval order. \<open>GetLineageSources\<close> is
  empty exactly when no chunk was recorded for the (non-empty) trace; otherwise it returns
  every recorded chunk once, by increasing rank.
\<close>

theorem lineage_sorted_by_rank:
  "case GetLineageSources (fold (\<lambda>(t, e). AddChunkLineage t e) ps (Store_New n)) t of
     None \<Rightarrow> filter (\<lambda>p. fst p = t \<and> t \<noteq> []) ps = []
   | Some es \<Rightarrow> t \<noteq> [] \<and> es \<noteq> [] \<and> sorted (map cl_Rank es)
       \<and> mset es = image_mset snd (filter_mset (\<lambda>p. fst p = t) (mset ps))"
proof -
  let ?s = "fold (\<lambda>(t, e). AddChunkLineage t e) ps (Store_New n)"
  have new: "mget0 [] (st_lineage (Store_New n)) u = []" for u
    by (simp add: Store_New_def Let_def mget0_def)
  have empty: "mget0 [] (st_lineage (fold (\<lambda>(t, e). AddChunkLineage t e) ps s)) [] = mget0 [] (st_lineage s) []" for s
    by (induction ps arbitrary: s) (auto simp: AddChunkLineage_def)
  show ?thesis
  proof (cases "t = []")
    case True
    then show ?thesis by (simp add: GetLineageSources_eq empty new)
  next
    case False
    have es: "mget0 [] (st_lineage ?s) t = map snd (filter (\<lambda>p. fst p = t) ps)"
      using lineage_fold [OF False, of ps "Store_New n"] new by simp
    have "sorted (map cl_Rank (exchange_sort lower_rank xs))" for xs
      using lower_rank.exchange_sort_sorted [of xs] by (simp add: lower_rank_def not_less sorted_wrt_map)
    moreover have "exchange_sort lower_rank xs \<noteq> []" if "xs \<noteq> []" for xs
      using that by (metis mset_exchange_sort mset_zero_iff)
    ultimately show ?thesis using False
      by (auto simp: GetLineageSources_eq es mset_exchange_sort mset_filter)
  qed
qed

text \<open>
  The timeline of a trace has one entry per span, in the order of the spans; no entry
  starts before the trace (earlier spans are clamped to offset 0), and \<open>MaxMs\<close> is the
  longest span's duration, never below 0.
\<close>

theorem timeline_of_trace:
  "GetTraceTimeline s t = map_option (\<lambda>tr.
     \<lparr>tt_TraceID = tr_TraceID tr, tt_PipelineType = tr_PipelineType tr, tt_TotalMs = tr_TotalMs tr,
      tt_MaxMs = Max (insert 0 (sp_DurationMs ` set (tr_Spans tr))),
      tt_Entries = map (\<lambda>sp. \<lparr>te_SpanID = sp_SpanID sp, te_Module = sp_Module sp,
         te_EventType = sp_EventType sp,
         te_OffsetMs = max 0 (Milliseconds (time_Sub (sp_StartTime sp) (tr_StartTime tr))),
         te_DurationMs = sp_DurationMs sp, te_Status = sp_Status sp\<rparr>) (tr_Spans tr)\<rparr>) (GetTrace s t)"
  by (auto simp: GetTraceTimeline_def timeline_loop_eq timeline_entry_def Let_def max_def split: option.split)

end
