(* ===== verification/Stats.thy ===== *)
theory Stats
  imports Store
begin

text \<open>
  The statistics of internal/store/memory.go: \<open>Topology\<close>, \<open>PipelineStats\<close>,
  \<open>DashboardSummary\<close>, \<open>PipelineHealth\<close> and \<open>TenantActivity\<close>. Each walks the ring
  newest first; the lemmas say which events each figure counts. \<open>now\<close> is the reading of
  the clock the operation takes (\<open>now'\<close> its second one). Rates are exact rationals.
\<close>

definition stored :: "BastionEvent \<Rightarrow> bool" where
  "stored ev \<longleftrightarrow> ev_EventID ev \<noteq> []"

text \<open>\<open>len(ev.EventType) >= 12 && ev.EventType[:12] == "honey_token_"\<close>\<close>

definition is_honey_type :: "string \<Rightarrow> bool" where
  "is_honey_type et \<longleftrightarrow> length et \<ge> 12 \<and> take 12 et = ''honey_token_''"

lemma is_honey_type_prefix: "is_honey_type et \<longleftrightarrow> HasPrefix et ''honey_token_''"
proof -
  have p: "length ''honey_token_'' = 12" by simp
  have "length et \<ge> 12" if "take 12 et = ''honey_token_''"
    using arg_cong [OF that, of length] unfolding p by simp
  then show ?thesis unfolding is_honey_type_def prefix_iff_take p by blast
qed

text \<open>Counting in a Go map: \<open>m[k]++\<close> as the fold that every figure below is made of.\<close>

definition incr :: "string \<Rightarrow> (string, int) gomap \<Rightarrow> (string, int) gomap" where
  "incr k m = mput k (mget0 0 m k + 1) m"

lemma mget0_incrs:
  "mget0 0 (fold incr ks m) k = mget0 0 m k + int (count_list ks k)"
  by (induction ks arbitrary: m) (auto simp: incr_def)

lemma dom_incrs: "mget (fold incr ks m) k \<noteq> None \<longleftrightarrow> k \<in> set ks \<or> mget m k \<noteq> None"
  by (induction ks arbitrary: m) (auto simp: incr_def)

lemma map_ok_incrs: "map_ok m \<Longrightarrow> map_ok (fold incr ks m)"
  by (induction ks arbitrary: m) (auto simp: incr_def)

lemma incrs_entry:
  assumes "(k, v) \<in> set (fold incr ks [])"
  shows "v = int (count_list ks k)"
proof -
  have "map_ok (fold incr ks [])" by (rule map_ok_incrs) simp
  with assms have "mget (fold incr ks []) k = Some v" by (rule set_gomap [THEN iffD1, rotated])
  then show ?thesis using mget0_incrs [of ks "[]" k] by (simp add: mget0_def)
qed

subsection \<open>Topology\<close>

record modstat =
  ms_count :: nat
  ms_errors :: nat
  ms_totalMs :: int
  ms_lastSeen :: "gotime option"

definition zero_stat :: modstat where
  "zero_stat = \<lparr>ms_count = 0, ms_errors = 0, ms_totalMs = 0, ms_lastSeen = None\<rparr>"

definition stat_add :: "BastionEvent \<Rightarrow> modstat \<Rightarrow> modstat" where
  "stat_add ev st =
     \<lparr>ms_count = ms_count st + 1,
      ms_errors = (if ev_Status ev = ''error'' then ms_errors st + 1 else ms_errors st),
      ms_totalMs = wrap64 (ms_totalMs st + ev_DurationMs ev),
      ms_lastSeen = (case ms_lastSeen st of
          None \<Rightarrow> Some (ev_Timestamp ev)
        | Some t \<Rightarrow> if time_After (ev_Timestamp ev) t then Some (ev_Timestamp ev) else Some t)\<rparr>"

definition topology_step :: "gotime \<Rightarrow> BastionEvent \<Rightarrow> (string, modstat) gomap \<Rightarrow> (string, modstat) gomap" where
  "topology_step cutoff ev stats =
     (if ev_EventID ev = [] \<or> time_Before (ev_Timestamp ev) cutoff then stats
      else mput (ev_Module ev) (stat_add ev (mget0 zero_stat stats (ev_Module ev))) stats)"

definition module_health :: "string \<Rightarrow> modstat \<Rightarrow> ModuleHealth" where
  "module_health m st =
     (let mh = \<lparr>mh_Module = m, mh_Status = ''unknown'', mh_LatencyMs = 0, mh_ErrorRate = 0,
                mh_Throughput = 0, mh_LastEventAt = ms_lastSeen st\<rparr>
      in if ms_count st > 0
         then let latency = of_int (ms_totalMs st) / of_nat (ms_count st);
                  rate = of_nat (ms_errors st) / of_nat (ms_count st);
                  status = (if rate > 3 / 10 then ''down''
                            else if rate > 1 / 10 \<or> latency > 500 then ''degraded''
                            else ''healthy'')
              in mh\<lparr>mh_LatencyMs := latency, mh_ErrorRate := rate,
                    mh_Throughput := of_nat (ms_count st) / 300, mh_Status := status\<rparr>
         else mh)"

definition topology_modules :: "string list" where
  "topology_modules = [''sentinel'', ''vault'', ''navigator'', ''anchor'']"

definition Topology :: "gotime \<Rightarrow> gotime \<Rightarrow> Store \<Rightarrow> TopologySnapshot" where
  "Topology now now' s =
     (let cutoff = time_Add now (- (5 * Minute));
          stats = fold (topology_step cutoff) (newest s) []
      in \<lparr>ts_UpdatedAt = now',
          ts_Modules = map (\<lambda>m. module_health m (mget0 zero_stat stats m)) topology_modules\<rparr>)"

definition PipelineHealth :: "gotime \<Rightarrow> gotime \<Rightarrow> Store \<Rightarrow> PipelineHealthResponse" where
  "PipelineHealth now now' s =
     (let snap = Topology now now' s
      in \<lparr>phr_Modules = map (\<lambda>m. \<lparr>ph_Module = mh_Module m, ph_Status = mh_Status m,
              ph_AvgLatencyMs = mh_LatencyMs m, ph_ErrorRate = mh_ErrorRate m,
              ph_EventsPerMin = mh_Throughput m * 60, ph_LastEventAt = mh_LastEventAt m\<rparr>)
            (ts_Modules snap),
          phr_UpdatedAt = ts_UpdatedAt snap\<rparr>)"

text \<open>The events a module's health is computed from.\<close>

definition window_events :: "gotime \<Rightarrow> string \<Rightarrow> BastionEvent list \<Rightarrow> BastionEvent list" where
  "window_events cutoff m evs =
     filter (\<lambda>ev. stored ev \<and> cutoff \<le> ev_Timestamp ev \<and> ev_Module ev = m) evs"

lemma topology_fold:
  "mget0 zero_stat (fold (topology_step cutoff) evs stats) m
     = fold stat_add (window_events cutoff m evs) (mget0 zero_stat stats m)"
  by (induction evs arbitrary: stats)
    (auto simp: topology_step_def window_events_def stored_def go_simps)

lemma stat_fold_counts:
  "ms_count (fold stat_add evs st) = ms_count st + length evs"
  "ms_errors (fold stat_add evs st)
     = ms_errors st + length (filter (\<lambda>ev. ev_Status ev = ''error'') evs)"
  by (induction evs arbitrary: st) (simp_all add: stat_add_def)

lemma stat_fold_total:
  "wrap64 (ms_totalMs st) = ms_totalMs st \<Longrightarrow>
     ms_totalMs (fold stat_add evs st) = wrap64 (ms_totalMs st + sum_list (map ev_DurationMs evs))"
proof (induction evs arbitrary: st)
  case (Cons ev evs)
  have "ms_totalMs (stat_add ev st) = wrap64 (ms_totalMs st + ev_DurationMs ev)"
    by (simp add: stat_add_def)
  then show ?case using Cons.IH [of "stat_add ev st"] by (simp add: wrap64_add_left add.assoc)
qed simp

lemma stat_fold_last:
  "ms_lastSeen (fold stat_add evs st) =
     (case ms_lastSeen st of
        None \<Rightarrow> if evs = [] then None else Some (Max (ev_Timestamp ` set evs))
      | Some t \<Rightarrow> Some (Max (insert t (ev_Timestamp ` set evs))))"
proof (induction evs arbitrary: st)
  case Nil
  then show ?case by (simp split: option.split)
next
  case (Cons ev evs)
  have *: "Max (insert a (insert b A)) = Max (insert (max a b) A)" if "finite A" for a b :: int and A
    using that by (cases "A = {}") (simp_all add: max.assoc)
  show ?case
  proof (cases "ms_lastSeen st")
    case None
    then have "ms_lastSeen (stat_add ev st) = Some (ev_Timestamp ev)" by (simp add: stat_add_def)
    then show ?thesis using None Cons.IH [of "stat_add ev st"] by simp
  next
    case (Some t)
    then have "ms_lastSeen (stat_add ev st) = Some (max t (ev_Timestamp ev))"
      by (simp add: stat_add_def go_simps)
    then show ?thesis using Some Cons.IH [of "stat_add ev st"] by (simp add: * del: Max_insert)
  qed
qed

subsection \<open>Pipeline statistics\<close>

definition pipeline_step :: "gotime \<Rightarrow> BastionEvent \<Rightarrow> (string, int) gomap \<times> int \<Rightarrow> (string, int) gomap \<times> int" where
  "pipeline_step since ev = (\<lambda>(breakdown, total).
     if ev_EventID ev = [] \<or> time_Before (ev_Timestamp ev) since then (breakdown, total)
     else if ev_PipelineType ev \<noteq> [] \<and> ev_Module ev = ''sentinel''
       then (incr (ev_PipelineType ev) breakdown, total + 1)
     else (breakdown, total))"

definition Store_PipelineStats :: "gotime \<Rightarrow> gotime \<Rightarrow> Store \<Rightarrow> PipelineStats" where
  "Store_PipelineStats now now' s =
     (let since = time_Add now (- Hour);
          (breakdown, total) = fold (pipeline_step since) (newest s) ([], 0)
      in \<lparr>ps_PeriodStart = since, ps_PeriodEnd = now', ps_TotalRequests = total,
          ps_Breakdown = breakdown\<rparr>)"

definition pipeline_requests :: "gotime \<Rightarrow> BastionEvent list \<Rightarrow> string list" where
  "pipeline_requests since evs =
     map ev_PipelineType (filter (\<lambda>ev. stored ev \<and> since \<le> ev_Timestamp ev
       \<and> ev_PipelineType ev \<noteq> [] \<and> ev_Module ev = ''sentinel'') evs)"

lemma pipeline_fold:
  "fold (pipeline_step since) evs (b, n)
     = (fold incr (pipeline_requests since evs) b, n + int (length (pipeline_requests since evs)))"
  by (induction evs arbitrary: b n)
    (auto simp: pipeline_step_def pipeline_requests_def stored_def go_simps)

subsection \<open>The dashboard summary\<close>

record dashboard =
  db_count1h :: int
  db_count24h :: int
  db_blocked1h :: int
  db_moduleCounts :: "(string, int) gomap"
  db_honeyTriggers :: nat

definition dashboard_add :: "gotime \<Rightarrow> BastionEvent \<Rightarrow> dashboard \<Rightarrow> dashboard" where
  "dashboard_add cutoff1h ev d =
     (let recent = time_After (ev_Timestamp ev) cutoff1h
      in \<lparr>db_count1h = (if recent then db_count1h d + 1 else db_count1h d),
          db_count24h = db_count24h d + 1,
          db_blocked1h = (if recent \<and> ev_Status ev = ''blocked'' then db_blocked1h d + 1
                          else db_blocked1h d),
          db_moduleCounts = incr (ev_Module ev) (db_moduleCounts d),
          db_honeyTriggers = (if is_honey_type (ev_EventType ev) then db_honeyTriggers d + 1
                              else db_honeyTriggers d)\<rparr>)"

text \<open>The loop leaves the ring at the first event older than 24 hours (\<open>break\<close>).\<close>

fun dashboard_loop :: "gotime \<Rightarrow> gotime \<Rightarrow> dashboard \<Rightarrow> BastionEvent list \<Rightarrow> dashboard" where
  "dashboard_loop cutoff1h cutoff24h d [] = d"
| "dashboard_loop cutoff1h cutoff24h d (ev # evs) =
     (if ev_EventID ev = [] then dashboard_loop cutoff1h cutoff24h d evs
      else if time_Before (ev_Timestamp ev) cutoff24h then d
      else dashboard_loop cutoff1h cutoff24h (dashboard_add cutoff1h ev d) evs)"

definition busier :: "string \<times> int \<Rightarrow> string \<times> int \<Rightarrow> bool" where
  "busier a b \<longleftrightarrow> snd a > snd b"

fun top_loop :: "ModuleVolume list \<Rightarrow> (string \<times> int) list \<Rightarrow> ModuleVolume list" where
  "top_loop acc [] = acc"
| "top_loop acc (item # items) =
     (if length acc = 5 then acc
      else top_loop (acc @ [\<lparr>mv_Module = fst item, mv_Count = snd item\<rparr>]) items)"

definition active_incidents :: "Store \<Rightarrow> nat" where
  "active_incidents s = length (filter (\<lambda>inc. inc_Status inc \<noteq> IncidentResolved) (map snd (st_incidents s)))"

definition firing_alerts :: "Store \<Rightarrow> nat" where
  "firing_alerts s = length (filter (\<lambda>al. al_Status al = AlertFiring) (map snd (st_alerts s)))"

definition Store_DashboardSummary ::
    "((string, int) gomap \<Rightarrow> (string, int) gomap) \<Rightarrow> gotime \<Rightarrow> Store \<Rightarrow> DashboardSummary" where
  "Store_DashboardSummary ord now s =
     (let d = dashboard_loop (time_Add now (- Hour)) (time_Add now (- (24 * Hour)))
                \<lparr>db_count1h = 0, db_count24h = 0, db_blocked1h = 0, db_moduleCounts = [],
                 db_honeyTriggers = 0\<rparr> (newest s);
          sorted = exchange_sort busier (ord (db_moduleCounts d))
      in \<lparr>ds_EventCount1h = db_count1h d, ds_EventCount24h = db_count24h d,
          ds_ActiveIncidents = active_incidents s, ds_FiringAlerts = firing_alerts s,
          ds_HoneyTokenTriggers = db_honeyTriggers d, ds_BlockedRequests1h = db_blocked1h d,
          ds_TopModules = top_loop [] sorted, ds_UpdatedAt = now\<rparr>)"

interpretation busier: strict_weak_order busier
  using strict_weak_order_greater [of "snd :: string \<times> int \<Rightarrow> int"] by (simp add: busier_def [abs_def])

lemma top_loop_eq:
  "length acc \<le> 5 \<Longrightarrow>
     top_loop acc items = acc @ take (5 - length acc) (map (\<lambda>i. \<lparr>mv_Module = fst i, mv_Count = snd i\<rparr>) items)"
proof (induction items arbitrary: acc)
  case (Cons item items)
  show ?case
  proof (cases "length acc = 5")
    case False
    then have "5 - length acc = Suc (5 - Suc (length acc))" using Cons.prems by simp
    then show ?thesis using False Cons by simp
  qed simp
qed simp

text \<open>What the loop has counted when no event is older than the events behind it.\<close>

definition day_events :: "gotime \<Rightarrow> BastionEvent list \<Rightarrow> BastionEvent list" where
  "day_events cutoff24h evs = filter (\<lambda>ev. stored ev \<and> cutoff24h \<le> ev_Timestamp ev) evs"

definition newest_first :: "BastionEvent list \<Rightarrow> bool" where
  "newest_first evs \<longleftrightarrow> sorted_wrt (\<lambda>a b. ev_Timestamp b \<le> ev_Timestamp a) (filter stored evs)"

lemma dashboard_loop_sorted:
  "newest_first evs \<Longrightarrow>
     dashboard_loop c1 c24 d evs = fold (dashboard_add c1) (day_events c24 evs) d"
proof (induction evs arbitrary: d)
  case (Cons ev evs)
  have rest: "newest_first evs" using Cons.prems by (auto simp: newest_first_def split: if_splits)
  show ?case
  proof (cases "stored ev \<and> ev_Timestamp ev < c24")
    case True
    then have "day_events c24 evs = []"
      using Cons.prems by (force simp: newest_first_def day_events_def filter_empty_conv)
    then show ?thesis using True by (simp add: stored_def time_Before_def day_events_def)
  next
    case False
    then show ?thesis using Cons.IH [OF rest] by (auto simp: stored_def time_Before_def day_events_def)
  qed
qed (simp add: day_events_def)

lemma dashboard_fold:
  "db_count1h (fold (dashboard_add c1) evs d)
     = db_count1h d + int (length (filter (\<lambda>ev. c1 < ev_Timestamp ev) evs))"
  "db_count24h (fold (dashboard_add c1) evs d) = db_count24h d + int (length evs)"
  "db_blocked1h (fold (dashboard_add c1) evs d)
     = db_blocked1h d + int (length (filter (\<lambda>ev. c1 < ev_Timestamp ev \<and> ev_Status ev = ''blocked'') evs))"
  "db_moduleCounts (fold (dashboard_add c1) evs d) = fold incr (map ev_Module evs) (db_moduleCounts d)"
  "db_honeyTriggers (fold (dashboard_add c1) evs d)
     = db_honeyTriggers d + length (filter (\<lambda>ev. HasPrefix (ev_EventType ev) ''honey_token_'') evs)"
  by (induction evs arbitrary: d)
    (simp_all add: dashboard_add_def Let_def time_After_def is_honey_type_prefix)

subsection \<open>Activity of one tenant\<close>

record tenant_stat =
  tn_count1h :: int
  tn_blocked1h :: int
  tn_catBreakdown :: "(string, int) gomap"
  tn_honeyCount :: nat

definition tenant_step :: "string \<Rightarrow> gotime \<Rightarrow> BastionEvent \<Rightarrow> tenant_stat \<Rightarrow> tenant_stat" where
  "tenant_step tenantID cutoff1h ev t =
     (if ev_EventID ev = [] \<or> ev_TenantID ev \<noteq> tenantID then t
      else if time_Before (ev_Timestamp ev) cutoff1h then t
      else \<lparr>tn_count1h = tn_count1h t + 1,
            tn_blocked1h = (if ev_Status ev = ''blocked'' then tn_blocked1h t + 1 else tn_blocked1h t),
            tn_catBreakdown = (case mget (ev_Labels ev) ''category'' of
                Some cat \<Rightarrow> if cat \<noteq> [] then incr cat (tn_catBreakdown t) else tn_catBreakdown t
              | None \<Rightarrow> tn_catBreakdown t),
            tn_honeyCount = (if is_honey_type (ev_EventType ev) then tn_honeyCount t + 1
                             else tn_honeyCount t)\<rparr>)"

definition Store_TenantActivity :: "gotime \<Rightarrow> Store \<Rightarrow> string \<Rightarrow> TenantActivity" where
  "Store_TenantActivity now s tenantID =
     (let t = fold (tenant_step tenantID (time_Add now (- Hour))) (newest s)
                \<lparr>tn_count1h = 0, tn_blocked1h = 0, tn_catBreakdown = [], tn_honeyCount = 0\<rparr>
      in \<lparr>ta_TenantID = tenantID, ta_EventCount1h = tn_count1h t,
          ta_IncidentCount = length (filter (\<lambda>inc. inc_TenantID inc = tenantID) (map snd (st_incidents s))),
          ta_BlockedCount1h = tn_blocked1h t, ta_HoneyTokenTriggers = tn_honeyCount t,
          ta_CategoryBreakdown = tn_catBreakdown t, ta_UpdatedAt = now\<rparr>)"

definition tenant_events :: "string \<Rightarrow> gotime \<Rightarrow> BastionEvent list \<Rightarrow> BastionEvent list" where
  "tenant_events tenantID cutoff evs =
     filter (\<lambda>ev. stored ev \<and> ev_TenantID ev = tenantID \<and> cutoff \<le> ev_Timestamp ev) evs"

lemma tenant_fold:
  "tn_count1h (fold (tenant_step t c) evs d) = tn_count1h d + int (length (tenant_events t c evs))"
  "tn_blocked1h (fold (tenant_step t c) evs d)
     = tn_blocked1h d + int (length (filter (\<lambda>ev. ev_Status ev = ''blocked'') (tenant_events t c evs)))"
  "tn_honeyCount (fold (tenant_step t c) evs d)
     = tn_honeyCount d
       + length (filter (\<lambda>ev. HasPrefix (ev_EventType ev) ''honey_token_'') (tenant_events t c evs))"
  by (induction evs arbitrary: d)
    (auto simp: tenant_step_def tenant_events_def stored_def time_Before_def is_honey_type_prefix)

subsection \<open>Properties\<close>

definition health_spec :: "string \<Rightarrow> BastionEvent list \<Rightarrow> ModuleHealth" where
  "health_spec m evs =
     (let count = length evs;
          errors = length (filter (\<lambda>ev. ev_Status ev = ''error'') evs);
          latency = of_int (wrap64 (sum_list (map ev_DurationMs evs))) / of_nat count
      in \<lparr>mh_Module = m,
          mh_Status = (if count = 0 then ''unknown''
                       else if 10 * errors > 3 * count then ''down''
                       else if 10 * errors > count \<or> latency > 500 then ''degraded''
                       else ''healthy''),
          mh_LatencyMs = (if count = 0 then 0 else latency),
          mh_ErrorRate = of_nat errors / of_nat count,
          mh_Throughput = of_nat count / 300,
          mh_LastEventAt = (if count = 0 then None else Some (Max (ev_Timestamp ` set evs)))\<rparr>)"

lemma rate_gt:
  assumes "0 < c"
  shows "of_nat a / 10 < (of_nat e / of_nat c :: rat) \<longleftrightarrow> a * c < 10 * e"
proof -
  have "of_nat a / 10 < (of_nat e / of_nat c :: rat) \<longleftrightarrow> of_nat (a * c) < (of_nat (10 * e) :: rat)"
    using assms by (simp add: field_simps)
  then show ?thesis by (simp only: of_nat_less_iff)
qed

lemma count_list_map: "count_list (map f xs) k = length (filter (\<lambda>x. f x = k) xs)"
  by (induction xs) auto

lemma module_health_spec: "module_health m (fold stat_add evs zero_stat) = health_spec m evs"
proof (cases "evs = []")
  case True
  then show ?thesis by (simp add: module_health_def health_spec_def zero_stat_def)
next
  case False
  let ?st = "fold stat_add evs zero_stat"
  have c: "ms_count ?st = length evs" "ms_errors ?st = length (filter (\<lambda>ev. ev_Status ev = ''error'') evs)"
    using stat_fold_counts [of evs zero_stat] by (simp_all add: zero_stat_def)
  have t: "ms_totalMs ?st = wrap64 (sum_list (map ev_DurationMs evs))"
    using stat_fold_total [of zero_stat evs] by (simp add: zero_stat_def wrap64_id)
  have l: "ms_lastSeen ?st = Some (Max (ev_Timestamp ` set evs))"
    using False stat_fold_last [of evs zero_stat] by (simp add: zero_stat_def)
  have pos: "0 < length evs" using False by simp
  have r3: "(of_nat e / of_nat (length evs) :: rat) > 3 / 10 \<longleftrightarrow> 10 * e > 3 * length evs" for e
    using rate_gt [OF pos, of 3 e] by (simp only: of_nat_numeral)
  have r1: "(of_nat e / of_nat (length evs) :: rat) > 1 / 10 \<longleftrightarrow> 10 * e > length evs" for e
    using rate_gt [OF pos, of 1 e] by (simp only: of_nat_1 mult_1)
  show ?thesis
    unfolding module_health_def health_spec_def Let_def c t l r3 r1 using pos by simp
qed

text \<open>
  The topology reports each module's health from exactly its events of the last five
  minutes: unknown without events, down above 30\% errors, degraded above 10\% errors or an
  average latency above 500 ms, healthy otherwise, and last seen at the latest of their
  timestamps, in whatever order they arrived.
\<close>

theorem topology_health:
  "ts_Modules (Topology now now' s) =
     map (\<lambda>m. health_spec m (window_events (now - 5 * Minute) m (newest s)))
       [''sentinel'', ''vault'', ''navigator'', ''anchor'']"
  using topology_fold [of "now - 5 * Minute" "newest s" "[]"]
  by (simp add: Topology_def Let_def topology_modules_def time_Add_def mget0_def module_health_spec)

text \<open>
  The dashboard figures are exact when the retained events arrived in time order: the
  24-hour and one-hour event counts, the requests blocked in the last hour and the honey-token
  events of the last day are the numbers of retained events with that property, the busiest
  modules come first, at most five of them.
\<close>

theorem dashboard_counts:
  assumes "newest_first (newest s)" and "range_order ord"
  shows "let day = day_events (now - 24 * Hour) (newest s); d = Store_DashboardSummary ord now s
    in ds_EventCount24h d = int (length day)
    \<and> ds_EventCount1h d = int (length (filter (\<lambda>ev. now - Hour < ev_Timestamp ev) day))
    \<and> ds_BlockedRequests1h d
        = int (length (filter (\<lambda>ev. now - Hour < ev_Timestamp ev \<and> ev_Status ev = ''blocked'') day))
    \<and> ds_HoneyTokenTriggers d = length (filter (\<lambda>ev. HasPrefix (ev_EventType ev) ''honey_token_'') day)
    \<and> length (ds_TopModules d) \<le> 5
    \<and> sorted_wrt (\<lambda>a b. mv_Count b \<le> mv_Count a) (ds_TopModules d)
    \<and> list_all (\<lambda>v. mv_Count v = int (length (filter (\<lambda>ev. ev_Module ev = mv_Module v) day))) (ds_TopModules d)"
proof -
  let ?day = "day_events (now - 24 * Hour) (newest s)" and ?d = "Store_DashboardSummary ord now s"
  let ?z = "\<lparr>db_count1h = 0, db_count24h = 0, db_blocked1h = 0, db_moduleCounts = [], db_honeyTriggers = 0\<rparr>"
  let ?db = "fold (dashboard_add (now - Hour)) ?day ?z"
  have loop: "dashboard_loop (now - Hour) (now - 24 * Hour) ?z (newest s) = ?db"
    by (rule dashboard_loop_sorted [OF assms(1)])
  let ?counts = "fold incr (map ev_Module ?day) []"
  let ?sorted = "exchange_sort busier (ord ?counts)"
  have top: "ds_TopModules ?d = take 5 (map (\<lambda>i. \<lparr>mv_Module = fst i, mv_Count = snd i\<rparr>) ?sorted)"
    by (simp add: Store_DashboardSummary_def Let_def time_Add_def loop top_loop_eq dashboard_fold)
  have "sorted_wrt (\<lambda>a b. snd b \<le> snd a) ?sorted"
    using busier.exchange_sort_sorted [of "ord ?counts"] by (simp add: busier_def not_less)
  then have sorted: "sorted_wrt (\<lambda>a b. mv_Count b \<le> mv_Count a) (ds_TopModules ?d)"
    unfolding top by (intro sorted_wrt_take) (simp add: sorted_wrt_map)
  have "snd i = int (length (filter (\<lambda>ev. ev_Module ev = fst i) ?day))" if "i \<in> set ?sorted" for i
  proof -
    have "(fst i, snd i) \<in> set ?counts" using that by (simp add: range_order_set [OF assms(2)])
    then have "snd i = int (count_list (map ev_Module ?day) (fst i))" by (rule incrs_entry)
    then show ?thesis by (simp add: count_list_map)
  qed
  then have counts: "list_all (\<lambda>v. mv_Count v = int (length (filter (\<lambda>ev. ev_Module ev = mv_Module v) ?day)))
      (ds_TopModules ?d)"
    unfolding top list_all_iff by (auto dest!: in_set_takeD)
  have len: "length (ds_TopModules ?d) \<le> 5" unfolding top by simp
  show ?thesis
    using sorted counts len unfolding Let_def
    by (simp add: Store_DashboardSummary_def Let_def time_Add_def loop dashboard_fold)
qed

lemma dashboard_counts_witness:
  "let s = fold AddEvent [zero_event\<lparr>ev_EventID := ''a'', ev_Timestamp := 100 * Hour\<rparr>,
                          zero_event\<lparr>ev_EventID := ''b'', ev_Timestamp := 101 * Hour, ev_Status := ''blocked''\<rparr>]
             (Store_New 4)
   in ds_BlockedRequests1h (Store_DashboardSummary rev (101 * Hour) s) = 1
    \<and> ds_EventCount24h (Store_DashboardSummary rev (101 * Hour) s) = 2"
proof -
  let ?s = "fold AddEvent [zero_event\<lparr>ev_EventID := ''a'', ev_Timestamp := 100 * Hour\<rparr>,
                          zero_event\<lparr>ev_EventID := ''b'', ev_Timestamp := 101 * Hour, ev_Status := ''blocked''\<rparr>]
             (Store_New 4)"
  have "newest_first (newest ?s)" by code_simp
  note th = dashboard_counts [OF this range_order_rev, of "101 * Hour"]
  have "length (day_events (101 * Hour - 24 * Hour) (newest ?s)) = 2" by code_simp
  moreover have "length (filter (\<lambda>ev. 101 * Hour - Hour < ev_Timestamp ev \<and> ev_Status ev = ''blocked'')
      (day_events (101 * Hour - 24 * Hour) (newest ?s))) = 1" by code_simp
  ultimately show ?thesis using th by (simp only: Let_def) simp
qed

text \<open>
  The pipeline statistics count every stored sentinel event of the last hour that names
  a pipeline, once, and the breakdown by pipeline adds up: each figure is the number of such
  events with that pipeline.
\<close>

theorem pipeline_breakdown:
  "let st = Store_PipelineStats now now' s;
       reqs = filter (\<lambda>ev. ev_EventID ev \<noteq> [] \<and> now - Hour \<le> ev_Timestamp ev
                \<and> ev_PipelineType ev \<noteq> [] \<and> ev_Module ev = ''sentinel'') (newest s)
   in ps_TotalRequests st = int (length reqs)
    \<and> mget0 0 (ps_Breakdown st) p = int (length (filter (\<lambda>ev. ev_PipelineType ev = p) reqs))"
  by (simp add: Let_def Store_PipelineStats_def pipeline_fold pipeline_requests_def stored_def
      time_Add_def mget0_incrs count_list_map) (simp add: mget0_def)

text \<open>
  The activity of a tenant counts that tenant's events only: its figures for the last
  hour are the numbers of its retained events since then, of the blocked ones and of the
  honey-token ones among them.
\<close>

theorem tenant_isolated:
  "let a = Store_TenantActivity now s t;
       own = filter (\<lambda>ev. ev_EventID ev \<noteq> [] \<and> ev_TenantID ev = t \<and> now - Hour \<le> ev_Timestamp ev) (newest s)
   in ta_EventCount1h a = int (length own)
    \<and> ta_BlockedCount1h a = int (length (filter (\<lambda>ev. ev_Status ev = ''blocked'') own))
    \<and> ta_HoneyTokenTriggers a = length (filter (\<lambda>ev. HasPrefix (ev_EventType ev) ''honey_token_'') own)"
  by (simp add: Let_def Store_TenantActivity_def tenant_fold tenant_events_def stored_def time_Add_def
      del: prefix_code)

end
