(* ===== verification/Security_Store.thy ===== *)
theory Security_Store
  imports Store
begin

text \<open>
  Incidents, alerts, honey-tokens and their triggers in internal/store/memory.go. Three
  tables are keyed by the identifier inside their value, and three managers fill them with
  identifiers they number themselves: \<open>keyed_table\<close> and \<open>numbered_table\<close> are those
  contracts, interpreted here on the three tables of the store.
\<close>

subsection \<open>Incidents\<close>

definition AddIncident :: "Incident \<Rightarrow> Store \<Rightarrow> Store" where
  "AddIncident inc s = s\<lparr>st_incidents := mput (inc_IncidentID inc) inc (st_incidents s)\<rparr>"

definition GetIncident :: "Store \<Rightarrow> string \<Rightarrow> Incident option" where
  "GetIncident s iid = mget (st_incidents s) iid"

definition UpdateIncident :: "Incident \<Rightarrow> Store \<Rightarrow> Store" where
  "UpdateIncident inc s = s\<lparr>st_incidents := mput (inc_IncidentID inc) inc (st_incidents s)\<rparr>"

definition ListIncidents ::
    "((string, Incident) gomap \<Rightarrow> (string, Incident) gomap) \<Rightarrow> Store \<Rightarrow> string \<Rightarrow> Incident list" where
  "ListIncidents ord s statusFilter =
     filter (\<lambda>inc. \<not> (statusFilter \<noteq> [] \<and> IncidentStatus_str (inc_Status inc) \<noteq> statusFilter))
       (map snd (ord (st_incidents s)))"

subsection \<open>Alerts\<close>

definition AddAlert :: "Alert \<Rightarrow> Store \<Rightarrow> Store" where
  "AddAlert al s = s\<lparr>st_alerts := mput (al_AlertID al) al (st_alerts s)\<rparr>"

definition GetAlert :: "Store \<Rightarrow> string \<Rightarrow> Alert option" where
  "GetAlert s aid = mget (st_alerts s) aid"

definition ListAlerts ::
    "((string, Alert) gomap \<Rightarrow> (string, Alert) gomap) \<Rightarrow> Store \<Rightarrow> string \<Rightarrow> Alert list" where
  "ListAlerts ord s statusFilter =
     filter (\<lambda>al. \<not> (statusFilter \<noteq> [] \<and> AlertStatus_str (al_Status al) \<noteq> statusFilter))
       (map snd (ord (st_alerts s)))"

definition AcknowledgeAlert :: "gotime \<Rightarrow> string \<Rightarrow> Store \<Rightarrow> Store \<times> bool" where
  "AcknowledgeAlert now aid s =
     (case mget (st_alerts s) aid of
        None \<Rightarrow> (s, False)
      | Some al \<Rightarrow>
          (s\<lparr>st_alerts := mput aid (al\<lparr>al_Status := AlertAcknowledged, al_AckedAt := Some now\<rparr>)
                (st_alerts s)\<rparr>, True))"

definition ResolveAlert :: "gotime \<Rightarrow> string \<Rightarrow> Store \<Rightarrow> Store \<times> bool" where
  "ResolveAlert now aid s =
     (case mget (st_alerts s) aid of
        None \<Rightarrow> (s, False)
      | Some al \<Rightarrow>
          (s\<lparr>st_alerts := mput aid (al\<lparr>al_Status := AlertResolved, al_ResolvedAt := Some now\<rparr>)
                (st_alerts s)\<rparr>, True))"

definition EscalateAlert :: "gotime \<Rightarrow> string \<Rightarrow> Store \<Rightarrow> Store \<times> bool" where
  "EscalateAlert now aid s =
     (case mget (st_alerts s) aid of
        None \<Rightarrow> (s, False)
      | Some al \<Rightarrow>
          if al_Status al \<noteq> AlertFiring then (s, False)
          else (s\<lparr>st_alerts := mput aid (al\<lparr>al_EscalatedAt := Some now, al_Severity := ''critical''\<rparr>)
                (st_alerts s)\<rparr>, True))"

subsection \<open>Honey-tokens\<close>

definition AddToken :: "HoneyToken \<Rightarrow> Store \<Rightarrow> Store" where
  "AddToken tok s = s\<lparr>st_tokens := mput (ht_TokenID tok) tok (st_tokens s)\<rparr>"

definition GetToken :: "Store \<Rightarrow> string \<Rightarrow> HoneyToken option" where
  "GetToken s tid = mget (st_tokens s) tid"

definition ListTokens ::
    "((string, HoneyToken) gomap \<Rightarrow> (string, HoneyToken) gomap) \<Rightarrow> Store \<Rightarrow> HoneyToken list" where
  "ListTokens ord s = map snd (ord (st_tokens s))"

definition DeleteToken :: "string \<Rightarrow> Store \<Rightarrow> Store \<times> bool" where
  "DeleteToken tid s =
     (case mget (st_tokens s) tid of
        Some _ \<Rightarrow> (s\<lparr>st_tokens := mdel tid (st_tokens s)\<rparr>, True)
      | None \<Rightarrow> (s, False))"

definition RecordTrigger :: "HoneyTokenTrigger \<Rightarrow> Store \<Rightarrow> Store" where
  "RecordTrigger tr s =
     (case mget (st_tokens s) (trg_TokenID tr) of
        None \<Rightarrow> s
      | Some tok \<Rightarrow>
          s\<lparr>st_tokens := mput (trg_TokenID tr)
               (tok\<lparr>ht_TriggerCount := ht_TriggerCount tok + 1,
                    ht_LastTriggered := Some (trg_TriggeredAt tr)\<rparr>) (st_tokens s),
            st_triggers := mput (trg_TokenID tr)
               (mget0 [] (st_triggers s) (trg_TokenID tr) @ [tr]) (st_triggers s)\<rparr>)"

definition TokenTriggers :: "Store \<Rightarrow> string \<Rightarrow> HoneyTokenTrigger list" where
  "TokenTriggers s tokenID = mget0 [] (st_triggers s) tokenID"

definition AllTriggers ::
    "((string, HoneyTokenTrigger list) gomap \<Rightarrow> (string, HoneyTokenTrigger list) gomap)
       \<Rightarrow> Store \<Rightarrow> HoneyTokenTrigger list" where
  "AllTriggers ord s = concat (map snd (ord (st_triggers s)))"

lemmas table_defs =
  AddIncident_def GetIncident_def UpdateIncident_def AddAlert_def GetAlert_def AddToken_def GetToken_def

subsection \<open>Tables and numbered tables\<close>

locale keyed_table =
  fixes get :: "'s \<Rightarrow> string \<Rightarrow> 'v option"
    and put :: "'v \<Rightarrow> 's \<Rightarrow> 's"
    and key :: "'v \<Rightarrow> string"
  assumes get_put: "get (put v s) k = (if k = key v then Some v else get s k)"
begin

lemma get_put_same: "get (put v s) (key v) = Some v"
  by (simp add: get_put)

lemma get_put_other: "k \<noteq> key v \<Longrightarrow> get (put v s) k = get s k"
  by (simp add: get_put)

lemma put_put: "key v = key w \<Longrightarrow> get (put v (put w s)) k = get (put v s) k"
  by (simp add: get_put)

end

text \<open>
  \<open>issued get ident n\<close>: every identifier in the table is one of the first \<open>n\<close> the
  manager handed out.
\<close>

definition issued :: "(string \<Rightarrow> 'v option) \<Rightarrow> (nat \<Rightarrow> string) \<Rightarrow> nat \<Rightarrow> bool" where
  "issued lookup ident n \<longleftrightarrow> (\<forall>k. lookup k \<noteq> None \<longrightarrow> (\<exists>m. 1 \<le> m \<and> m \<le> n \<and> k = ident m))"

locale numbered_table = keyed_table +
  fixes ident :: "nat \<Rightarrow> string"
  assumes ident_inject: "ident m = ident n \<longleftrightarrow> m = n"
begin

lemma next_fresh: "issued (get s) ident n \<Longrightarrow> get s (ident (Suc n)) = None"
  by (auto simp: issued_def ident_inject)

lemma issued_put:
  "issued (get s) ident n \<Longrightarrow> key v = ident (Suc n) \<Longrightarrow> issued (get (put v s)) ident (Suc n)"
  by (auto simp: issued_def get_put) (metis le_Suc_eq option.discI)+

lemma put_keeps:
  assumes "issued (get s) ident n" and "key v = ident (Suc n)" and "get s k = Some w"
  shows "get (put v s) k = Some w"
proof -
  have "k \<noteq> key v" using next_fresh [OF assms(1)] assms(2,3) by auto
  then show ?thesis using assms(3) by (simp add: get_put)
qed

end

definition inc_ident :: "nat \<Rightarrow> string" where "inc_ident n = ''INC-'' @ pad04 n"
definition alt_ident :: "nat \<Rightarrow> string" where "alt_ident n = ''ALT-'' @ pad04 n"
definition ht_ident :: "nat \<Rightarrow> string" where "ht_ident n = ''HT-'' @ pad04 n"

interpretation incidents_tab: numbered_table GetIncident AddIncident inc_IncidentID inc_ident
  by unfold_locales (simp_all add: table_defs inc_ident_def)

interpretation alerts_tab: numbered_table GetAlert AddAlert al_AlertID alt_ident
  by unfold_locales (simp_all add: table_defs alt_ident_def)

interpretation tokens_tab: numbered_table GetToken AddToken ht_TokenID ht_ident
  by unfold_locales (simp_all add: table_defs ht_ident_def)

text \<open>The three alert operations, over the lookup.\<close>

lemma alert_ops_get:
  "GetAlert (fst (AcknowledgeAlert now aid s)) k =
     (if k = aid then map_option (\<lambda>al. al\<lparr>al_Status := AlertAcknowledged, al_AckedAt := Some now\<rparr>) (GetAlert s k)
      else GetAlert s k)"
  "GetAlert (fst (ResolveAlert now aid s)) k =
     (if k = aid then map_option (\<lambda>al. al\<lparr>al_Status := AlertResolved, al_ResolvedAt := Some now\<rparr>) (GetAlert s k)
      else GetAlert s k)"
  "GetAlert (fst (EscalateAlert now aid s)) k =
     (if k = aid then map_option (\<lambda>al. if al_Status al = AlertFiring
         then al\<lparr>al_EscalatedAt := Some now, al_Severity := ''critical''\<rparr> else al) (GetAlert s k)
      else GetAlert s k)"
  by (auto simp: AcknowledgeAlert_def ResolveAlert_def EscalateAlert_def GetAlert_def split: option.splits)

lemma alert_ops_ok:
  "snd (AcknowledgeAlert now aid s) \<longleftrightarrow> GetAlert s aid \<noteq> None"
  "snd (ResolveAlert now aid s) \<longleftrightarrow> GetAlert s aid \<noteq> None"
  "snd (EscalateAlert now aid s) \<longleftrightarrow> (\<exists>al. GetAlert s aid = Some al \<and> al_Status al = AlertFiring)"
  by (auto simp: AcknowledgeAlert_def ResolveAlert_def EscalateAlert_def GetAlert_def split: option.splits)

lemma alert_ops_map_ok:
  assumes "map_ok (st_alerts s)"
  shows "map_ok (st_alerts (fst (AcknowledgeAlert now aid s)))"
    and "map_ok (st_alerts (fst (ResolveAlert now aid s)))"
    and "map_ok (st_alerts (fst (EscalateAlert now aid s)))"
    and "map_ok (st_alerts (AddAlert al s))"
  using assms
  by (auto simp: AcknowledgeAlert_def ResolveAlert_def EscalateAlert_def AddAlert_def split: option.splits)

lemma ListAlerts_set:
  assumes "range_order ord" and "map_ok (st_alerts s)"
  shows "set (ListAlerts ord s f) =
    {al. \<exists>k. GetAlert s k = Some al \<and> (f = [] \<or> AlertStatus_str (al_Status al) = f)}"
proof -
  have "set (ord (st_alerts s)) = {(k, al). GetAlert s k = Some al}"
    using assms(2) by (auto simp: range_order_set [OF assms(1)] GetAlert_def)
  then show ?thesis by (auto simp: ListAlerts_def image_iff)
qed

end
