(* ===== verification/Metrics.thy ===== *)
theory Metrics
  imports Security_Store
begin

text \<open>
  internal/metrics/metrics.go: the Prometheus collectors, their registration and what the components do
  to them. A vector maps the label values of a series to its count; a histogram keeps what was
  observed for each series, which its buckets summarise. The Prometheus library is reduced to what it
  documents: increments, observations, and a panic when two collectors of one name are registered.
\<close>

type_synonym counter_vec = "(string list, int) gomap"

type_synonym histogram_vec = "(string list, duration list) gomap"

record Metrics =
  mx_EventsReceived :: counter_vec
  mx_EventsProcessed :: counter_vec
  mx_ProcessingDuration :: histogram_vec
  mx_WebSocketConnections :: int
  mx_WebSocketBroadcasts :: int
  mx_IncidentsCreated :: counter_vec
  mx_AlertsFired :: counter_vec
  mx_HoneyTokenTriggers :: int
  mx_PipelineRequests :: counter_vec
  mx_ActiveAlerts :: int
  mx_EventsRejected :: int

definition zero_metrics :: Metrics where
  "zero_metrics = \<lparr>mx_EventsReceived = [], mx_EventsProcessed = [], mx_ProcessingDuration = [],
     mx_WebSocketConnections = 0, mx_WebSocketBroadcasts = 0, mx_IncidentsCreated = [], mx_AlertsFired = [],
     mx_HoneyTokenTriggers = 0, mx_PipelineRequests = [], mx_ActiveAlerts = 0, mx_EventsRejected = 0\<rparr>"

definition vec_inc :: "string list \<Rightarrow> counter_vec \<Rightarrow> counter_vec" where
  "vec_inc labels c = mput labels (mget0 0 c labels + 1) c"

definition vec_observe :: "string list \<Rightarrow> duration \<Rightarrow> histogram_vec \<Rightarrow> histogram_vec" where
  "vec_observe labels d v = mput labels (mget0 [] v labels @ [d]) v"

lemma vec_get:
  "mget0 0 (vec_inc l c) k = (if k = l then mget0 0 c k + 1 else mget0 0 c k)"
  "mget0 [] (vec_observe l d v) k = (if k = l then mget0 [] v k @ [d] else mget0 [] v k)"
  by (simp_all add: vec_inc_def vec_observe_def mget0_def)

subsection \<open>Registration\<close>

datatype collector_kind = CounterVec | HistogramVec "rat list" | Gauge | Counter

record collector =
  co_Name :: string
  co_Help :: string
  co_Kind :: collector_kind
  co_Labels :: "string list"

definition collectors :: "collector list" where
  "collectors =
     [\<lparr>co_Name = ''tracker_events_received_total'',
       co_Help = ''Total events received, partitioned by module and event_type.'',
       co_Kind = CounterVec, co_Labels = [''module'', ''event_type'']\<rparr>,
      \<lparr>co_Name = ''tracker_events_processed_total'', co_Help = ''Events successfully processed.'',
       co_Kind = CounterVec, co_Labels = [''module'']\<rparr>,
      \<lparr>co_Name = ''tracker_event_processing_duration_seconds'', co_Help = ''Time to process one event.'',
       co_Kind = HistogramVec [1/1000, 5/1000, 1/100, 5/100, 1/10, 5/10, 1], co_Labels = [''module'']\<rparr>,
      \<lparr>co_Name = ''tracker_websocket_connections'', co_Help = ''Current number of WebSocket client connections.'',
       co_Kind = Gauge, co_Labels = []\<rparr>,
      \<lparr>co_Name = ''tracker_websocket_broadcasts_total'', co_Help = ''Total WebSocket broadcast messages sent.'',
       co_Kind = Counter, co_Labels = []\<rparr>,
      \<lparr>co_Name = ''tracker_incidents_created_total'', co_Help = ''Incidents created, by severity.'',
       co_Kind = CounterVec, co_Labels = [''severity'']\<rparr>,
      \<lparr>co_Name = ''tracker_alerts_fired_total'', co_Help = ''Alert rule firings by rule name.'',
       co_Kind = CounterVec, co_Labels = [''rule'', ''severity'']\<rparr>,
      \<lparr>co_Name = ''tracker_honey_token_triggers_total'', co_Help = ''Total honey-token trigger events.'',
       co_Kind = Counter, co_Labels = []\<rparr>,
      \<lparr>co_Name = ''tracker_pipeline_requests_total'', co_Help = ''Requests handled by pipeline type.'',
       co_Kind = CounterVec, co_Labels = [''pipeline_type'', ''status'']\<rparr>,
      \<lparr>co_Name = ''tracker_active_alerts'', co_Help = ''Number of currently firing alerts.'',
       co_Kind = Gauge, co_Labels = []\<rparr>,
      \<lparr>co_Name = ''tracker_events_rejected_total'', co_Help = ''Events rejected by schema validation (dead-lettered).'',
       co_Kind = Counter, co_Labels = []\<rparr>]"

text \<open>\<open>MustRegister\<close> in \<open>init\<close>: \<open>None\<close> is the panic on a name that is taken.\<close>

fun MustRegister :: "collector list \<Rightarrow> collector list \<Rightarrow> collector list option" where
  "MustRegister reg [] = Some reg"
| "MustRegister reg (c # cs) = (if co_Name c \<in> co_Name ` set reg then None else MustRegister (reg @ [c]) cs)"

lemma init_registers: "MustRegister [] collectors = Some collectors"
  by code_simp

end
