(* ===== verification/Honeytoken.thy ===== *)
theory Honeytoken
  imports Metrics
begin

text \<open>
  internal/honeytoken/manager.go: creation, deletion and trigger detection of honey-tokens, which bumps the
  trigger counter of theory Metrics. The manager's only own state is its sequence number. \<open>honey_inv\<close> ties that number, the
  tokens and the recorded triggers together; every operation keeps it.
\<close>

subsection \<open>The manager\<close>

record HoneyMgr =
  hm_seq :: nat

definition HT_Create ::
    "gotime \<Rightarrow> string \<Rightarrow> string \<Rightarrow> string \<Rightarrow> string \<Rightarrow> HoneyMgr \<times> Store \<Rightarrow> HoneyToken \<times> HoneyMgr \<times> Store" where
  "HT_Create now name description location typ = (\<lambda>(m, s).
     let m' = m\<lparr>hm_seq := hm_seq m + 1\<rparr>;
         tok = \<lparr>ht_TokenID = ''HT-'' @ pad04 (hm_seq m'), ht_Name = name, ht_Type = typ,
                ht_Location = location, ht_Description = description, ht_CreatedAt = now,
                ht_Enabled = True, ht_TriggerCount = 0, ht_LastTriggered = None, ht_IncidentID = []\<rparr>
     in (tok, m', AddToken tok s))"

definition HT_Delete :: "string \<Rightarrow> Store \<Rightarrow> Store \<times> bool" where
  "HT_Delete tid s = DeleteToken tid s"

definition detectionEventTypes :: "string list" where
  "detectionEventTypes = [''honey_token_triggered'', ''honey_token_accessed'',
     ''honey_token_retrieved'', ''honey_token_referenced'', ''honey_token_leaked'']"

text \<open>\<open>v, _ := ev.Data[k].(string)\<close>: the empty string when absent or of another type.\<close>

definition data_string :: "BastionEvent \<Rightarrow> string \<Rightarrow> string" where
  "data_string ev k = (case as_string (ev_Data ev) k of Some v \<Rightarrow> v | None \<Rightarrow> [])"

definition event_token_id :: "BastionEvent \<Rightarrow> string" where
  "event_token_id ev =
     (if data_string ev ''honey_token_id'' = [] then data_string ev ''token_id''
      else data_string ev ''honey_token_id'')"

text \<open>\<open>CheckEvent\<close>: the token id, or the empty string when the event is not a honey-token event.\<close>

definition CheckEvent :: "gotime \<Rightarrow> BastionEvent \<Rightarrow> Store \<times> Metrics \<Rightarrow> string \<times> Store \<times> Metrics" where
  "CheckEvent now ev = (\<lambda>(s, mx).
     if ev_EventType ev \<notin> set detectionEventTypes \<and> \<not> HasPrefix (ev_EventType ev) ''honey_token_''
     then ([], s, mx)
     else let tokenID = (if event_token_id ev = [] then ''unknown'' else event_token_id ev);
              trig = \<lparr>trg_TriggerID = tokenID @ ''-trg-'' @ itoa (UnixNano now), trg_TokenID = tokenID,
                      trg_TriggeredAt = ev_Timestamp ev, trg_SourceIP = data_string ev ''source_ip'',
                      trg_UserID = ev_UserID ev, trg_TenantID = ev_TenantID ev,
                      trg_EventID = ev_EventID ev\<rparr>
          in (tokenID, RecordTrigger trig s, mx\<lparr>mx_HoneyTokenTriggers := mx_HoneyTokenTriggers mx + 1\<rparr>))"

text \<open>\<open>SeedDefaults\<close>; \<open>clk n\<close> is the clock reading for token number \<open>n\<close>.\<close>

definition SeedDefaults :: "(nat \<Rightarrow> gotime) \<Rightarrow> HoneyMgr \<times> Store \<Rightarrow> HoneyMgr \<times> Store" where
  "SeedDefaults clk st0 =
     (let (_, st1) = HT_Create (clk 1) ''Fake CEO Email''
            ''Decoy CEO email address for intrusion detection'' ''customer_database'' ''email'' st0;
          (_, st2) = HT_Create (clk 2) ''Fake API Key''
            ''Decoy API key placed in HR database'' ''hr_database'' ''credential'' st1;
          (_, st3) = HT_Create (clk 3) ''Fake Customer Record''
            ''Hong Gildong with fake SSN in customer DB'' ''customer_database'' ''identity'' st2
      in st3)"

subsection \<open>The invariant of tokens and triggers\<close>

definition honey_inv :: "nat \<Rightarrow> Store \<Rightarrow> bool" where
  "honey_inv n s \<longleftrightarrow>
     issued (GetToken s) ht_ident n
   \<and> issued (mget (st_triggers s)) ht_ident n
   \<and> (\<forall>k tok. GetToken s k = Some tok \<longrightarrow>
        ht_TokenID tok = k \<and> ht_TriggerCount tok = length (TokenTriggers s k)
      \<and> ht_LastTriggered tok = (if TokenTriggers s k = [] then None
                                else Some (trg_TriggeredAt (last (TokenTriggers s k)))))"

lemma honey_inv_New: "honey_inv 0 (Store_New n)"
  by (simp add: honey_inv_def issued_def GetToken_def Store_New_def Let_def)

lemma honey_inv_Create:
  assumes "honey_inv (hm_seq m) s" and "HT_Create now name d l typ (m, s) = (tok, m', s')"
  shows "honey_inv (hm_seq m') s' \<and> GetToken s (ht_TokenID tok) = None \<and> GetToken s' (ht_TokenID tok) = Some tok"
proof -
  have tok: "ht_TokenID tok = ht_ident (Suc (hm_seq m))" "ht_TriggerCount tok = 0" "ht_LastTriggered tok = None"
    and m': "hm_seq m' = Suc (hm_seq m)" and s': "s' = AddToken tok s"
    using assms(2) by (auto simp: HT_Create_def Let_def ht_ident_def)
  have iss: "issued (GetToken s) ht_ident (hm_seq m)" "issued (mget (st_triggers s)) ht_ident (hm_seq m)"
    using assms(1) by (auto simp: honey_inv_def)
  have trig: "st_triggers s' = st_triggers s" by (simp add: s' AddToken_def)
  have none: "mget (st_triggers s) (ht_ident (Suc (hm_seq m))) = None"
    using iss(2) by (auto simp: issued_def ht_ident_def)
  have "issued (mget (st_triggers s')) ht_ident (Suc (hm_seq m))"
    using iss(2) unfolding trig issued_def by (meson le_SucI)
  moreover have "issued (GetToken s') ht_ident (Suc (hm_seq m))"
    unfolding s' by (rule tokens_tab.issued_put [OF iss(1) tok(1)])
  moreover have "TokenTriggers s' k = TokenTriggers s k" for k by (simp add: TokenTriggers_def trig)
  moreover have "TokenTriggers s (ht_TokenID tok) = []" by (simp add: TokenTriggers_def mget0_def none tok)
  ultimately show ?thesis
    using assms(1) tok m' tokens_tab.next_fresh [OF iss(1)]
    by (auto simp: honey_inv_def s' tokens_tab.get_put split: if_splits)
qed

lemma honey_inv_Delete:
  assumes "honey_inv n s"
  shows "honey_inv n (fst (HT_Delete tid s))"
  using assms
  by (auto simp: honey_inv_def HT_Delete_def DeleteToken_def GetToken_def TokenTriggers_def issued_def
      split: option.splits)

lemma honey_inv_RecordTrigger:
  assumes "honey_inv n s"
  shows "honey_inv n (RecordTrigger tr s)"
proof (cases "mget (st_tokens s) (trg_TokenID tr)")
  case None
  then show ?thesis using assms by (simp add: RecordTrigger_def)
next
  case (Some tok)
  have iss: "\<exists>m. 1 \<le> m \<and> m \<le> n \<and> trg_TokenID tr = ht_ident m"
    using assms Some by (auto simp: honey_inv_def issued_def GetToken_def)
  have upd: "RecordTrigger tr s = s\<lparr>st_tokens := mput (trg_TokenID tr)
               (tok\<lparr>ht_TriggerCount := ht_TriggerCount tok + 1,
                    ht_LastTriggered := Some (trg_TriggeredAt tr)\<rparr>) (st_tokens s),
            st_triggers := mput (trg_TokenID tr)
               (mget0 [] (st_triggers s) (trg_TokenID tr) @ [tr]) (st_triggers s)\<rparr>"
    using Some by (simp add: RecordTrigger_def)
  show ?thesis
    using assms iss Some unfolding upd
    by (auto simp: honey_inv_def issued_def GetToken_def TokenTriggers_def split: if_splits)
qed

lemma honey_inv_CheckEvent:
  "honey_inv n s \<Longrightarrow> CheckEvent now ev (s, mx) = (t, s', mx') \<Longrightarrow> honey_inv n s'"
  by (auto simp: CheckEvent_def Let_def honey_inv_RecordTrigger split: if_splits)

lemma honey_inv_frame:
  "st_tokens s' = st_tokens s \<Longrightarrow> st_triggers s' = st_triggers s \<Longrightarrow> honey_inv n s' = honey_inv n s"
  by (simp add: honey_inv_def GetToken_def [abs_def] TokenTriggers_def)

lemma detection_types_prefix: "et \<in> set detectionEventTypes \<Longrightarrow> HasPrefix et ''honey_token_''"
  by (auto simp: detectionEventTypes_def)

lemma CheckEvent_detects:
  "fst (CheckEvent now ev (s, mx)) \<noteq> [] \<longleftrightarrow> HasPrefix (ev_EventType ev) ''honey_token_''"
  using detection_types_prefix [of "ev_EventType ev"]
  by (auto simp: CheckEvent_def Let_def)

subsection \<open>Properties\<close>

text \<open>The operations on honey-tokens, in any order.\<close>

datatype honey_op =
    HCreate gotime string string string string
  | HDelete string
  | HCheck gotime BastionEvent

fun honey_step :: "honey_op \<Rightarrow> HoneyMgr \<times> Store \<times> Metrics \<Rightarrow> HoneyMgr \<times> Store \<times> Metrics" where
  "honey_step (HCreate now name d l typ) (m, s, mx) =
     (let (_, m', s') = HT_Create now name d l typ (m, s) in (m', s', mx))"
| "honey_step (HDelete tid) (m, s, mx) = (m, fst (HT_Delete tid s), mx)"
| "honey_step (HCheck now ev) (m, s, mx) = (let (_, s', mx') = CheckEvent now ev (s, mx) in (m, s', mx'))"

lemma honey_inv_step:
  "honey_inv (hm_seq m) s \<Longrightarrow> honey_step a (m, s, mx) = (m', s', mx') \<Longrightarrow> honey_inv (hm_seq m') s'"
  by (cases a) (auto simp: honey_inv_Delete dest: honey_inv_Create honey_inv_CheckEvent split: prod.splits)

lemma honey_inv_steps:
  "honey_inv (hm_seq m) s \<Longrightarrow> fold honey_step as (m, s, mx) = (m', s', mx') \<Longrightarrow> honey_inv (hm_seq m') s'"
proof (induction as arbitrary: m s mx)
  case (Cons a as)
  obtain m1 s1 mx1 where step: "honey_step a (m, s, mx) = (m1, s1, mx1)" by (metis prod_cases3)
  show ?case using Cons.IH [OF honey_inv_step [OF Cons.prems(1) step]] Cons.prems(2) step by simp
qed simp

text \<open>
  C27: after any sequence of creations, deletions and event checks, the trigger count of every
  honey-token is the number of triggers recorded under its id and its last-triggered time is
  that of the last one; the next token created takes an id that no token or trigger has had.
\<close>

theorem honey_token_counts:
  "case fold honey_step ops (\<lparr>hm_seq = 0\<rparr>, Store_New n, zero_metrics) of (m, s, mx) \<Rightarrow>
     (case GetToken s k of
        None \<Rightarrow> True
      | Some tok \<Rightarrow> ht_TokenID tok = k \<and> ht_TriggerCount tok = length (TokenTriggers s k)
          \<and> ht_LastTriggered tok = (if TokenTriggers s k = [] then None
                                    else Some (trg_TriggeredAt (last (TokenTriggers s k)))))
   \<and> (case HT_Create now name d l typ (m, s) of (tok, m', s') \<Rightarrow>
        GetToken s (ht_TokenID tok) = None \<and> TokenTriggers s (ht_TokenID tok) = []
      \<and> GetToken s' (ht_TokenID tok) = Some tok)"
proof -
  obtain m s mx where run: "fold honey_step ops (\<lparr>hm_seq = 0\<rparr>, Store_New n, zero_metrics) = (m, s, mx)"
    by (metis prod_cases3)
  obtain tok m' s' where new: "HT_Create now name d l typ (m, s) = (tok, m', s')" by (metis prod_cases3)
  have inv: "honey_inv (hm_seq m) s"
    by (rule honey_inv_steps [OF _ run]) (simp add: honey_inv_New)
  have "ht_TokenID tok = ht_ident (Suc (hm_seq m))"
    using new by (auto simp: HT_Create_def Let_def ht_ident_def)
  then have "TokenTriggers s (ht_TokenID tok) = []"
    using inv by (auto simp: honey_inv_def issued_def ht_ident_def TokenTriggers_def mget0_def split: option.split)
  moreover have "GetToken s (ht_TokenID tok) = None \<and> GetToken s' (ht_TokenID tok) = Some tok"
    using honey_inv_Create [OF inv new] by simp
  ultimately show ?thesis
    using inv unfolding run split_conv new by (auto simp: honey_inv_def split: option.split)
qed

end
