(* ===== verification/Incidents.thy ===== *)
theory Incidents
  imports Honeytoken
begin

text \<open>
  internal/incidents/manager.go: which events open an incident, under which title and
  identifier, and how an incident is resolved. Strings are byte strings; the dash in the
  description of a honey-token incident is its UTF-8 encoding \<open>em_dash\<close>.
\<close>

record IncidentMgr =
  im_seq :: nat

definition em_dash :: string where
  "em_dash = [CHR 0xE2, CHR 0x80, CHR 0x94]"

definition honey_layer :: "string \<Rightarrow> string" where
  "honey_layer et =
     (if et = ''honey_token_triggered'' then ''triggered''
      else if et = ''honey_token_accessed'' then ''data-layer access (Vault)''
      else if et = ''honey_token_retrieved'' then ''search-layer retrieval (Navigator)''
      else if et = ''honey_token_referenced'' then ''input-layer reference (Sentinel)''
      else if et = ''honey_token_leaked'' then ''output-layer leak (Sentinel)''
      else [])"

definition honeyTokenTitle :: "BastionEvent \<Rightarrow> string" where
  "honeyTokenTitle ev =
     (let tokenID = event_token_id ev;
          lbl = (if honey_layer (ev_EventType ev) = [] then ev_EventType ev
                 else honey_layer (ev_EventType ev))
      in if tokenID \<noteq> [] then ''Honey-token '' @ lbl @ '': '' @ tokenID
         else ''Honey-token '' @ lbl)"

text \<open>The switch of \<open>AutoCreate\<close>: title and description, or none.\<close>

definition incident_text :: "BastionEvent \<Rightarrow> (string \<times> string) option" where
  "incident_text ev =
     (if HasPrefix (ev_EventType ev) ''honey_token_'' then
        Some (honeyTokenTitle ev,
          ''Honey-token detection at '' @ ev_EventType ev @ '' layer '' @ em_dash
            @ '' potential intrusion (module: '' @ ev_Module ev @ '').'')
      else if ev_EventType ev = ''prompt_injection_detected'' then
        Some (''Prompt injection attempt detected'',
          ''Sentinel blocked a prompt injection from user '' @ ev_UserID ev @ ''.'')
      else if ev_EventType ev = ''cross_tenant_attempt'' then
        Some (''Cross-tenant access attempt'',
          ''User '' @ ev_UserID ev @ '' attempted to access another tenant'' @ [CHR 39] @ ''s data.'')
      else None)"

definition AutoCreate ::
    "gotime \<Rightarrow> gotime \<Rightarrow> BastionEvent \<Rightarrow> IncidentMgr \<times> Store \<times> Metrics
       \<Rightarrow> Incident option \<times> IncidentMgr \<times> Store \<times> Metrics" where
  "AutoCreate now now' ev = (\<lambda>(m, s, mx).
     case incident_text ev of
       None \<Rightarrow> (None, m, s, mx)
     | Some (title, desc) \<Rightarrow>
         if (ev_Severity ev \<noteq> ''critical'' \<and> ev_Severity ev \<noteq> ''error'')
            \<and> \<not> HasPrefix (ev_EventType ev) ''honey_token_''
         then (None, m, s, mx)
         else let m' = m\<lparr>im_seq := im_seq m + 1\<rparr>;
                  inc = \<lparr>inc_IncidentID = ''INC-'' @ pad04 (im_seq m'), inc_Title = title,
                         inc_Severity = ev_Severity ev, inc_Status = IncidentOpen,
                         inc_CreatedAt = now, inc_UpdatedAt = now', inc_ResolvedAt = None,
                         inc_TenantID = ev_TenantID ev, inc_Description = desc,
                         inc_EventIDs = [ev_EventID ev], inc_Notes = []\<rparr>
              in (Some inc, m', AddIncident inc s,
                  mx\<lparr>mx_IncidentsCreated := vec_inc [inc_Severity inc] (mx_IncidentsCreated mx)\<rparr>))"

definition Incident_Resolve :: "gotime \<Rightarrow> string \<Rightarrow> string \<Rightarrow> Store \<Rightarrow> Incident option \<times> Store" where
  "Incident_Resolve now incidentID notes s =
     (case GetIncident s incidentID of
        None \<Rightarrow> (None, s)
      | Some inc \<Rightarrow>
          let inc1 = inc\<lparr>inc_Status := IncidentResolved, inc_ResolvedAt := Some now, inc_UpdatedAt := now\<rparr>;
              inc2 = (if notes \<noteq> [] then inc1\<lparr>inc_Notes := notes\<rparr> else inc1)
          in (Some inc2, UpdateIncident inc2 s))"

subsection \<open>When an incident is opened\<close>

definition opens_incident :: "BastionEvent \<Rightarrow> bool" where
  "opens_incident ev \<longleftrightarrow>
     HasPrefix (ev_EventType ev) ''honey_token_''
   \<or> (ev_EventType ev \<in> {''prompt_injection_detected'', ''cross_tenant_attempt''}
      \<and> ev_Severity ev \<in> {''critical'', ''error''})"

lemma AutoCreate_None:
  "\<not> opens_incident ev \<Longrightarrow> AutoCreate now now' ev (m, s, mx) = (None, m, s, mx)"
  by (auto simp: AutoCreate_def incident_text_def opens_incident_def)

lemma AutoCreate_Some:
  assumes "opens_incident ev"
  obtains inc where "AutoCreate now now' ev (m, s, mx) =
      (Some inc, m\<lparr>im_seq := Suc (im_seq m)\<rparr>, AddIncident inc s,
       mx\<lparr>mx_IncidentsCreated := vec_inc [ev_Severity ev] (mx_IncidentsCreated mx)\<rparr>)"
    and "inc_IncidentID inc = inc_ident (Suc (im_seq m))" and "inc_Status inc = IncidentOpen"
    and "inc_EventIDs inc = [ev_EventID ev]" and "inc_TenantID inc = ev_TenantID ev"
    and "inc_Severity inc = ev_Severity ev" and "inc_ResolvedAt inc = None"
    and "Some (inc_Title inc, inc_Description inc) = incident_text ev"
proof -
  obtain title desc where itxt: "incident_text ev = Some (title, desc)"
    using assms unfolding incident_text_def opens_incident_def by (auto split: if_splits)
  have sev: "\<not> ((ev_Severity ev \<noteq> ''critical'' \<and> ev_Severity ev \<noteq> ''error'')
      \<and> \<not> HasPrefix (ev_EventType ev) ''honey_token_'')"
    using assms unfolding opens_incident_def by blast
  let ?inc = "\<lparr>inc_IncidentID = inc_ident (Suc (im_seq m)), inc_Title = title,
      inc_Severity = ev_Severity ev, inc_Status = IncidentOpen, inc_CreatedAt = now,
      inc_UpdatedAt = now', inc_ResolvedAt = None, inc_TenantID = ev_TenantID ev,
      inc_Description = desc, inc_EventIDs = [ev_EventID ev], inc_Notes = []\<rparr>"
  have eq: "AutoCreate now now' ev (m, s, mx) =
      (Some ?inc, m\<lparr>im_seq := Suc (im_seq m)\<rparr>, AddIncident ?inc s,
       mx\<lparr>mx_IncidentsCreated := vec_inc [ev_Severity ev] (mx_IncidentsCreated mx)\<rparr>)"
    unfolding AutoCreate_def itxt split_conv option.case prod.case if_not_P [OF sev] Let_def inc_ident_def
    by simp
  show ?thesis by (rule that [OF eq]) (simp_all add: itxt)
qed

lemma AutoCreate_issued:
  assumes "issued (GetIncident s) inc_ident (im_seq m)"
    and "AutoCreate now now' ev (m, s, mx) = (r, m', s', mx')"
  shows "issued (GetIncident s') inc_ident (im_seq m')
    \<and> (\<forall>k w. GetIncident s k = Some w \<longrightarrow> GetIncident s' k = Some w)"
proof (cases "opens_incident ev")
  case False
  then show ?thesis using assms AutoCreate_None by simp
next
  case True
  obtain inc where "s' = AddIncident inc s" "m' = m\<lparr>im_seq := Suc (im_seq m)\<rparr>"
    "inc_IncidentID inc = inc_ident (Suc (im_seq m))"
    by (rule AutoCreate_Some [OF True, of now now' m s mx]) (use assms(2) in auto)
  then show ?thesis
    using incidents_tab.issued_put [OF assms(1)] incidents_tab.put_keeps [OF assms(1)] by simp
qed

lemma AutoCreate_frame:
  assumes "AutoCreate now now' ev (m, s, mx) = (r, m', s', mx')"
  shows "st_events s' = st_events s \<and> st_head s' = st_head s \<and> st_count s' = st_count s
    \<and> st_maxEvents s' = st_maxEvents s \<and> st_traces s' = st_traces s \<and> st_alerts s' = st_alerts s
    \<and> st_tokens s' = st_tokens s \<and> st_triggers s' = st_triggers s \<and> st_lineage s' = st_lineage s
    \<and> st_loginAudit s' = st_loginAudit s \<and> mx_ActiveAlerts mx' = mx_ActiveAlerts mx"
  using assms by (auto simp: AutoCreate_def AddIncident_def Let_def split: option.splits if_splits)

lemma Resolve_issued:
  assumes "issued (GetIncident s) inc_ident n" "Incident_Resolve now iid notes s = (r, s')"
    and key: "\<And>k inc. GetIncident s k = Some inc \<Longrightarrow> inc_IncidentID inc = k"
  shows "issued (GetIncident s') inc_ident n"
  using assms(1,2) key
  by (auto simp: Incident_Resolve_def issued_def UpdateIncident_def GetIncident_def Let_def
      split: option.splits if_splits)

subsection \<open>Properties\<close>

text \<open>
  C26: \<open>AutoCreate\<close> opens an incident exactly for honey-token events and for critical or
  error-level prompt injections and cross-tenant attempts. A new incident takes an id no
  incident has had, is stored open under it with the event's id, tenant and severity, and every
  earlier incident stays as it is; otherwise nothing changes.
\<close>

theorem incident_opened_iff:
  assumes "issued (GetIncident s) inc_ident (im_seq m)"
    and "AutoCreate now now' ev (m, s, mx) = (r, m', s', mx')"
  shows "(case r of
       None \<Rightarrow> \<not> opens_incident ev \<and> m' = m \<and> s' = s \<and> mx' = mx
     | Some inc \<Rightarrow> opens_incident ev \<and> GetIncident s (inc_IncidentID inc) = None
         \<and> GetIncident s' (inc_IncidentID inc) = Some inc \<and> inc_Status inc = IncidentOpen
         \<and> inc_EventIDs inc = [ev_EventID ev] \<and> inc_TenantID inc = ev_TenantID ev
         \<and> inc_Severity inc = ev_Severity ev)
     \<and> (GetIncident s k = Some old \<longrightarrow> GetIncident s' k = Some old)
     \<and> issued (GetIncident s') inc_ident (im_seq m')"
proof (cases "opens_incident ev")
  case False
  then show ?thesis using assms AutoCreate_None [OF False, of now now' m s mx] by auto
next
  case True
  obtain inc where eq: "AutoCreate now now' ev (m, s, mx) =
      (Some inc, m\<lparr>im_seq := Suc (im_seq m)\<rparr>, AddIncident inc s,
       mx\<lparr>mx_IncidentsCreated := vec_inc [ev_Severity ev] (mx_IncidentsCreated mx)\<rparr>)"
    and inc: "inc_IncidentID inc = inc_ident (Suc (im_seq m))" "inc_Status inc = IncidentOpen"
      "inc_EventIDs inc = [ev_EventID ev]" "inc_TenantID inc = ev_TenantID ev"
      "inc_Severity inc = ev_Severity ev"
    using AutoCreate_Some [OF True, of now now' m s mx] by metis
  have r: "r = Some inc" "s' = AddIncident inc s" using eq assms(2) by auto
  show ?thesis
    using AutoCreate_issued [OF assms] incidents_tab.next_fresh [OF assms(1)]
      incidents_tab.get_put_same [of inc s] True inc
    unfolding r by simp
qed

lemma incident_opened_iff_witness:
  "let ev = zero_event\<lparr>ev_EventID := ''e'', ev_EventType := ''honey_token_leaked''\<rparr>;
       (r, m', s', mx') = AutoCreate 5 6 ev (\<lparr>im_seq = 0\<rparr>, Store_New 4, zero_metrics)
   in map_option inc_IncidentID r = Some ''INC-0001'' \<and> GetIncident (Store_New 4) ''INC-0001'' = None"
proof -
  let ?ev = "zero_event\<lparr>ev_EventID := ''e'', ev_EventType := ''honey_token_leaked''\<rparr>"
  obtain r m' s' mx' where eq: "AutoCreate 5 6 ?ev (\<lparr>im_seq = 0\<rparr>, Store_New 4, zero_metrics) = (r, m', s', mx')"
    by (metis prod_cases4)
  have iss: "issued (GetIncident (Store_New 4)) inc_ident (im_seq \<lparr>im_seq = 0\<rparr>)"
    by (simp add: issued_def GetIncident_def Store_New_def Let_def)
  have "map_option inc_IncidentID (fst (AutoCreate 5 6 ?ev (\<lparr>im_seq = 0\<rparr>, Store_New 4, zero_metrics))) = Some ''INC-0001''"
    by code_simp
  then have "map_option inc_IncidentID r = Some ''INC-0001''" unfolding eq by simp
  then show ?thesis
    using incident_opened_iff [OF iss eq, of k old] by (auto simp: Let_def eq split: option.splits)
qed

end
