(* ===== verification/Alerts.thy ===== *)
theory Alerts
  imports Incidents
begin

text \<open>
  internal/alerts/manager.go: the condition language of alert rules, the firing of alerts
  for an event, and the lifecycle tick that resolves and escalates them. A goroutine started
  with \<open>go m.dispatch(rule, al)\<close> is a \<open>DispatchJob\<close> in the result: the rule and the alerts
  the goroutine may find in its argument when it runs. For a new alert that is the alert; in
  the tick the argument is the address of the loop variable, which Go 1.21 shares between the
  iterations (go.mod), so any later alert of the loop may be read.
\<close>

record AlertRule =
  ru_Name :: string
  ru_Condition :: string
  ru_Severity :: string
  ru_Channels :: "string list"
  ru_EscalateAfter :: string
  ru_AutoResolveAfter :: string

record AlertMgr =
  am_rules :: "AlertRule list"
  am_seq :: nat

record DispatchJob =
  dj_rule :: AlertRule
  dj_alerts :: "Alert list"

subsection \<open>Conditions\<close>

definition alert_matches :: "string \<Rightarrow> BastionEvent \<Rightarrow> bool" where
  "alert_matches cond ev =
     (case CutPrefix cond ''severity:'' of Some rest \<Rightarrow> ev_Severity ev = rest
      | None \<Rightarrow> (case CutPrefix cond ''status:'' of Some rest \<Rightarrow> ev_Status ev = rest
      | None \<Rightarrow> (case cut_at (CHR ''.'') cond of
          Some (m, evType) \<Rightarrow>
            (m = ''*'' \<or> m = ev_Module ev) \<and> (evType = ''*'' \<or> evType = ev_EventType ev)
        | None \<Rightarrow> cond = ev_EventType ev)))"

text \<open>The condition language as a datatype, and its concrete syntax.\<close>

datatype condition =
    BySeverity string
  | ByStatus string
  | ByField "string option" "string option"
  | ByType string

fun print_condition :: "condition \<Rightarrow> string" where
  "print_condition (BySeverity l) = ''severity:'' @ l"
| "print_condition (ByStatus st) = ''status:'' @ st"
| "print_condition (ByField m t) =
     (case m of None \<Rightarrow> ''*'' | Some x \<Rightarrow> x) @ ''.'' @ (case t of None \<Rightarrow> ''*'' | Some y \<Rightarrow> y)"
| "print_condition (ByType t) = t"

fun condition_holds :: "condition \<Rightarrow> BastionEvent \<Rightarrow> bool" where
  "condition_holds (BySeverity l) ev \<longleftrightarrow> ev_Severity ev = l"
| "condition_holds (ByStatus st) ev \<longleftrightarrow> ev_Status ev = st"
| "condition_holds (ByField m t) ev \<longleftrightarrow>
     (case m of None \<Rightarrow> True | Some x \<Rightarrow> ev_Module ev = x)
   \<and> (case t of None \<Rightarrow> True | Some y \<Rightarrow> ev_EventType ev = y)"
| "condition_holds (ByType t) ev \<longleftrightarrow> ev_EventType ev = t"

text \<open>Names that can be written in a condition: no dot and no colon, not the wildcard.\<close>

definition plain_name :: "string \<Rightarrow> bool" where
  "plain_name x \<longleftrightarrow> CHR ''.'' \<notin> set x \<and> CHR '':'' \<notin> set x \<and> x \<noteq> ''*''"

fun writable :: "condition \<Rightarrow> bool" where
  "writable (BySeverity l) = True"
| "writable (ByStatus st) = True"
| "writable (ByField m t) = ((case m of None \<Rightarrow> True | Some x \<Rightarrow> plain_name x)
     \<and> (case t of None \<Rightarrow> True | Some y \<Rightarrow> plain_name y))"
| "writable (ByType t) = plain_name t"

lemma no_colon_no_keyword:
  assumes "CHR '':'' \<notin> set x"
  shows "CutPrefix x ''severity:'' = None" and "CutPrefix x ''status:'' = None"
  using assms by (auto simp: CutPrefix_def prefix_def)

lemma status_not_severity: "CutPrefix (''status:'' @ r) ''severity:'' = None"
  by (simp add: CutPrefix_def)

lemma matches_severity: "alert_matches (''severity:'' @ l) ev \<longleftrightarrow> ev_Severity ev = l"
  unfolding alert_matches_def CutPrefix_append by simp

lemma matches_status: "alert_matches (''status:'' @ l) ev \<longleftrightarrow> ev_Status ev = l"
  unfolding alert_matches_def CutPrefix_append status_not_severity by simp

lemma matches_fields:
  assumes "CHR '':'' \<notin> set m" and "CHR ''.'' \<notin> set m" and "CHR '':'' \<notin> set t"
  shows "alert_matches (m @ ''.'' @ t) ev \<longleftrightarrow>
     (m = ''*'' \<or> m = ev_Module ev) \<and> (t = ''*'' \<or> t = ev_EventType ev)"
  using assms no_colon_no_keyword [of "m @ ''.'' @ t"] by (simp add: alert_matches_def)

lemma matches_bare:
  assumes "CHR '':'' \<notin> set t" and "CHR ''.'' \<notin> set t"
  shows "alert_matches t ev \<longleftrightarrow> ev_EventType ev = t"
proof -
  have "cut_at (CHR ''.'') t = None" using assms(2) by (simp add: cut_at_None)
  then show ?thesis using no_colon_no_keyword [OF assms(1)] by (auto simp: alert_matches_def)
qed

lemma matches_print:
  assumes "writable c"
  shows "alert_matches (print_condition c) ev \<longleftrightarrow> condition_holds c ev"
proof (cases c)
  case (ByField m t)
  let ?m = "case m of None \<Rightarrow> ''*'' | Some x \<Rightarrow> x" and ?t = "case t of None \<Rightarrow> ''*'' | Some y \<Rightarrow> y"
  have p: "print_condition c = ?m @ ''.'' @ ?t" by (simp add: ByField)
  have "CHR '':'' \<notin> set ?m" "CHR ''.'' \<notin> set ?m" "CHR '':'' \<notin> set ?t"
    using assms ByField by (auto simp: plain_name_def split: option.splits)
  then have "alert_matches (print_condition c) ev \<longleftrightarrow>
     (?m = ''*'' \<or> ?m = ev_Module ev) \<and> (?t = ''*'' \<or> ?t = ev_EventType ev)"
    unfolding p by (rule matches_fields)
  then show ?thesis using assms ByField by (auto simp: plain_name_def split: option.splits)
next
  case (BySeverity l)
  show ?thesis unfolding BySeverity print_condition.simps condition_holds.simps by (rule matches_severity)
next
  case (ByStatus l)
  show ?thesis unfolding ByStatus print_condition.simps condition_holds.simps by (rule matches_status)
next
  case (ByType t)
  then show ?thesis using assms by (simp add: plain_name_def matches_bare)
qed

subsection \<open>Firing\<close>

text \<open>
  \<open>%q\<close> (strconv.Quote): quotes, backslashes and control characters are escaped. Bytes above
  127 are taken to belong to printable characters, which Go leaves as they are.
\<close>

definition hex_digit :: "nat \<Rightarrow> char" where
  "hex_digit n = char_of (if n < 10 then 48 + n else 87 + n)"

definition quote_char :: "char \<Rightarrow> string" where
  "quote_char c =
     (let n = (of_char c :: nat)
      in if n = 34 \<or> n = 92 then [CHR 0x5C, c]
         else if n = 7 then [CHR 0x5C, CHR ''a'']
         else if n = 8 then [CHR 0x5C, CHR ''b'']
         else if n = 9 then [CHR 0x5C, CHR ''t'']
         else if n = 10 then [CHR 0x5C, CHR ''n'']
         else if n = 11 then [CHR 0x5C, CHR ''v'']
         else if n = 12 then [CHR 0x5C, CHR ''f'']
         else if n = 13 then [CHR 0x5C, CHR ''r'']
         else if n < 32 \<or> n = 127 then [CHR 0x5C, CHR ''x'', hex_digit (n div 16), hex_digit (n mod 16)]
         else [c])"

definition go_quote :: "string \<Rightarrow> string" where
  "go_quote s = [CHR 0x22] @ concat (map quote_char s) @ [CHR 0x22]"

definition alert_message :: "AlertRule \<Rightarrow> BastionEvent \<Rightarrow> string" where
  "alert_message rule ev =
     ''Rule '' @ go_quote (ru_Name rule) @ '' matched '' @ ev_Module ev @ ''.'' @ ev_EventType ev
       @ '' (tenant='' @ ev_TenantID ev @ '')''"

text \<open>
  One iteration of \<open>Evaluate\<close>. \<open>clk n\<close> is the clock reading for the alert with number
  \<open>n\<close>. The state of the loop: manager, store, metrics, the alerts fired so far and the
  goroutines started.
\<close>

type_synonym eval_state = "AlertMgr \<times> Store \<times> Metrics \<times> Alert list \<times> DispatchJob list"

definition new_alert :: "gotime \<Rightarrow> nat \<Rightarrow> BastionEvent \<Rightarrow> AlertRule \<Rightarrow> Alert" where
  "new_alert now n ev rule =
     \<lparr>al_AlertID = ''ALT-'' @ pad04 n, al_RuleName = ru_Name rule, al_Severity = ru_Severity rule,
      al_Status = AlertFiring, al_Message = alert_message rule ev, al_Module = ev_Module ev,
      al_TenantID = ev_TenantID ev, al_FiredAt = now, al_AckedAt = None, al_ResolvedAt = None,
      al_EscalatedAt = None\<rparr>"

definition eval_rule :: "(nat \<Rightarrow> gotime) \<Rightarrow> BastionEvent \<Rightarrow> AlertRule \<Rightarrow> eval_state \<Rightarrow> eval_state" where
  "eval_rule clk ev rule = (\<lambda>(m, s, mx, fired, jobs).
     if \<not> alert_matches (ru_Condition rule) ev then (m, s, mx, fired, jobs)
     else let m' = m\<lparr>am_seq := am_seq m + 1\<rparr>;
              al = new_alert (clk (am_seq m')) (am_seq m') ev rule;
              mx' = mx\<lparr>mx_AlertsFired := vec_inc [ru_Name rule, ru_Severity rule] (mx_AlertsFired mx),
                       mx_ActiveAlerts := mx_ActiveAlerts mx + 1\<rparr>
          in (m', AddAlert al s, mx', fired @ [al],
              if length (ru_Channels rule) > 0 then jobs @ [\<lparr>dj_rule = rule, dj_alerts = [al]\<rparr>] else jobs))"

definition Evaluate :: "(nat \<Rightarrow> gotime) \<Rightarrow> BastionEvent \<Rightarrow> AlertMgr \<times> Store \<times> Metrics \<Rightarrow> eval_state" where
  "Evaluate clk ev = (\<lambda>(m, s, mx). fold (eval_rule clk ev) (am_rules m) (m, s, mx, [], []))"

text \<open>\<open>dispatch\<close>: the notifier calls, channel by channel; unknown channels are skipped.\<close>

definition alert_dispatch :: "string set \<Rightarrow> AlertRule \<Rightarrow> Alert \<Rightarrow> (string \<times> string \<times> string \<times> string) list" where
  "alert_dispatch notifiers rule al =
     map (\<lambda>ch. (ch, al_RuleName al, al_Message al, al_Severity al))
       (filter (\<lambda>ch. ch \<in> notifiers) (ru_Channels rule))"

text \<open>
  \<open>alerts_inv n s\<close>: the alert table is keyed by identifier, and its identifiers are among
  the first \<open>n\<close> numbers.
\<close>

definition alerts_inv :: "nat \<Rightarrow> Store \<Rightarrow> bool" where
  "alerts_inv n s \<longleftrightarrow> map_ok (st_alerts s) \<and> issued (GetAlert s) alt_ident n
     \<and> (\<forall>k al. GetAlert s k = Some al \<longrightarrow> al_AlertID al = k)"

lemma alerts_inv_New: "alerts_inv 0 (Store_New n)"
  by (simp add: alerts_inv_def issued_def GetAlert_def Store_New_def Let_def)

lemma alerts_inv_AddAlert:
  "alerts_inv n s \<Longrightarrow> al_AlertID al = alt_ident (Suc n) \<Longrightarrow> alerts_inv (Suc n) (AddAlert al s)"
  by (auto simp: alerts_inv_def alerts_tab.get_put alert_ops_map_ok intro: alerts_tab.issued_put)

text \<open>The alerts a list of rules fires, starting after number \<open>n\<close>.\<close>

fun fired_alerts :: "(nat \<Rightarrow> gotime) \<Rightarrow> BastionEvent \<Rightarrow> nat \<Rightarrow> AlertRule list \<Rightarrow> Alert list" where
  "fired_alerts clk ev n [] = []"
| "fired_alerts clk ev n (r # rs) =
     (if alert_matches (ru_Condition r) ev
      then new_alert (clk (Suc n)) (Suc n) ev r # fired_alerts clk ev (Suc n) rs
      else fired_alerts clk ev n rs)"

lemma length_fired: "length (fired_alerts clk ev n rs) = length (filter (\<lambda>r. alert_matches (ru_Condition r) ev) rs)"
  by (induction rs arbitrary: n) auto

lemma fired_rules: "map al_RuleName (fired_alerts clk ev n rs) =
    map ru_Name (filter (\<lambda>r. alert_matches (ru_Condition r) ev) rs)"
  by (induction rs arbitrary: n) (auto simp: new_alert_def)

lemma fired_ids: "map al_AlertID (fired_alerts clk ev n rs) =
    map alt_ident [Suc n..<Suc n + length (fired_alerts clk ev n rs)]"
proof (induction rs arbitrary: n)
  case (Cons r rs)
  show ?case
    using Cons [of n] Cons [of "Suc n"]
    by (auto simp: new_alert_def alt_ident_def upt_conv_Cons simp del: upt_Suc)
qed simp

lemma fired_firing: "al \<in> set (fired_alerts clk ev n rs) \<Longrightarrow> al_Status al = AlertFiring"
  by (induction rs arbitrary: n) (auto simp: new_alert_def split: if_splits)

text \<open>The loop: what it fires is what it stores, and the gauge counts it.\<close>

lemma eval_fold:
  "fold (eval_rule clk ev) rs (m, s, mx, fired, jobs) = (m', s', mx', fired', jobs') \<Longrightarrow>
     fired' = fired @ fired_alerts clk ev (am_seq m) rs
   \<and> am_seq m' = am_seq m + length (fired_alerts clk ev (am_seq m) rs)
   \<and> am_rules m' = am_rules m
   \<and> s' = fold AddAlert (fired_alerts clk ev (am_seq m) rs) s
   \<and> mx_ActiveAlerts mx' = mx_ActiveAlerts mx + int (length (fired_alerts clk ev (am_seq m) rs))"
proof (induction rs arbitrary: m s mx fired jobs)
  case Nil
  then show ?case by simp
next
  case (Cons r rs)
  show ?case
  proof (cases "alert_matches (ru_Condition r) ev")
    case True
    obtain m1 s1 mx1 f1 j1 where step: "eval_rule clk ev r (m, s, mx, fired, jobs) = (m1, s1, mx1, f1, j1)"
      by (metis prod_cases5)
    have rest: "fold (eval_rule clk ev) rs (m1, s1, mx1, f1, j1) = (m', s', mx', fired', jobs')"
      using Cons.prems step by simp
    have "am_seq m1 = Suc (am_seq m)" "am_rules m1 = am_rules m"
      "s1 = AddAlert (new_alert (clk (Suc (am_seq m))) (Suc (am_seq m)) ev r) s"
      "f1 = fired @ [new_alert (clk (Suc (am_seq m))) (Suc (am_seq m)) ev r]"
      "mx_ActiveAlerts mx1 = mx_ActiveAlerts mx + 1"
      using step True by (auto simp: eval_rule_def Let_def)
    then show ?thesis using Cons.IH [OF rest] True by simp
  next
    case False
    then have "eval_rule clk ev r (m, s, mx, fired, jobs) = (m, s, mx, fired, jobs)"
      by (simp add: eval_rule_def)
    then show ?thesis using Cons.IH [of m s mx fired jobs] Cons.prems False by simp
  qed
qed

lemma fold_AddAlert_frame:
  "st_events (fold AddAlert als s) = st_events s \<and> st_head (fold AddAlert als s) = st_head s
   \<and> st_count (fold AddAlert als s) = st_count s \<and> st_maxEvents (fold AddAlert als s) = st_maxEvents s
   \<and> st_traces (fold AddAlert als s) = st_traces s \<and> st_incidents (fold AddAlert als s) = st_incidents s
   \<and> st_tokens (fold AddAlert als s) = st_tokens s \<and> st_triggers (fold AddAlert als s) = st_triggers s
   \<and> st_lineage (fold AddAlert als s) = st_lineage s \<and> st_loginAudit (fold AddAlert als s) = st_loginAudit s"
  by (induction als arbitrary: s) (simp_all add: AddAlert_def)

lemma stores_fired:
  assumes "alerts_inv n s"
  shows "alerts_inv (n + length (fired_alerts clk ev n rs)) (fold AddAlert (fired_alerts clk ev n rs) s)
    \<and> (\<forall>k. GetAlert (fold AddAlert (fired_alerts clk ev n rs) s) k =
         (case List.find (\<lambda>al. al_AlertID al = k) (fired_alerts clk ev n rs) of
            Some al \<Rightarrow> Some al | None \<Rightarrow> GetAlert s k))"
  using assms
proof (induction rs arbitrary: n s)
  case Nil
  then show ?case by simp
next
  case (Cons r rs)
  show ?case
  proof (cases "alert_matches (ru_Condition r) ev")
    case True
    let ?al = "new_alert (clk (Suc n)) (Suc n) ev r"
    have id: "al_AlertID ?al = alt_ident (Suc n)" by (simp add: new_alert_def alt_ident_def)
    have later: "List.find (\<lambda>al. al_AlertID al = alt_ident (Suc n)) (fired_alerts clk ev (Suc n) rs) = None"
    proof -
      have "alt_ident (Suc n) \<notin> set (map al_AlertID (fired_alerts clk ev (Suc n) rs))"
        unfolding fired_ids by (auto simp: alt_ident_def)
      then show ?thesis unfolding find_None_iff by (force simp: image_iff)
    qed
    show ?thesis
      using Cons.IH [OF alerts_inv_AddAlert [OF Cons.prems id]] True later id
      by (auto simp: alerts_tab.get_put split: option.splits)
  next
    case False
    then show ?thesis using Cons.IH [OF Cons.prems] by simp
  qed
qed

subsection \<open>The lifecycle tick\<close>

definition ruleByName :: "AlertRule list \<Rightarrow> string \<Rightarrow> AlertRule option" where
  "ruleByName rules name = List.find (\<lambda>r. ru_Name r = name) rules"

text \<open>\<open>after\<close> is set, parses as a duration, and has passed since the alert fired.\<close>

definition due :: "gotime \<Rightarrow> gotime \<Rightarrow> string \<Rightarrow> bool" where
  "due now firedAt after \<longleftrightarrow> after \<noteq> [] \<and>
     (case ParseDuration after of None \<Rightarrow> False | Some d \<Rightarrow> time_Sub now firedAt \<ge> d)"

text \<open>
  The loop of \<open>runLifecycleTick\<close> over the snapshot of firing alerts; \<open>clk id\<close> is the clock
  reading of the store when it updates alert \<open>id\<close>. An alert that is past its
  auto-resolve time is never escalated in the same tick.
\<close>

fun tick_loop ::
    "AlertRule list \<Rightarrow> gotime \<Rightarrow> (string \<Rightarrow> gotime) \<Rightarrow> Alert list \<Rightarrow> Store \<times> Metrics \<Rightarrow> Store \<times> Metrics \<times> DispatchJob list" where
  "tick_loop rules now clk [] (s, mx) = (s, mx, [])"
| "tick_loop rules now clk (al # als) (s, mx) =
     (case ruleByName rules (al_RuleName al) of
        None \<Rightarrow> tick_loop rules now clk als (s, mx)
      | Some rule \<Rightarrow>
          if due now (al_FiredAt al) (ru_AutoResolveAfter rule) then
            (let (s', ok) = ResolveAlert (clk (al_AlertID al)) (al_AlertID al) s
             in tick_loop rules now clk als
                  (s', if ok then mx\<lparr>mx_ActiveAlerts := mx_ActiveAlerts mx - 1\<rparr> else mx))
          else if al_EscalatedAt al = None \<and> due now (al_FiredAt al) (ru_EscalateAfter rule) then
            (let (s', ok) = EscalateAlert (clk (al_AlertID al)) (al_AlertID al) s;
                 (s2, mx2, jobs) = tick_loop rules now clk als (s', mx)
             in (s2, mx2, if ok \<and> length (ru_Channels rule) > 0
                          then \<lparr>dj_rule = rule, dj_alerts = al # als\<rparr> # jobs else jobs))
          else tick_loop rules now clk als (s, mx))"

definition runLifecycleTick ::
    "((string, Alert) gomap \<Rightarrow> (string, Alert) gomap) \<Rightarrow> gotime \<Rightarrow> (string \<Rightarrow> gotime) \<Rightarrow> AlertMgr
       \<Rightarrow> Store \<times> Metrics \<Rightarrow> Store \<times> Metrics \<times> DispatchJob list" where
  "runLifecycleTick ord now clk m = (\<lambda>(s, mx).
     tick_loop (am_rules m) now clk (ListAlerts ord s (AlertStatus_str AlertFiring)) (s, mx))"

text \<open>What a tick does to one alert.\<close>

definition tick_alert :: "AlertRule list \<Rightarrow> gotime \<Rightarrow> (string \<Rightarrow> gotime) \<Rightarrow> Alert \<Rightarrow> Alert" where
  "tick_alert rules now clk al =
     (case ruleByName rules (al_RuleName al) of
        None \<Rightarrow> al
      | Some rule \<Rightarrow>
          if al_Status al \<noteq> AlertFiring then al
          else if due now (al_FiredAt al) (ru_AutoResolveAfter rule)
          then al\<lparr>al_Status := AlertResolved, al_ResolvedAt := Some (clk (al_AlertID al))\<rparr>
          else if al_EscalatedAt al = None \<and> due now (al_FiredAt al) (ru_EscalateAfter rule)
          then al\<lparr>al_EscalatedAt := Some (clk (al_AlertID al)), al_Severity := ''critical''\<rparr>
          else al)"

lemma tick_alert_id [simp]: "al_AlertID (tick_alert rules now clk al) = al_AlertID al"
  by (simp add: tick_alert_def split: option.split)

lemma tick_alert_idle: "al_Status al \<noteq> AlertFiring \<Longrightarrow> tick_alert rules now clk al = al"
  by (simp add: tick_alert_def split: option.split)

lemma tick_alert_status: "al_Status al \<le> al_Status (tick_alert rules now clk al)"
  by (auto simp: tick_alert_def less_eq_AlertStatus_def split: option.split)

definition resolved_by_tick :: "AlertRule list \<Rightarrow> gotime \<Rightarrow> Alert \<Rightarrow> bool" where
  "resolved_by_tick rules now al \<longleftrightarrow>
     (case ruleByName rules (al_RuleName al) of None \<Rightarrow> False
      | Some rule \<Rightarrow> due now (al_FiredAt al) (ru_AutoResolveAfter rule))"

definition snapshot_ok :: "Store \<Rightarrow> Alert list \<Rightarrow> bool" where
  "snapshot_ok s als \<longleftrightarrow> distinct (map al_AlertID als)
     \<and> (\<forall>al \<in> set als. GetAlert s (al_AlertID al) = Some al \<and> al_Status al = AlertFiring)"

text \<open>One iteration: the alert at the head becomes \<open>tick_alert\<close> of itself, no other changes.\<close>

lemma tick_loop_step:
  assumes "snapshot_ok s (al # als)"
  obtains s1 mx1 where
    "fst (tick_loop rules now clk (al # als) (s, mx)) = fst (tick_loop rules now clk als (s1, mx1))"
    "fst (snd (tick_loop rules now clk (al # als) (s, mx))) = fst (snd (tick_loop rules now clk als (s1, mx1)))"
    "\<And>k. GetAlert s1 k = (if k = al_AlertID al then Some (tick_alert rules now clk al) else GetAlert s k)"
    "mx_ActiveAlerts mx1 = mx_ActiveAlerts mx - (if resolved_by_tick rules now al then 1 else 0)"
proof (cases "ruleByName rules (al_RuleName al)")
  case None
  then show ?thesis using assms that [of s mx]
    by (auto simp: snapshot_ok_def tick_alert_def resolved_by_tick_def)
next
  case (Some rule)
  have get: "GetAlert s (al_AlertID al) = Some al" and st: "al_Status al = AlertFiring"
    using assms by (simp_all add: snapshot_ok_def)
  consider (res) "due now (al_FiredAt al) (ru_AutoResolveAfter rule)"
    | (esc) "\<not> due now (al_FiredAt al) (ru_AutoResolveAfter rule)"
        "al_EscalatedAt al = None \<and> due now (al_FiredAt al) (ru_EscalateAfter rule)"
    | (none) "\<not> due now (al_FiredAt al) (ru_AutoResolveAfter rule)"
        "\<not> (al_EscalatedAt al = None \<and> due now (al_FiredAt al) (ru_EscalateAfter rule))"
    by blast
  then show ?thesis
  proof cases
    case res
    show ?thesis
      by (rule that [of "fst (ResolveAlert (clk (al_AlertID al)) (al_AlertID al) s)"
            "mx\<lparr>mx_ActiveAlerts := mx_ActiveAlerts mx - 1\<rparr>"])
        (use Some res get st alert_ops_ok(2) [of "clk (al_AlertID al)" "al_AlertID al" s] in
          \<open>auto simp: alert_ops_get tick_alert_def resolved_by_tick_def split: prod.split\<close>)
  next
    case esc
    show ?thesis
      by (rule that [of "fst (EscalateAlert (clk (al_AlertID al)) (al_AlertID al) s)" mx])
        (use Some esc get st in
          \<open>auto simp: alert_ops_get tick_alert_def resolved_by_tick_def split: prod.split\<close>)
  next
    case none
    show ?thesis
      by (rule that [of s mx])
        (use Some none get st in \<open>auto simp: tick_alert_def resolved_by_tick_def\<close>)
  qed
qed

lemma tick_loop_get:
  "snapshot_ok s als \<Longrightarrow>
     GetAlert (fst (tick_loop rules now clk als (s, mx))) k =
       (if k \<in> al_AlertID ` set als then map_option (tick_alert rules now clk) (GetAlert s k) else GetAlert s k)
   \<and> mx_ActiveAlerts (fst (snd (tick_loop rules now clk als (s, mx)))) =
       mx_ActiveAlerts mx - int (length (filter (resolved_by_tick rules now) als))"
proof (induction als arbitrary: s mx)
  case Nil
  then show ?case by simp
next
  case (Cons al als)
  obtain s1 mx1 where step:
    "fst (tick_loop rules now clk (al # als) (s, mx)) = fst (tick_loop rules now clk als (s1, mx1))"
    "fst (snd (tick_loop rules now clk (al # als) (s, mx))) = fst (snd (tick_loop rules now clk als (s1, mx1)))"
    and g: "\<And>k. GetAlert s1 k = (if k = al_AlertID al then Some (tick_alert rules now clk al) else GetAlert s k)"
    and mx1: "mx_ActiveAlerts mx1 = mx_ActiveAlerts mx - (if resolved_by_tick rules now al then 1 else 0)"
    using tick_loop_step [OF Cons.prems, of rules now clk mx] by blast
  have dist: "distinct (map al_AlertID als)" "al_AlertID al \<notin> al_AlertID ` set als"
    and get: "\<And>a. a \<in> set als \<Longrightarrow> GetAlert s (al_AlertID a) = Some a \<and> al_Status a = AlertFiring"
    and hd: "GetAlert s (al_AlertID al) = Some al"
    using Cons.prems by (simp_all add: snapshot_ok_def)
  have "al_AlertID a \<noteq> al_AlertID al" if "a \<in> set als" for a using dist(2) that by (metis imageI)
  then have ok: "snapshot_ok s1 als" using dist(1) get by (simp add: snapshot_ok_def g)
  show ?case
    unfolding step Cons.IH [OF ok, of mx1, THEN conjunct1] Cons.IH [OF ok, of mx1, THEN conjunct2] mx1 g
    using dist(2) hd by simp
qed

lemma range_order_distinct:
  assumes ord: "range_order ord" and mo: "map_ok m"
  shows "distinct (map fst (ord m))"
  by (metis mo range_order_mset [OF ord] mset_map mset_eq_imp_distinct_iff)

lemma snapshot_ListAlerts:
  assumes ord: "range_order ord" and inv: "alerts_inv n s"
  shows "snapshot_ok s (ListAlerts ord s (AlertStatus_str AlertFiring))"
    and "set (ListAlerts ord s (AlertStatus_str AlertFiring)) =
      {al. GetAlert s (al_AlertID al) = Some al \<and> al_Status al = AlertFiring}"
proof -
  let ?L = "ListAlerts ord s (AlertStatus_str AlertFiring)"
  have mo: "map_ok (st_alerts s)" and key: "\<And>k al. GetAlert s k = Some al \<Longrightarrow> al_AlertID al = k"
    using inv by (simp_all add: alerts_inv_def)
  have eq: "GetAlert s k = Some al \<longleftrightarrow> k = al_AlertID al \<and> GetAlert s (al_AlertID al) = Some al" for k al
    using key by blast
  show set: "set ?L = {al. GetAlert s (al_AlertID al) = Some al \<and> al_Status al = AlertFiring}"
    unfolding ListAlerts_set [OF ord mo] AlertStatus_str_inject using eq AlertStatus_str_nonempty by blast
  have "\<forall>p \<in> set (ord (st_alerts s)). al_AlertID (snd p) = fst p"
    using mo key by (auto simp: range_order_set [OF ord] GetAlert_def)
  then have ids: "map al_AlertID (map snd (ord (st_alerts s))) = map fst (ord (st_alerts s))"
    by simp
  have "distinct (map al_AlertID (map snd (ord (st_alerts s))))"
    unfolding ids by (rule range_order_distinct [OF ord mo])
  then have "distinct (map al_AlertID ?L)"
    unfolding ListAlerts_def by (rule distinct_map_filter)
  then show "snapshot_ok s ?L"
    unfolding snapshot_ok_def set by simp
qed

lemma tick_get:
  assumes "range_order ord" and "alerts_inv n s"
  shows "GetAlert (fst (runLifecycleTick ord now clk m (s, mx))) k =
    map_option (tick_alert (am_rules m) now clk) (GetAlert s k)"
proof -
  let ?L = "ListAlerts ord s (AlertStatus_str AlertFiring)"
  have get: "GetAlert (fst (runLifecycleTick ord now clk m (s, mx))) k =
      (if k \<in> al_AlertID ` set ?L then map_option (tick_alert (am_rules m) now clk) (GetAlert s k)
       else GetAlert s k)"
    unfolding runLifecycleTick_def split_conv
    using tick_loop_get [OF snapshot_ListAlerts(1) [OF assms], of "am_rules m" now clk mx k] by (rule conjunct1)
  show ?thesis
  proof (cases "GetAlert s k")
    case None
    then show ?thesis unfolding get by simp
  next
    case (Some al)
    then have id: "al_AlertID al = k" using assms(2) by (simp add: alerts_inv_def)
    have mem: "k \<in> al_AlertID ` set ?L \<longleftrightarrow> al_Status al = AlertFiring"
      unfolding snapshot_ListAlerts(2) [OF assms] image_iff using Some id
      by (metis (mono_tags, lifting) mem_Collect_eq option.inject)
    show ?thesis unfolding get Some mem option.map using tick_alert_idle [of al "am_rules m" now clk]
      by (simp only: split: if_split) simp
  qed
qed

lemma tick_gauge:
  assumes "range_order ord" and "alerts_inv n s"
  shows "mx_ActiveAlerts (fst (snd (runLifecycleTick ord now clk m (s, mx)))) =
    mx_ActiveAlerts mx -
      int (length (filter (resolved_by_tick (am_rules m) now) (ListAlerts ord s (AlertStatus_str AlertFiring))))"
  unfolding runLifecycleTick_def split_conv
  using tick_loop_get [OF snapshot_ListAlerts(1) [OF assms], of "am_rules m" now clk mx] by blast

subsection \<open>Properties\<close>

lemma find_key: "distinct (map f xs) \<Longrightarrow> x \<in> set xs \<Longrightarrow> List.find (\<lambda>y. f y = f x) xs = Some x"
  by (induction xs) (auto simp: image_iff)

text \<open>
  The condition language means what it says. For every condition that can be written
  down (severity, status, module and event type with wildcards, bare event type), matching its
  text against an event decides exactly that condition.
\<close>

theorem condition_language:
  assumes "writable c"
  shows "alert_matches (print_condition c) ev \<longleftrightarrow> condition_holds c ev"
  by (rule matches_print [OF assms])

lemma condition_language_witness:
  "alert_matches ''*.prompt_injection'' (zero_event\<lparr>ev_Module := ''sentinel'', ev_EventType := ''prompt_injection''\<rparr>)"
proof -
  have "writable (ByField None (Some ''prompt_injection''))" by code_simp
  note condition_language [OF this, of "zero_event\<lparr>ev_Module := ''sentinel'', ev_EventType := ''prompt_injection''\<rparr>"]
  moreover have "print_condition (ByField None (Some ''prompt_injection'')) = ''*.prompt_injection''" by simp
  ultimately show ?thesis by (simp only: condition_holds.simps) simp
qed

text \<open>
  C23: \<open>Evaluate\<close> fires one alert for every rule whose condition the event matches, in the
  order of the rules, and none otherwise. Each is stored, firing, under an id no alert has had;
  every earlier alert stays as it is; the active-alerts gauge grows by the number fired.
\<close>

theorem evaluate_fires_matching_rules:
  assumes "alerts_inv (am_seq m) s" and "Evaluate clk ev (m, s, mx) = (m', s', mx', fired, jobs)"
  shows "map al_RuleName fired = map ru_Name (filter (\<lambda>r. alert_matches (ru_Condition r) ev) (am_rules m))
    \<and> distinct (map al_AlertID fired)
    \<and> list_all (\<lambda>al. al_Status al = AlertFiring \<and> GetAlert s (al_AlertID al) = None
        \<and> GetAlert s' (al_AlertID al) = Some al) fired
    \<and> (GetAlert s k = Some old \<longrightarrow> GetAlert s' k = Some old)
    \<and> mx_ActiveAlerts mx' = mx_ActiveAlerts mx + int (length fired)
    \<and> alerts_inv (am_seq m') s'"
proof -
  let ?F = "fired_alerts clk ev (am_seq m) (am_rules m)"
  have run: "fired = ?F" "am_seq m' = am_seq m + length ?F" "s' = fold AddAlert ?F s"
    "mx_ActiveAlerts mx' = mx_ActiveAlerts mx + int (length ?F)"
    using eval_fold [OF assms(2) [unfolded Evaluate_def split_conv]] by simp_all
  have get: "alerts_inv (am_seq m + length ?F) s'"
    "\<And>k. GetAlert s' k = (case List.find (\<lambda>al. al_AlertID al = k) ?F of Some al \<Rightarrow> Some al | None \<Rightarrow> GetAlert s k)"
    unfolding run using stores_fired [OF assms(1)] by blast+
  have ids: "map al_AlertID ?F = map alt_ident [Suc (am_seq m)..<Suc (am_seq m) + length ?F]" by (rule fired_ids)
  have "inj alt_ident" by (simp add: inj_def alt_ident_def)
  then have dist: "distinct (map al_AlertID ?F)"
    unfolding ids by (simp add: distinct_map inj_on_subset)
  have fresh: "GetAlert s (al_AlertID al) = None" if "al \<in> set ?F" for al
  proof -
    have "al_AlertID al \<in> set (map al_AlertID ?F)" using that by simp
    then obtain i where "Suc (am_seq m) \<le> i" "al_AlertID al = alt_ident i" unfolding ids by (auto simp del: upt_Suc)
    then show ?thesis using assms(1) by (auto simp: alerts_inv_def issued_def alt_ident_def)
  qed
  have found: "List.find (\<lambda>x. al_AlertID x = al_AlertID al) ?F = Some al" if "al \<in> set ?F" for al
    by (rule find_key [OF dist that])
  have kept: "GetAlert s' k = Some old" if "GetAlert s k = Some old"
  proof (cases "List.find (\<lambda>al. al_AlertID al = k) ?F")
    case (Some al)
    then have "al \<in> set ?F" "al_AlertID al = k" by (auto simp: find_Some_iff)
    then show ?thesis using fresh [of al] that by simp
  qed (simp add: get(2) that)
  have stored: "GetAlert s' (al_AlertID al) = Some al" if "al \<in> set ?F" for al
    unfolding get(2) found [OF that] by simp
  show ?thesis
    using get(1) dist fresh kept stored fired_firing [of _ clk ev "am_seq m" "am_rules m"]
    unfolding run list_all_iff by (simp add: fired_rules)
qed

text \<open>
  C24: the lifecycle tick treats every alert by its own rule, whatever order the map is iterated
  in. A firing alert past its auto-resolve time becomes resolved; otherwise one past its
  escalation time that was not escalated yet becomes critical and is marked escalated; every
  other alert stays as it is. The gauge drops by the number resolved.
\<close>

theorem lifecycle_tick_effect:
  assumes "range_order ord" and "alerts_inv n s"
  shows "GetAlert (fst (runLifecycleTick ord now clk m (s, mx))) k =
      map_option (tick_alert (am_rules m) now clk) (GetAlert s k)
    \<and> mx_ActiveAlerts (fst (snd (runLifecycleTick ord now clk m (s, mx)))) =
      mx_ActiveAlerts mx -
        int (length (filter (resolved_by_tick (am_rules m) now) (ListAlerts ord s ''firing'')))"
  using tick_get [OF assms] tick_gauge [OF assms, of now clk m mx] by simp

text \<open>
  An alert's status only moves forward, firing to acknowledged to resolved, except by
  \<open>AcknowledgeAlert\<close>, which has no guard: escalation and the tick never lower it, resolving
  raises it to resolved, and acknowledging a resolved alert takes it back to acknowledged.
\<close>

theorem alert_status_monotone:
  assumes "GetAlert s k = Some al"
  shows "al_Status al \<le> al_Status (tick_alert rules now clk al)
    \<and> map_option al_Status (GetAlert (fst (ResolveAlert now aid s)) k)
        = Some (if k = aid then AlertResolved else al_Status al)
    \<and> map_option al_Status (GetAlert (fst (EscalateAlert now aid s)) k) = Some (al_Status al)
    \<and> map_option al_Status (GetAlert (fst (AcknowledgeAlert now aid s)) k)
        = Some (if k = aid then AlertAcknowledged else al_Status al)"
  using assms tick_alert_status [of al rules now clk] by (cases "k = aid") (auto simp: alert_ops_get)

definition demo_rule :: AlertRule where
  "demo_rule = \<lparr>ru_Name = ''r'', ru_Condition = ''severity:critical'', ru_Severity = ''error'',
     ru_Channels = [''slack''], ru_EscalateAfter = ''5m'', ru_AutoResolveAfter = ''1h''\<rparr>"

definition demo_alerts :: eval_state where
  "demo_alerts = Evaluate (\<lambda>i. 0) (zero_event\<lparr>ev_Severity := ''critical''\<rparr>)
     (\<lparr>am_rules = [demo_rule], am_seq = 0\<rparr>, Store_New 2, zero_metrics)"

lemma evaluate_fires_witness:
  "map al_RuleName (fst (snd (snd (snd demo_alerts)))) = [''r'']
   \<and> alerts_inv 1 (fst (snd demo_alerts))"
proof -
  obtain m s mx fired jobs where run: "demo_alerts = (m, s, mx, fired, jobs)" by (metis prod_cases5)
  have "filter (\<lambda>r. alert_matches (ru_Condition r) (zero_event\<lparr>ev_Severity := ''critical''\<rparr>)) [demo_rule] = [demo_rule]"
    by code_simp
  moreover have "am_seq (fst demo_alerts) = 1" by code_simp
  moreover have inv: "alerts_inv (am_seq \<lparr>am_rules = [demo_rule], am_seq = 0\<rparr>) (Store_New 2)"
    by (simp add: alerts_inv_New)
  note evaluate_fires_matching_rules [OF inv run [unfolded demo_alerts_def]]
  ultimately show ?thesis by (simp add: run) (simp add: demo_rule_def)
qed

lemma lifecycle_tick_witness:
  "case demo_alerts of (m, s, mx, fired, jobs) \<Rightarrow>
     map_option al_Status (GetAlert (fst (runLifecycleTick rev (2 * Hour) (\<lambda>i. 0) m (s, mx))) ''ALT-0001'')
       = Some AlertResolved"
proof -
  obtain m s mx fired jobs where run: "demo_alerts = (m, s, mx, fired, jobs)" by (metis prod_cases5)
  have "alerts_inv (am_seq \<lparr>am_rules = [demo_rule], am_seq = 0\<rparr> + length (fired_alerts (\<lambda>i. 0)
      (zero_event\<lparr>ev_Severity := ''critical''\<rparr>) 0 [demo_rule])) s"
    using eval_fold [OF run [unfolded demo_alerts_def Evaluate_def split_conv]]
      stores_fired [OF alerts_inv_New [of 2], of "\<lambda>i. 0" "zero_event\<lparr>ev_Severity := ''critical''\<rparr>" "[demo_rule]"]
    by simp
  note tick = lifecycle_tick_effect [OF range_order_rev this, of "2 * Hour" "\<lambda>i. 0" m mx "''ALT-0001''", THEN conjunct1]
  have "map_option al_Status (map_option (tick_alert (am_rules (fst demo_alerts)) (2 * Hour) (\<lambda>i. 0))
     (GetAlert (fst (snd demo_alerts)) ''ALT-0001'')) = Some AlertResolved" by code_simp
  then show ?thesis using tick by (simp add: run)
qed

lemma alert_status_witness:
  "map_option al_Status (GetAlert (fst (AcknowledgeAlert 9 ''ALT-0001''
     (fst (ResolveAlert 8 ''ALT-0001'' (fst (snd demo_alerts)))))) ''ALT-0001'') = Some AlertAcknowledged"
proof -
  have "GetAlert (fst (ResolveAlert 8 ''ALT-0001'' (fst (snd demo_alerts)))) ''ALT-0001'' =
     Some (the (GetAlert (fst (ResolveAlert 8 ''ALT-0001'' (fst (snd demo_alerts)))) ''ALT-0001''))"
    by code_simp
  from alert_status_monotone [OF this, where now = 9 and aid = "''ALT-0001''"] show ?thesis by simp
qed

end
