(* ===== verification/Audit_Log.thy ===== *)
theory Audit_Log
  imports Store
begin

text \<open>
  internal/audit/signer.go and the audit endpoint of internal/api/rest/handlers.go
  (\<open>VerifyAuditLog\<close>). The HMAC of the Go standard library is a parameter: \<open>mac key msg\<close> is
  the hexadecimal HMAC-SHA256, of which the code relies on \<open>mac_ok\<close>, that it is 64 digits long.
\<close>

definition mac_ok :: "(string \<Rightarrow> string \<Rightarrow> string) \<Rightarrow> bool" where
  "mac_ok mac \<longleftrightarrow> (\<forall>key msg. length (mac key msg) = 64)"

definition defaultKey :: string where
  "defaultKey = ''bastion-tracker-demo-audit-key-v1''"

record Signer =
  sg_key :: string

definition Signer_New :: "string \<Rightarrow> Signer" where
  "Signer_New secret = \<lparr>sg_key = (if secret = [] then defaultKey else secret)\<rparr>"

definition canonical :: "BastionEvent \<Rightarrow> string" where
  "canonical ev = ev_EventID ev @ ''|'' @ itoa (UnixNano (ev_Timestamp ev)) @ ''|'' @ ev_Module ev @ ''|''
     @ ev_EventType ev @ ''|'' @ ev_TenantID ev @ ''|'' @ ev_Severity ev @ ''|'' @ ev_Status ev"

definition compute :: "(string \<Rightarrow> string \<Rightarrow> string) \<Rightarrow> Signer \<Rightarrow> BastionEvent \<Rightarrow> string" where
  "compute mac sg ev = mac (sg_key sg) (canonical ev)"

definition Sign :: "(string \<Rightarrow> string \<Rightarrow> string) \<Rightarrow> Signer \<Rightarrow> BastionEvent \<Rightarrow> BastionEvent" where
  "Sign mac sg ev = ev\<lparr>ev_Signature := compute mac sg ev\<rparr>"

definition Verify :: "(string \<Rightarrow> string \<Rightarrow> string) \<Rightarrow> Signer \<Rightarrow> BastionEvent \<Rightarrow> bool" where
  "Verify mac sg ev = (if ev_Signature ev = [] then False else ev_Signature ev = compute mac sg ev)"

text \<open>The loop of the endpoint, one event at a time.\<close>

definition audit_add :: "(string \<Rightarrow> string \<Rightarrow> string) \<Rightarrow> Signer \<Rightarrow> BastionEvent \<Rightarrow> AuditVerifyResult \<Rightarrow> AuditVerifyResult" where
  "audit_add mac sg ev r =
     (if ev_Signature ev = [] then r\<lparr>av_Unsigned := av_Unsigned r + 1\<rparr>
      else if Verify mac sg ev then r\<lparr>av_Valid := av_Valid r + 1\<rparr>
      else r\<lparr>av_Invalid := av_Invalid r + 1, av_Tampered := av_Tampered r @ [ev_EventID ev]\<rparr>)"

text \<open>\<open>None\<close> is the 503 answer when no signer is configured.\<close>

definition VerifyAuditLog ::
    "(string \<Rightarrow> string \<Rightarrow> string) \<Rightarrow> Signer option \<Rightarrow> Store \<Rightarrow> QueryRequest \<Rightarrow> int \<Rightarrow> AuditVerifyResult option" where
  "VerifyAuditLog mac signer s q limit =
     (case signer of
        None \<Rightarrow> None
      | Some sg \<Rightarrow>
          (let evs = RecentEvents s q limit
           in Some (fold (audit_add mac sg) evs
                \<lparr>av_Total = length evs, av_Valid = 0, av_Invalid = 0, av_Unsigned = 0, av_Tampered = []\<rparr>)))"

lemma canonical_signature [simp]: "canonical (ev\<lparr>ev_Signature := x\<rparr>) = canonical ev"
  by (simp add: canonical_def)

lemma Verify_Sign: "mac_ok mac \<Longrightarrow> Verify mac sg (Sign mac sg ev)"
  by (auto simp: Verify_def Sign_def compute_def mac_ok_def dest: spec [of _ "sg_key sg"])
    (metis list.size(3) zero_neq_numeral)

lemma audit_fold:
  "av_Total (fold (audit_add mac sg) evs r) = av_Total r"
  "av_Valid (fold (audit_add mac sg) evs r) = av_Valid r + length (filter (Verify mac sg) evs)"
  "av_Unsigned (fold (audit_add mac sg) evs r) = av_Unsigned r + length (filter (\<lambda>ev. ev_Signature ev = []) evs)"
  "av_Invalid (fold (audit_add mac sg) evs r)
     = av_Invalid r + length (filter (\<lambda>ev. ev_Signature ev \<noteq> [] \<and> \<not> Verify mac sg ev) evs)"
  "av_Tampered (fold (audit_add mac sg) evs r)
     = av_Tampered r @ map ev_EventID (filter (\<lambda>ev. ev_Signature ev \<noteq> [] \<and> \<not> Verify mac sg ev) evs)"
  by (induction evs arbitrary: r) (auto simp: audit_add_def Verify_def)

subsection \<open>What the signature covers\<close>

definition bar_free :: "string \<Rightarrow> bool" where
  "bar_free x \<longleftrightarrow> CHR ''|'' \<notin> set x"

lemma split_bar:
  assumes "bar_free a" and "bar_free b" and "a @ ''|'' @ r = b @ ''|'' @ s"
  shows "a = b \<and> r = s"
proof -
  have "a @ CHR ''|'' # r = b @ CHR ''|'' # s" using assms(3) by simp
  then show ?thesis
    using assms(1,2) unfolding bar_free_def by (metis cut_at_append option.inject prod.inject)
qed

lemma dec_digits: "c \<in> set (dec n) \<Longrightarrow> is_digit c"
proof (induction n rule: dec.induct)
  case (1 n)
  have "list_all (\<lambda>k. is_digit (char_of (48 + k))) [0..<10::nat]" by code_simp
  then have digit: "is_digit (char_of (48 + k))" if "k < 10" for k :: nat
    using that by (simp add: list_all_iff)
  show ?case
  proof (cases "n < 10")
    case True
    then show ?thesis using "1.prems" digit by (simp add: dec.simps [of n])
  next
    case False
    then have "c \<in> set (dec (n div 10)) \<or> c = char_of (48 + n mod 10)"
      using "1.prems" by (auto simp: dec.simps [of n])
    then show ?thesis using "1.IH" [OF False] digit [of "n mod 10"] by auto
  qed
qed

lemma bar_free_itoa: "bar_free (itoa i)"
proof -
  have "\<not> is_digit (CHR ''|'')" by code_simp
  then show ?thesis using dec_digits by (auto simp: bar_free_def itoa_def)
qed

lemma itoa_inject: "itoa i = itoa j \<longleftrightarrow> i = j"
proof
  assume eq: "itoa i = itoa j"
  have "\<not> is_digit (CHR ''-'')" by code_simp
  then have "CHR ''-'' \<in> set (itoa k) \<longleftrightarrow> k < 0" for k using dec_digits by (auto simp: itoa_def)
  then have "i < 0 \<longleftrightarrow> j < 0" using eq by metis
  then show "i = j" using eq by (auto simp: itoa_def split: if_splits)
qed simp

definition fields_bar_free :: "BastionEvent \<Rightarrow> bool" where
  "fields_bar_free ev \<longleftrightarrow> bar_free (ev_EventID ev) \<and> bar_free (ev_Module ev) \<and> bar_free (ev_EventType ev)
     \<and> bar_free (ev_TenantID ev) \<and> bar_free (ev_Severity ev)"

definition signed_fields :: "BastionEvent \<Rightarrow> string \<times> int \<times> string \<times> string \<times> string \<times> string \<times> string" where
  "signed_fields ev = (ev_EventID ev, UnixNano (ev_Timestamp ev), ev_Module ev, ev_EventType ev,
     ev_TenantID ev, ev_Severity ev, ev_Status ev)"

lemma canonical_inject:
  assumes "fields_bar_free a" and "fields_bar_free b"
  shows "canonical a = canonical b \<longleftrightarrow> signed_fields a = signed_fields b"
proof
  assume "canonical a = canonical b"
  note c = this [unfolded canonical_def]
  have a: "bar_free (ev_EventID a)" "bar_free (ev_Module a)" "bar_free (ev_EventType a)"
      "bar_free (ev_TenantID a)" "bar_free (ev_Severity a)"
    using assms(1) by (simp_all add: fields_bar_free_def)
  have b: "bar_free (ev_EventID b)" "bar_free (ev_Module b)" "bar_free (ev_EventType b)"
      "bar_free (ev_TenantID b)" "bar_free (ev_Severity b)"
    using assms(2) by (simp_all add: fields_bar_free_def)
  note s1 = split_bar [OF a(1) b(1) c]
  note s2 = split_bar [OF bar_free_itoa bar_free_itoa conjunct2 [OF s1]]
  note s3 = split_bar [OF a(2) b(2) conjunct2 [OF s2]]
  note s4 = split_bar [OF a(3) b(3) conjunct2 [OF s3]]
  note s5 = split_bar [OF a(4) b(4) conjunct2 [OF s4]]
  note s6 = split_bar [OF a(5) b(5) conjunct2 [OF s5]]
  show "signed_fields a = signed_fields b"
    unfolding signed_fields_def s1 [THEN conjunct1] s3 [THEN conjunct1] s4 [THEN conjunct1]
      s5 [THEN conjunct1] s6 [THEN conjunct1] s6 [THEN conjunct2]
      s2 [THEN conjunct1, unfolded itoa_inject] by (rule refl)
qed (simp add: signed_fields_def canonical_def)

text \<open>
  Without that restriction two different events have one canonical string: the field
  boundaries are not escaped.
\<close>

lemma canonical_ambiguous:
  "canonical (zero_event\<lparr>ev_Module := ''a|b'', ev_EventType := ''c''\<rparr>)
     = canonical (zero_event\<lparr>ev_Module := ''a'', ev_EventType := ''b|c''\<rparr>)"
  by (simp add: canonical_def zero_event_def)

subsection \<open>Properties\<close>

text \<open>
  C30: the signature detects tampering. A signed event verifies; if an event keeps that
  signature but differs in its id, timestamp (as \<open>UnixNano\<close>), module, event type, tenant,
  severity or status, it fails to verify, provided the identity fields hold no vertical bar and
  the MAC does not collide on the two messages.
\<close>

theorem tampering_detected:
  assumes "mac_ok mac" and "fields_bar_free ev" and "fields_bar_free ev'"
    and "mac (sg_key sg) (canonical ev) = mac (sg_key sg) (canonical ev') \<Longrightarrow> canonical ev = canonical ev'"
    and "ev_Signature ev' = ev_Signature (Sign mac sg ev)"
  shows "Verify mac sg (Sign mac sg ev) \<and> (Verify mac sg ev' \<longleftrightarrow> signed_fields ev' = signed_fields ev)"
proof
  show "Verify mac sg (Sign mac sg ev)" by (rule Verify_Sign [OF assms(1)])
  have "length (compute mac sg ev) = 64" using assms(1) by (simp add: mac_ok_def compute_def)
  then have "compute mac sg ev \<noteq> []" by auto
  then have "Verify mac sg ev' \<longleftrightarrow> compute mac sg ev = compute mac sg ev'"
    using assms(5) by (simp add: Verify_def Sign_def)
  also have "\<dots> \<longleftrightarrow> canonical ev = canonical ev'" using assms(4) by (auto simp: compute_def)
  also have "\<dots> \<longleftrightarrow> signed_fields ev' = signed_fields ev"
    using canonical_inject [OF assms(2,3)] by auto
  finally show "Verify mac sg ev' \<longleftrightarrow> signed_fields ev' = signed_fields ev" .
qed

text \<open>A stand-in for the MAC, for the witnesses: 64 digits that depend on the message.\<close>

definition toy_mac :: "string \<Rightarrow> string \<Rightarrow> string" where
  "toy_mac key msg = take 64 (rev msg @ key @ replicate 64 (CHR ''0''))"

lemma toy_mac_ok: "mac_ok toy_mac"
  by (auto simp: mac_ok_def toy_mac_def min_def)

lemma tampering_detected_witness:
  "let sg = Signer_New ''''; ev = zero_event\<lparr>ev_EventID := ''e1'', ev_Timestamp := unix_epoch + 5, ev_Severity := ''error''\<rparr>;
       ev' = (Sign toy_mac sg ev)\<lparr>ev_Severity := ''info''\<rparr>
   in Verify toy_mac sg (Sign toy_mac sg ev) \<and> \<not> Verify toy_mac sg ev'"
proof -
  let ?sg = "Signer_New ''''" and ?ev = "zero_event\<lparr>ev_EventID := ''e1'', ev_Timestamp := unix_epoch + 5, ev_Severity := ''error''\<rparr>"
  let ?ev' = "(Sign toy_mac ?sg ?ev)\<lparr>ev_Severity := ''info''\<rparr>"
  have bf: "fields_bar_free ?ev" "fields_bar_free ?ev'" by code_simp+
  have "toy_mac (sg_key ?sg) (canonical ?ev) \<noteq> toy_mac (sg_key ?sg) (canonical ?ev')" by code_simp
  then have coll: "toy_mac (sg_key ?sg) (canonical ?ev) = toy_mac (sg_key ?sg) (canonical ?ev')
      \<Longrightarrow> canonical ?ev = canonical ?ev'" by (rule notE)
  have sig: "ev_Signature ?ev' = ev_Signature (Sign toy_mac ?sg ?ev)" by simp
  have "signed_fields ?ev' \<noteq> signed_fields ?ev" by code_simp
  with tampering_detected [OF toy_mac_ok bf coll sig]
  have "Verify toy_mac ?sg (Sign toy_mac ?sg ?ev) \<and> \<not> Verify toy_mac ?sg ?ev'" by (simp only: simp_thms)
  then show ?thesis unfolding Let_def .
qed

text \<open>
  The audit report partitions what it read: valid, invalid and unsigned events add up to
  the total, the total is at most the limit, and the tampered ids are those of the signed events
  that fail to verify, newest first.
\<close>

theorem audit_report_partition:
  "case VerifyAuditLog mac (Some sg) s q limit of
     None \<Rightarrow> False
   | Some r \<Rightarrow> av_Total r = av_Valid r + av_Invalid r + av_Unsigned r
       \<and> av_Total r = length (RecentEvents s q limit)
       \<and> av_Invalid r = length (av_Tampered r)
       \<and> av_Tampered r = map ev_EventID
            (filter (\<lambda>ev. ev_Signature ev \<noteq> [] \<and> ev_Signature ev \<noteq> compute mac sg ev) (RecentEvents s q limit))"
proof -
  have *: "length evs = length (filter (Verify mac sg) evs)
      + length (filter (\<lambda>ev. ev_Signature ev \<noteq> [] \<and> \<not> Verify mac sg ev) evs)
      + length (filter (\<lambda>ev. ev_Signature ev = []) evs)" for evs
    by (induction evs) (auto simp: Verify_def)
  have "(\<lambda>ev. ev_Signature ev \<noteq> [] \<and> \<not> Verify mac sg ev)
      = (\<lambda>ev. ev_Signature ev \<noteq> [] \<and> ev_Signature ev \<noteq> compute mac sg ev)"
    by (auto simp: Verify_def)
  then show ?thesis
    using * [of "RecentEvents s q limit"] by (simp add: VerifyAuditLog_def Let_def audit_fold)
qed

end
