(* ===== verification/Validator.thy ===== *)
theory Validator
  imports Honeytoken
begin

text \<open>
  internal/validator/validator.go: the schema check of inbound events and the dead-letter
  buffer. \<open>marshal\<close> stands for \<open>json.Marshal\<close>, whose output only the operator reads.
  \<open>blank\<close> is the test \<open>strings.TrimSpace(s) == ""\<close> on the bytes of \<open>s\<close>: it follows the
  UTF-8 encodings of the characters that Unicode calls white space.
\<close>

definition white1 :: "char \<Rightarrow> bool" where
  "white1 c \<longleftrightarrow> c \<in> {CHR 0x09, CHR 0x0A, CHR 0x0B, CHR 0x0C, CHR 0x0D, CHR 0x20}"

definition white2 :: "char \<Rightarrow> char \<Rightarrow> bool" where
  "white2 c d \<longleftrightarrow> c = CHR 0xC2 \<and> (d = CHR 0x85 \<or> d = CHR 0xA0)"

definition white3 :: "char \<Rightarrow> char \<Rightarrow> char \<Rightarrow> bool" where
  "white3 c d e \<longleftrightarrow>
     (c = CHR 0xE1 \<and> d = CHR 0x9A \<and> e = CHR 0x80)
   \<or> (c = CHR 0xE2 \<and> d = CHR 0x80 \<and> ((128 \<le> (of_char e :: nat) \<and> (of_char e :: nat) \<le> 138)
        \<or> e = CHR 0xA8 \<or> e = CHR 0xA9 \<or> e = CHR 0xAF))
   \<or> (c = CHR 0xE2 \<and> d = CHR 0x81 \<and> e = CHR 0x9F)
   \<or> (c = CHR 0xE3 \<and> d = CHR 0x80 \<and> e = CHR 0x80)"

fun blank :: "string \<Rightarrow> bool" where
  "blank [] = True"
| "blank [c] = white1 c"
| "blank [c, d] = (if white1 c then blank [d] else white2 c d)"
| "blank (c # d # e # s) =
     (if white1 c then blank (d # e # s)
      else if white2 c d then blank (e # s)
      else white3 c d e \<and> blank s)"

definition validSeverities :: "string list" where
  "validSeverities = ['''', ''info'', ''warning'', ''error'', ''critical'']"

definition validStatuses :: "string list" where
  "validStatuses = ['''', ''passed'', ''blocked'', ''error'', ''pending'', ''in_progress'']"

datatype invalid_event =
    EventTypeRequired
  | ModuleRequired
  | InvalidSeverity string
  | InvalidStatus string

text \<open>\<open>err.Error()\<close>; \<open>%q\<close> is \<open>quote\<close>.\<close>

fun invalid_text :: "(string \<Rightarrow> string) \<Rightarrow> invalid_event \<Rightarrow> string" where
  "invalid_text quote EventTypeRequired = ''event_type is required''"
| "invalid_text quote ModuleRequired = ''module is required''"
| "invalid_text quote (InvalidSeverity sev) =
     ''invalid severity '' @ quote sev @ '': must be info, warning, error, or critical''"
| "invalid_text quote (InvalidStatus st) =
     ''invalid status '' @ quote st @ '': must be passed, blocked, error, or pending''"

text \<open>\<open>Validate\<close>: the error, or none for a well-formed event.\<close>

definition Validate :: "BastionEvent \<Rightarrow> invalid_event option" where
  "Validate ev =
     (if blank (ev_EventType ev) then Some EventTypeRequired
      else if blank (ev_Module ev) then Some ModuleRequired
      else if ev_Severity ev \<notin> set validSeverities then Some (InvalidSeverity (ev_Severity ev))
      else if ev_Status ev \<notin> set validStatuses then Some (InvalidStatus (ev_Status ev))
      else None)"

subsection \<open>Dead letters\<close>

record DeadLetterEntry =
  dl_ReceivedAt :: gotime
  dl_Reason :: string
  dl_Raw :: string

record Validator =
  va_deadLetters :: "DeadLetterEntry list"

definition maxDeadLetters :: nat where "maxDeadLetters = 200"

definition add_dead_letter :: "DeadLetterEntry \<Rightarrow> Validator \<Rightarrow> Validator" where
  "add_dead_letter entry v =
     (let d = va_deadLetters v @ [entry]
      in v\<lparr>va_deadLetters :=
             (if length d > maxDeadLetters then drop (length d - maxDeadLetters) d else d)\<rparr>)"

definition Reject ::
    "(BastionEvent \<Rightarrow> string) \<Rightarrow> gotime \<Rightarrow> BastionEvent \<Rightarrow> string \<Rightarrow> Validator \<times> Metrics \<Rightarrow> Validator \<times> Metrics" where
  "Reject marshal now ev reason = (\<lambda>(v, mx).
     (add_dead_letter \<lparr>dl_ReceivedAt = now, dl_Reason = reason, dl_Raw = marshal ev\<rparr> v,
      mx\<lparr>mx_EventsRejected := mx_EventsRejected mx + 1\<rparr>))"

text \<open>The copying loop \<open>out[len-1-i] = e\<close>.\<close>

definition DeadLetters :: "Validator \<Rightarrow> DeadLetterEntry list" where
  "DeadLetters v =
     (let n = length (va_deadLetters v)
      in map (\<lambda>j. va_deadLetters v ! (n - 1 - j)) [0..<n])"

lemma DeadLetters_rev: "DeadLetters v = rev (va_deadLetters v)"
  by (rule nth_equalityI) (auto simp: DeadLetters_def Let_def rev_nth)

abbreviation letters_ok :: "Validator \<Rightarrow> bool" where
  "letters_ok v \<equiv> length (va_deadLetters v) \<le> maxDeadLetters"

interpretation letters: bounded_log add_dead_letter va_deadLetters "\<lambda>v. maxDeadLetters" letters_ok
  by unfold_locales (auto simp: add_dead_letter_def Let_def keep_last_def maxDeadLetters_def)

lemma Validate_None:
  "Validate ev = None \<longleftrightarrow> \<not> blank (ev_EventType ev) \<and> \<not> blank (ev_Module ev)
     \<and> ev_Severity ev \<in> set validSeverities \<and> ev_Status ev \<in> set validStatuses"
  by (auto simp: Validate_def split: if_splits)

lemma blank_Cons: "white1 c \<Longrightarrow> blank (c # s) = blank s"
  by (cases s rule: blank.cases) simp_all

lemma blank_ascii: "list_all white1 s \<Longrightarrow> blank s"
  by (induction s) (simp_all add: blank_Cons)

declare blank.simps [simp del]

subsection \<open>Properties\<close>

definition reject_all ::
    "(BastionEvent \<Rightarrow> string) \<Rightarrow> (gotime \<times> BastionEvent \<times> string) list \<Rightarrow> Validator \<times> Metrics \<Rightarrow> Validator \<times> Metrics" where
  "reject_all marshal rs = fold (\<lambda>(now, ev, reason). Reject marshal now ev reason) rs"

text \<open>
  The dead-letter buffer is bounded and keeps the newest rejections. After any sequence
  of rejections \<open>DeadLetters\<close> lists the last 200 of them, newest first, and every rejection
  was counted.
\<close>

theorem dead_letters_newest_200:
  "case reject_all marshal rs (\<lparr>va_deadLetters = []\<rparr>, zero_metrics) of (v, mx) \<Rightarrow>
     DeadLetters v = take 200 (rev (map (\<lambda>(now, ev, reason).
        \<lparr>dl_ReceivedAt = now, dl_Reason = reason, dl_Raw = marshal ev\<rparr>) rs))
   \<and> mx_EventsRejected mx = int (length rs)"
proof -
  let ?e = "\<lambda>(now, ev, reason). \<lparr>dl_ReceivedAt = now, dl_Reason = reason, dl_Raw = marshal ev\<rparr>"
  have run: "reject_all marshal rs (v, mx) = (fold add_dead_letter (map ?e rs) v,
      mx\<lparr>mx_EventsRejected := mx_EventsRejected mx + int (length rs)\<rparr>)" for v mx
    by (induction rs arbitrary: v mx) (auto simp: reject_all_def Reject_def)
  have "va_deadLetters (fold add_dead_letter (map ?e rs) \<lparr>va_deadLetters = []\<rparr>)
      = keep_last maxDeadLetters (map ?e rs)"
    using letters.view_pushes [of "\<lparr>va_deadLetters = []\<rparr>" "map ?e rs"] by simp
  then show ?thesis
    unfolding run split_conv DeadLetters_rev
    by (simp add: rev_keep_last maxDeadLetters_def zero_metrics_def)
qed

end
