(* ===== verification/Bypass.thy ===== *)
theory Bypass
  imports Validator
begin

text \<open>
  internal/bypass/monitor.go: the pipeline history of each tenant and the two bypass
  anomalies. \<open>Check\<close> holds the monitor's mutex, so it is one step of its state; the event
  that \<open>emit\<close> hands to \<open>go sink.Process\<close> is in the result. \<open>ord\<close> is the iteration order of
  the event's label map, \<open>now\<close> and \<open>now'\<close> the clock readings of \<open>Check\<close> and \<open>emit\<close>. The
  ratio of full pipelines is compared exactly; for histories below \<open>10 ^ 14\<close> entries the
  \<open>float64\<close> comparison of the code gives the same answer.
\<close>

record pipelineEntry =
  pe_pipelineType :: string
  pe_at :: gotime

record BypassMonitor =
  bm_history :: "(string, pipelineEntry list) gomap"
  bm_sensitiveLabels :: "string list"
  bm_sink :: bool

definition Bypass_New :: "string list \<Rightarrow> bool \<Rightarrow> BypassMonitor" where
  "Bypass_New labels sink = \<lparr>bm_history = [], bm_sensitiveLabels = labels, bm_sink = sink\<rparr>"

definition bypass_emit ::
    "gotime \<Rightarrow> BypassMonitor \<Rightarrow> BastionEvent \<Rightarrow> string \<Rightarrow> string \<Rightarrow> BastionEvent option" where
  "bypass_emit now m trigger anomalyType reason =
     (if \<not> bm_sink m then None
      else Some (zero_event\<lparr>ev_Module := ''security'', ev_EventType := ''bypass_anomaly_detected'',
             ev_Severity := ''warning'', ev_Status := ''error'', ev_Timestamp := now,
             ev_TenantID := ev_TenantID trigger, ev_UserID := ev_UserID trigger,
             ev_TraceID := ev_TraceID trigger,
             ev_Data := [(''anomaly_type'', GStr anomalyType), (''reason'', GStr reason),
               (''trigger_event_id'', GStr (ev_EventID trigger)),
               (''pipeline_type'', GStr (ev_PipelineType trigger))]\<rparr>))"

text \<open>The history update at the head of \<open>Check\<close>: prune entries older than an hour, append.\<close>

definition recent_entries :: "gotime \<Rightarrow> pipelineEntry list \<Rightarrow> pipelineEntry list" where
  "recent_entries now hist = filter (\<lambda>e. time_After (pe_at e) (time_Add now (- Hour))) hist"

definition note_pipeline :: "gotime \<Rightarrow> BastionEvent \<Rightarrow> BypassMonitor \<Rightarrow> BypassMonitor" where
  "note_pipeline now ev m =
     m\<lparr>bm_history := mput (ev_TenantID ev)
         (recent_entries now (mget0 [] (bm_history m) (ev_TenantID ev))
            @ [\<lparr>pe_pipelineType = ev_PipelineType ev, pe_at = ev_Timestamp ev\<rparr>]) (bm_history m)\<rparr>"

text \<open>The first sensitive label of an event that skipped the vault.\<close>

definition leaked_label ::
    "((string, string) gomap \<Rightarrow> (string, string) gomap) \<Rightarrow> BypassMonitor \<Rightarrow> BastionEvent \<Rightarrow> string option" where
  "leaked_label ord m ev =
     (if length (bm_sensitiveLabels m) > 0 \<and> length (ev_ModulesSkipped ev) > 0
      then List.find (\<lambda>k. k \<in> set (bm_sensitiveLabels m) \<and> ''vault'' \<in> set (ev_ModulesSkipped ev))
             (map fst (ord (ev_Labels ev)))
      else None)"

definition downgraded :: "pipelineEntry list \<Rightarrow> bool" where
  "downgraded prior \<longleftrightarrow> length prior \<ge> 10
     \<and> (of_nat (length (filter (\<lambda>e. pe_pipelineType e = ''full'') prior)) / of_nat (length prior) :: rat) \<ge> 9 / 10"

definition Bypass_Check ::
    "((string, string) gomap \<Rightarrow> (string, string) gomap) \<Rightarrow> gotime \<Rightarrow> gotime \<Rightarrow> BastionEvent
       \<Rightarrow> BypassMonitor \<Rightarrow> BypassMonitor \<times> BastionEvent option" where
  "Bypass_Check ord now now' ev m =
     (if ev_TenantID ev = [] \<or> ev_PipelineType ev = [] then (m, None)
      else let m' = note_pipeline now ev m in
        case leaked_label ord m' ev of
          Some k \<Rightarrow> (m', bypass_emit now' m' ev ''sensitive_label_vault_skipped''
            (''event carries sensitive label '' @ [CHR 39] @ k @ [CHR 39] @ '' but vault module was skipped''))
        | None \<Rightarrow>
            (if ev_PipelineType ev = ''lite'' \<or> ev_PipelineType ev = ''minimal''
             then let hist = mget0 [] (bm_history m') (ev_TenantID ev);
                      prior = take (length hist - 1) hist
                  in (m', if downgraded prior
                          then bypass_emit now' m' ev ''pipeline_downgrade_anomaly''
                            (''tenant switched from full pipeline ('' @ [CHR 0xE2, CHR 0x89, CHR 0xA5]
                               @ ''90% history) to '' @ ev_PipelineType ev)
                          else None)
             else (m', None)))"

lemma downgraded_iff:
  "downgraded prior \<longleftrightarrow> length prior \<ge> 10
     \<and> 9 * length prior \<le> 10 * length (filter (\<lambda>e. pe_pipelineType e = ''full'') prior)"
proof -
  have "(of_nat f / of_nat n :: rat) \<ge> 9 / 10 \<longleftrightarrow> 9 * n \<le> 10 * f" if "10 \<le> n" for f n :: nat
  proof -
    have pos: "(0 :: rat) < of_nat n" using that by simp
    have "(of_nat f / of_nat n :: rat) \<ge> 9 / 10 \<longleftrightarrow> of_nat (9 * n) \<le> (of_nat (10 * f) :: rat)"
      unfolding pos_le_divide_eq [OF pos] by auto
    then show ?thesis unfolding of_nat_le_iff .
  qed
  then show ?thesis unfolding downgraded_def by blast
qed

lemma note_pipeline_history:
  "mget0 [] (bm_history (note_pipeline now ev m)) t =
     (if t = ev_TenantID ev
      then recent_entries now (mget0 [] (bm_history m) t)
         @ [\<lparr>pe_pipelineType = ev_PipelineType ev, pe_at = ev_Timestamp ev\<rparr>]
      else mget0 [] (bm_history m) t)"
  by (simp add: note_pipeline_def)

lemma leaked_label_None:
  assumes "range_order ord"
  shows "leaked_label ord m ev = None \<longleftrightarrow>
    \<not> (''vault'' \<in> set (ev_ModulesSkipped ev) \<and> (\<exists>k \<in> fst ` set (ev_Labels ev). k \<in> set (bm_sensitiveLabels m)))"
  by (auto simp: leaked_label_def find_None_iff range_order_set [OF assms])

lemma bypass_emit_quiet:
  assumes "bypass_emit now m ev ty reason = Some an"
  shows "Validate an = None \<and> ev_PipelineType an = [] \<and> ev_EventType an = ''bypass_anomaly_detected''
    \<and> ev_Severity an = ''warning'' \<and> ev_TenantID an = ev_TenantID ev \<and> ev_TraceID an = ev_TraceID ev"
proof -
  have "\<not> blank ''bypass_anomaly_detected''" "\<not> blank ''security''"
    "''warning'' \<in> set validSeverities" "''error'' \<in> set validStatuses" by code_simp+
  moreover have "an = zero_event\<lparr>ev_Module := ''security'', ev_EventType := ''bypass_anomaly_detected'',
      ev_Severity := ''warning'', ev_Status := ''error'', ev_Timestamp := now,
      ev_TenantID := ev_TenantID ev, ev_UserID := ev_UserID ev, ev_TraceID := ev_TraceID ev,
      ev_Data := [(''anomaly_type'', GStr ty), (''reason'', GStr reason),
        (''trigger_event_id'', GStr (ev_EventID ev)), (''pipeline_type'', GStr (ev_PipelineType ev))]\<rparr>"
    using assms unfolding bypass_emit_def by (metis option.inject option.distinct(1))
  ultimately show ?thesis unfolding Validate_None by (simp add: zero_event_def)
qed

lemma Check_emits:
  assumes "snd (Bypass_Check ord now now' ev m) = Some an"
  obtains ty reason m' where "bypass_emit now' m' ev ty reason = Some an"
  using assms unfolding Bypass_Check_def
  by (auto simp: Let_def split: if_splits option.splits)

subsection \<open>Properties\<close>

text \<open>
  C32: the bypass monitor raises an anomaly exactly when it should. For an event with a tenant
  and a pipeline, with a sink attached, it emits one iff the event carries a sensitive label
  while the vault was skipped, or it is a lite or minimal request of a tenant with at least ten
  entries in the last hour of which at least 90\% were full; other tenants' histories are left
  alone, and the emitted event is well formed and triggers nothing when it is checked itself.
\<close>

theorem bypass_anomaly_iff:
  assumes "range_order ord" and "bm_sink m" and "ev_TenantID ev \<noteq> []" and "ev_PipelineType ev \<noteq> []"
  shows "let prior = recent_entries now (mget0 [] (bm_history m) (ev_TenantID ev));
             (m', out) = Bypass_Check ord now now' ev m
    in (out \<noteq> None \<longleftrightarrow>
         (''vault'' \<in> set (ev_ModulesSkipped ev) \<and> list_ex (\<lambda>(k, v). k \<in> set (bm_sensitiveLabels m)) (ev_Labels ev))
       \<or> (ev_PipelineType ev \<in> {''lite'', ''minimal''} \<and> length prior \<ge> 10
          \<and> 9 * length prior \<le> 10 * length (filter (\<lambda>e. pe_pipelineType e = ''full'') prior)))
     \<and> (t \<noteq> ev_TenantID ev \<longrightarrow> mget0 [] (bm_history m') t = mget0 [] (bm_history m) t)
     \<and> (case out of None \<Rightarrow> True
        | Some an \<Rightarrow> Validate an = None \<and> Bypass_Check ord2 t1 t2 an m' = (m', None))"
proof -
  let ?m' = "note_pipeline now ev m"
  let ?prior = "recent_entries now (mget0 [] (bm_history m) (ev_TenantID ev))"
  obtain m' out where chk: "Bypass_Check ord now now' ev m = (m', out)" by fastforce
  have m': "m' = ?m'"
    using chk assms(3,4) by (auto simp: Bypass_Check_def Let_def split: option.splits if_splits)
  have sink: "bm_sink ?m'" "bm_sensitiveLabels ?m' = bm_sensitiveLabels m"
    using assms(2) by (simp_all add: note_pipeline_def)
  have prior: "take (length (mget0 [] (bm_history ?m') (ev_TenantID ev)) - 1) (mget0 [] (bm_history ?m') (ev_TenantID ev)) = ?prior"
    by (simp add: note_pipeline_history)
  have emit: "bypass_emit now' ?m' ev ty reason \<noteq> None" for ty reason
    using sink(1) by (simp add: bypass_emit_def)
  have keys: "(\<exists>k \<in> fst ` A. P k) = (\<exists>p \<in> A. case p of (k, v) \<Rightarrow> P k)" for A :: "(string \<times> string) set" and P
    by force
  have lab: "leaked_label ord ?m' ev = None \<longleftrightarrow>
      \<not> (''vault'' \<in> set (ev_ModulesSkipped ev) \<and> list_ex (\<lambda>(k, v). k \<in> set (bm_sensitiveLabels m)) (ev_Labels ev))"
    unfolding leaked_label_None [OF assms(1)] sink(2) keys list_ex_iff by (rule refl)
  have out: "out \<noteq> None \<longleftrightarrow> leaked_label ord ?m' ev \<noteq> None
      \<or> ((ev_PipelineType ev = ''lite'' \<or> ev_PipelineType ev = ''minimal'') \<and> downgraded ?prior)"
    using chk assms(3,4) emit unfolding Bypass_Check_def Let_def prior
    by (auto split: option.splits if_splits)
  have quiet: "Validate an = None \<and> Bypass_Check ord2 t1 t2 an m' = (m', None)" if "out = Some an" for an
  proof -
    have "snd (Bypass_Check ord now now' ev m) = Some an" using chk that by simp
    then obtain ty reason m2 where "bypass_emit now' m2 ev ty reason = Some an" by (rule Check_emits)
    from bypass_emit_quiet [OF this] show ?thesis by (simp add: Bypass_Check_def)
  qed
  show ?thesis
    unfolding Let_def chk split_conv out lab downgraded_iff m'
    using quiet unfolding m' by (auto simp: note_pipeline_history split: option.split)
qed

lemma bypass_anomaly_iff_witness:
  "snd (Bypass_Check rev 9 9 (zero_event\<lparr>ev_TenantID := ''t'', ev_PipelineType := ''full'',
      ev_ModulesSkipped := [''vault''], ev_Labels := [(''pii'', ''1'')]\<rparr>) (Bypass_New [''pii''] True)) \<noteq> None"
proof -
  let ?ev = "zero_event\<lparr>ev_TenantID := ''t'', ev_PipelineType := ''full'',
      ev_ModulesSkipped := [''vault''], ev_Labels := [(''pii'', ''1'')]\<rparr>"
  have "bm_sink (Bypass_New [''pii''] True)" "ev_TenantID ?ev \<noteq> []" "ev_PipelineType ?ev \<noteq> []"
    by code_simp+
  note th = bypass_anomaly_iff [OF range_order_rev this, where now = 9 and now' = 9]
  have "''vault'' \<in> set (ev_ModulesSkipped ?ev)
      \<and> list_ex (\<lambda>(k, v). k \<in> set (bm_sensitiveLabels (Bypass_New [''pii''] True))) (ev_Labels ?ev)" by code_simp
  then show ?thesis using th unfolding Let_def
    by (cases "Bypass_Check rev 9 9 ?ev (Bypass_New [''pii''] True)") (simp only: split_conv snd_conv, blast)
qed

end
