(* ===== verification/Events.thy ===== *)
theory Events
  imports Models
begin

text \<open>
  internal/events/publisher.go: the Foundation events the tracker emits itself. The NATS
  connection is outside the model: a publisher is its flag \<open>pub_connected\<close>, and \<open>Publish\<close>
  yields the subject and the event handed to the connection, if any. \<open>rid\<close> is the random
  identifier of \<open>newID\<close>.
\<close>

record TrackerEvent =
  tv_EventID :: string
  tv_EventType :: string
  tv_SchemaVersion :: string
  tv_TraceID :: string
  tv_Module :: string
  tv_ModuleVersion :: string
  tv_Timestamp :: int
  tv_TenantID :: string
  tv_Severity :: string
  tv_Category :: string
  tv_Status :: string
  tv_ActionTaken :: string
  tv_Data :: "(string, goany) gomap"

record Publisher =
  pub_connected :: bool

definition subjectPfx :: string where
  "subjectPfx = ''bastion.events.tracker''"

definition Publish :: "Publisher option \<Rightarrow> TrackerEvent \<Rightarrow> (string \<times> TrackerEvent) list" where
  "Publish p ev =
     (case p of
        None \<Rightarrow> []
      | Some pub \<Rightarrow> if \<not> pub_connected pub then []
                    else [(subjectPfx @ ''.'' @ tv_EventType ev, ev)])"

definition newEvent ::
    "string \<Rightarrow> gotime \<Rightarrow> string \<Rightarrow> string \<Rightarrow> string \<Rightarrow> (string, goany) gomap \<Rightarrow> TrackerEvent" where
  "newEvent rid now eventType severity category data =
     \<lparr>tv_EventID = rid, tv_EventType = eventType, tv_SchemaVersion = ''1.0'', tv_TraceID = [],
      tv_Module = ''tracker'', tv_ModuleVersion = ''1.0.0'', tv_Timestamp = UnixNano now,
      tv_TenantID = [], tv_Severity = severity, tv_Category = category, tv_Status = [],
      tv_ActionTaken = [], tv_Data = data\<rparr>"

definition EventIncidentCreated ::
    "string \<Rightarrow> gotime \<Rightarrow> string \<Rightarrow> string \<Rightarrow> string \<Rightarrow> string \<Rightarrow> string \<Rightarrow> TrackerEvent" where
  "EventIncidentCreated rid now incidentID title severity tenantID traceID =
     (newEvent rid now ''incident_created'' severity ''security''
        [(''incident_id'', GStr incidentID), (''title'', GStr title)])
     \<lparr>tv_TenantID := tenantID, tv_TraceID := traceID, tv_Status := ''created'',
      tv_ActionTaken := ''incident_created''\<rparr>"

definition EventHoneyTokenAlert ::
    "string \<Rightarrow> gotime \<Rightarrow> string \<Rightarrow> string \<Rightarrow> string \<Rightarrow> string \<Rightarrow> TrackerEvent" where
  "EventHoneyTokenAlert rid now tokenID triggerID tenantID traceID =
     (newEvent rid now ''honey_token_alert'' ''critical'' ''security''
        [(''honey_token_id'', GStr tokenID), (''trigger_id'', GStr triggerID)])
     \<lparr>tv_TenantID := tenantID, tv_TraceID := traceID, tv_Status := ''alerted'',
      tv_ActionTaken := ''alert_raised''\<rparr>"

definition EventLineageCompleted ::
    "string \<Rightarrow> gotime \<Rightarrow> string \<Rightarrow> string \<Rightarrow> string \<Rightarrow> int \<Rightarrow> TrackerEvent" where
  "EventLineageCompleted rid now traceID queryType tenantID resultCount =
     (newEvent rid now ''lineage_completed'' ''info'' ''operational''
        [(''query_type'', GStr queryType), (''result_count'', GInt resultCount)])
     \<lparr>tv_TenantID := tenantID, tv_TraceID := traceID, tv_Status := ''completed''\<rparr>"

end
