(* ===== verification/Transition.thy ===== *)
theory Transition
  imports Prelude
begin

text \<open>
  Components whose goroutines interleave are transition systems here: a step takes a state to the
  next one or to \<open>None\<close>, a panic or a send that blocks for ever under a mutex. This theory has
  their reachable states, the locale \<open>safe_system\<close> of a system with an invariant that every step
  keeps, and the locale \<open>simulated_system\<close> of one system that another follows step by step.
\<close>

inductive reachable :: "('s \<Rightarrow> bool) \<Rightarrow> ('s \<Rightarrow> 's option \<Rightarrow> bool) \<Rightarrow> 's \<Rightarrow> bool"
  for init :: "'s \<Rightarrow> bool" and step :: "'s \<Rightarrow> 's option \<Rightarrow> bool" where
  begin_here: "init s \<Longrightarrow> reachable init step s"
| step_on: "reachable init step s \<Longrightarrow> step s (Some s') \<Longrightarrow> reachable init step s'"

abbreviation runs :: "('s \<Rightarrow> 's option \<Rightarrow> bool) \<Rightarrow> 's \<Rightarrow> 's \<Rightarrow> bool" where
  "runs step s \<equiv> reachable (\<lambda>x. x = s) step"

lemma runs_refl: "runs step s s"
  by (rule reachable.begin_here) (rule refl)

lemma reachable_runs: "runs step s s' \<Longrightarrow> reachable init step s \<Longrightarrow> reachable init step s'"
  by (induction rule: reachable.induct) (auto intro: reachable.step_on)

lemma reachable_from: "reachable init step s \<Longrightarrow> (\<And>x. init x \<Longrightarrow> init' x) \<Longrightarrow> reachable init' step s"
  by (induction rule: reachable.induct) (auto intro: reachable.intros)

locale safe_system =
  fixes init :: "'s \<Rightarrow> bool" and step :: "'s \<Rightarrow> 's option \<Rightarrow> bool" and inv :: "'s \<Rightarrow> bool"
  assumes init_inv: "init s \<Longrightarrow> inv s"
    and step_inv: "inv s \<Longrightarrow> step s r \<Longrightarrow> \<exists>s'. r = Some s' \<and> inv s'"
begin

lemma reach_inv: "reachable init step s \<Longrightarrow> inv s"
  by (induction rule: reachable.induct) (auto dest: init_inv step_inv)

lemma run_inv: "runs step s s' \<Longrightarrow> inv s \<Longrightarrow> inv s'"
  by (induction rule: reachable.induct) (auto dest: step_inv)

lemma never_stuck: "reachable init step s \<Longrightarrow> \<not> step s None"
  using step_inv [OF reach_inv] by blast

lemma reach_the: "reachable init step s \<Longrightarrow> step s r \<Longrightarrow> r \<noteq> None \<and> reachable init step (the r)"
  using step_inv [OF reach_inv] reachable.step_on by fastforce

end

locale simulated_system =
  fixes init :: "'s \<Rightarrow> bool" and step :: "'s \<Rightarrow> 's option \<Rightarrow> bool"
    and abs_init :: "'t \<Rightarrow> bool" and abs_step :: "'t \<Rightarrow> 't option \<Rightarrow> bool" and view :: "'s \<Rightarrow> 't"
  assumes init_view: "init s \<Longrightarrow> reachable abs_init abs_step (view s)"
    and step_view: "reachable abs_init abs_step (view s) \<Longrightarrow> step s (Some s') \<Longrightarrow> reachable abs_init abs_step (view s')"
begin

lemma reach_view: "reachable init step s \<Longrightarrow> reachable abs_init abs_step (view s)"
  by (induction rule: reachable.induct) (auto intro: init_view step_view)

end

end
