(* ===== verification/Chan.thy ===== *)
theory Chan
  imports Transition
begin

text \<open>
  Go's buffered channels as the tracker uses them: the hub's client and subscriber queues and
  the decision channels of gate checkpoints. An operation that would panic (sending on or
  closing a closed channel) or block for ever has no result. The hub sends with a
  \<open>select\<close> that has a \<open>default\<close> case, \<open>try_send\<close>; the monitor sends plainly while it holds
  its mutex, \<open>send_locked\<close>, where a full buffer is a deadlock.
\<close>

record 'a chan =
  ch_buf :: "'a list"
  ch_cap :: nat
  ch_closed :: bool

definition make_chan :: "nat \<Rightarrow> 'a chan" where
  "make_chan n = \<lparr>ch_buf = [], ch_cap = n, ch_closed = False\<rparr>"

definition try_send :: "'a \<Rightarrow> 'a chan \<Rightarrow> 'a chan option" where
  "try_send x c =
     (if ch_closed c then None
      else if length (ch_buf c) < ch_cap c then Some (c\<lparr>ch_buf := ch_buf c @ [x]\<rparr>)
      else Some c)"

definition close_chan :: "'a chan \<Rightarrow> 'a chan option" where
  "close_chan c = (if ch_closed c then None else Some (c\<lparr>ch_closed := True\<rparr>))"

text \<open>What a receive finds: a value, that the channel is closed and drained, or nothing yet.\<close>

datatype 'a recv = Received 'a | RecvClosed | RecvBlocks

definition chan_recv :: "'a chan \<Rightarrow> 'a recv \<times> 'a chan" where
  "chan_recv c =
     (case ch_buf c of
        x # xs \<Rightarrow> (Received x, c\<lparr>ch_buf := xs\<rparr>)
      | [] \<Rightarrow> (if ch_closed c then RecvClosed else RecvBlocks, c))"

definition chan_ok :: "'a chan \<Rightarrow> bool" where
  "chan_ok c \<longleftrightarrow> length (ch_buf c) \<le> ch_cap c"

lemma chan_ok_make [simp]: "chan_ok (make_chan n)"
  by (simp add: chan_ok_def make_chan_def)

lemma make_chan_open [simp]: "\<not> ch_closed (make_chan n)" "ch_buf (make_chan n) = []" "ch_cap (make_chan n) = n"
  by (simp_all add: make_chan_def)

lemma try_send_Some:
  "try_send x c = Some c' \<longleftrightarrow> \<not> ch_closed c
     \<and> c' = (if length (ch_buf c) < ch_cap c then c\<lparr>ch_buf := ch_buf c @ [x]\<rparr> else c)"
  by (auto simp: try_send_def)

lemma try_send_None: "try_send x c = None \<longleftrightarrow> ch_closed c"
  by (simp add: try_send_def)

lemma close_chan_Some: "close_chan c = Some c' \<longleftrightarrow> \<not> ch_closed c \<and> c' = c\<lparr>ch_closed := True\<rparr>"
  by (auto simp: close_chan_def)

lemma close_chan_None: "close_chan c = None \<longleftrightarrow> ch_closed c"
  by (simp add: close_chan_def)

lemma try_send_ok: "chan_ok c \<Longrightarrow> try_send x c = Some c' \<Longrightarrow> chan_ok c' \<and> \<not> ch_closed c'"
  by (auto simp: try_send_Some chan_ok_def)

lemma chan_recv_ok: "chan_ok c \<Longrightarrow> chan_ok (snd (chan_recv c))"
  by (auto simp: chan_recv_def chan_ok_def split: list.split)

lemma chan_recv_closed [simp]: "ch_closed (snd (chan_recv c)) = ch_closed c"
  by (simp add: chan_recv_def split: list.split)

definition send_locked :: "'a \<Rightarrow> 'a chan \<Rightarrow> 'a chan option" where
  "send_locked x c =
     (if ch_closed c then None
      else if length (ch_buf c) < ch_cap c then Some (c\<lparr>ch_buf := ch_buf c @ [x]\<rparr>)
      else None)"

lemma send_locked_Some:
  "send_locked x c = Some c' \<longleftrightarrow> \<not> ch_closed c \<and> length (ch_buf c) < ch_cap c
     \<and> c' = c\<lparr>ch_buf := ch_buf c @ [x]\<rparr>"
  by (auto simp: send_locked_def)

end
