(* ===== verification/Hub.thy ===== *)
theory Hub
  imports Chan Stats
begin

text \<open>
  internal/hub/hub.go: the message filter of a client, the cases of the hub's \<open>run\<close> loop,
  \<open>Broadcast\<close>, \<open>Subscribe\<close> and \<open>Unsubscribe\<close>. The hub goroutine serialises the cases, so each is
  one step of the state. Clients and subscriptions are pointers in the code, here numbers
  into a heap that also holds the closed ones. A message stays the value it was marshalled
  from; \<open>payload_fields\<close> are the three JSON fields the filter parses.
\<close>

datatype ws_payload =
    PEvent BastionEvent
  | PIncident Incident
  | PAlert Alert
  | PSummary DashboardSummary
  | PStatus RecordingStatus
  | PAny goany

record WSMessage =
  ws_Type :: string
  ws_Payload :: ws_payload

record clientFilter =
  cf_Module :: string
  cf_Severity :: string
  cf_TenantID :: string

fun payload_fields :: "ws_payload \<Rightarrow> string \<times> string \<times> string" where
  "payload_fields (PEvent ev) = (ev_Module ev, ev_Severity ev, ev_TenantID ev)"
| "payload_fields (PIncident inc) = ([], inc_Severity inc, inc_TenantID inc)"
| "payload_fields (PAlert al) = (al_Module al, al_Severity al, al_TenantID al)"
| "payload_fields _ = ([], [], [])"

definition allowsMessage :: "clientFilter option \<Rightarrow> WSMessage \<Rightarrow> bool" where
  "allowsMessage flt msg =
     (case flt of
        None \<Rightarrow> True
      | Some f \<Rightarrow>
          (case payload_fields (ws_Payload msg) of (md, severity, tenantID) \<Rightarrow>
             if ws_Type msg \<noteq> ''event'' then True
             else if cf_Module f \<noteq> [] \<and> md \<noteq> cf_Module f then False
             else if cf_Severity f \<noteq> [] \<and> severity \<noteq> cf_Severity f then False
             else if cf_TenantID f \<noteq> [] \<and> tenantID \<noteq> cf_TenantID f then False
             else True))"

text \<open>The \<open>set_filter\<close> branch of \<open>readPump\<close>: three empty fields clear the filter.\<close>

definition parse_filter :: "string \<Rightarrow> string \<Rightarrow> string \<Rightarrow> clientFilter option" where
  "parse_filter md severity tenantID =
     (if md = [] \<and> severity = [] \<and> tenantID = [] then None
      else Some \<lparr>cf_Module = md, cf_Severity = severity, cf_TenantID = tenantID\<rparr>)"

subsection \<open>The hub\<close>

record hub_client =
  hc_send :: "WSMessage chan"
  hc_filter :: "clientFilter option"

record Hub =
  hub_heap :: "(nat, hub_client) gomap"
  hub_clients :: "nat list"
  hub_subheap :: "(nat, WSMessage chan) gomap"
  hub_subs :: "nat list"
  hub_broadcast :: "WSMessage chan"
  hub_bufferSize :: nat
  hub_connections :: int
  hub_broadcasts :: nat

definition Hub_New :: "int \<Rightarrow> Hub" where
  "Hub_New bufferSize0 =
     (let n = (if bufferSize0 \<le> 0 then 256 else nat bufferSize0)
      in \<lparr>hub_heap = [], hub_clients = [], hub_subheap = [], hub_subs = [],
          hub_broadcast = make_chan n, hub_bufferSize = n, hub_connections = 0, hub_broadcasts = 0\<rparr>)"

text \<open>\<open>ServeWS\<close> makes the client; the \<open>register\<close> case of \<open>run\<close> receives it.\<close>

definition hub_register :: "nat \<Rightarrow> Hub \<Rightarrow> Hub" where
  "hub_register c h =
     h\<lparr>hub_heap := mput c \<lparr>hc_send = make_chan (hub_bufferSize h), hc_filter = None\<rparr> (hub_heap h),
       hub_clients := List.insert c (hub_clients h),
       hub_connections := hub_connections h + 1\<rparr>"

definition hub_unregister :: "nat \<Rightarrow> Hub \<Rightarrow> Hub option" where
  "hub_unregister c h =
     (if c \<in> set (hub_clients h) then
        (case mget (hub_heap h) c of
           None \<Rightarrow> None
         | Some cl \<Rightarrow>
             (case close_chan (hc_send cl) of
                None \<Rightarrow> None
              | Some ch \<Rightarrow>
                  Some (h\<lparr>hub_clients := removeAll c (hub_clients h),
                          hub_heap := mput c (cl\<lparr>hc_send := ch\<rparr>) (hub_heap h),
                          hub_connections := hub_connections h - 1\<rparr>)))
      else Some (h\<lparr>hub_connections := hub_connections h - 1\<rparr>))"

definition hub_subscribe :: "int \<Rightarrow> nat \<Rightarrow> Hub \<Rightarrow> Hub" where
  "hub_subscribe bufSize0 i h =
     (let n = (if bufSize0 \<le> 0 then hub_bufferSize h else nat bufSize0)
      in h\<lparr>hub_subheap := mput i (make_chan n) (hub_subheap h),
           hub_subs := List.insert i (hub_subs h)\<rparr>)"

definition hub_unsubscribe :: "nat \<Rightarrow> Hub \<Rightarrow> Hub option" where
  "hub_unsubscribe i h =
     (if i \<in> set (hub_subs h) then
        (case mget (hub_subheap h) i of
           None \<Rightarrow> None
         | Some ch \<Rightarrow>
             (case close_chan ch of
                None \<Rightarrow> None
              | Some ch' \<Rightarrow> Some (h\<lparr>hub_subs := removeAll i (hub_subs h),
                                  hub_subheap := mput i ch' (hub_subheap h)\<rparr>)))
      else Some h)"

text \<open>\<open>Broadcast\<close>: the message is dropped when the broadcast channel is full.\<close>

definition hub_Broadcast :: "WSMessage \<Rightarrow> Hub \<Rightarrow> Hub option" where
  "hub_Broadcast msg h =
     map_option (\<lambda>ch. h\<lparr>hub_broadcast := ch\<rparr>) (try_send msg (hub_broadcast h))"

text \<open>The \<open>broadcast\<close> case: the two loops over the registered clients and subscriptions.\<close>

fun send_clients :: "WSMessage \<Rightarrow> nat list \<Rightarrow> (nat, hub_client) gomap \<Rightarrow> (nat, hub_client) gomap option" where
  "send_clients msg [] heap = Some heap"
| "send_clients msg (c # cs) heap =
     (case mget heap c of
        None \<Rightarrow> None
      | Some cl \<Rightarrow>
          if \<not> allowsMessage (hc_filter cl) msg then send_clients msg cs heap
          else (case try_send msg (hc_send cl) of
                  None \<Rightarrow> None
                | Some ch \<Rightarrow> send_clients msg cs (mput c (cl\<lparr>hc_send := ch\<rparr>) heap)))"

fun send_subs :: "WSMessage \<Rightarrow> nat list \<Rightarrow> (nat, WSMessage chan) gomap \<Rightarrow> (nat, WSMessage chan) gomap option" where
  "send_subs msg [] heap = Some heap"
| "send_subs msg (i # is) heap =
     (case mget heap i of
        None \<Rightarrow> None
      | Some ch \<Rightarrow>
          (case try_send msg ch of
             None \<Rightarrow> None
           | Some ch' \<Rightarrow> send_subs msg is (mput i ch' heap)))"

definition hub_relay :: "(nat list \<Rightarrow> nat list) \<Rightarrow> Hub \<Rightarrow> Hub option" where
  "hub_relay ord h =
     (case chan_recv (hub_broadcast h) of
        (Received msg, ch) \<Rightarrow>
          (case send_clients msg (ord (hub_clients h)) (hub_heap h) of
             None \<Rightarrow> None
           | Some heap \<Rightarrow>
               (case send_subs msg (ord (hub_subs h)) (hub_subheap h) of
                  None \<Rightarrow> None
                | Some subheap \<Rightarrow>
                    Some (h\<lparr>hub_broadcast := ch, hub_heap := heap, hub_subheap := subheap,
                            hub_broadcasts := hub_broadcasts h + 1\<rparr>)))
      | _ \<Rightarrow> Some h)"

definition hub_set_filter :: "nat \<Rightarrow> string \<Rightarrow> string \<Rightarrow> string \<Rightarrow> Hub \<Rightarrow> Hub" where
  "hub_set_filter c md severity tenantID h =
     (case mget (hub_heap h) c of
        None \<Rightarrow> h
      | Some cl \<Rightarrow> h\<lparr>hub_heap := mput c (cl\<lparr>hc_filter := parse_filter md severity tenantID\<rparr>) (hub_heap h)\<rparr>)"

text \<open>\<open>writePump\<close> and the subscribers receive from their channel.\<close>

definition hub_client_recv :: "nat \<Rightarrow> Hub \<Rightarrow> Hub" where
  "hub_client_recv c h =
     (case mget (hub_heap h) c of
        None \<Rightarrow> h
      | Some cl \<Rightarrow> h\<lparr>hub_heap := mput c (cl\<lparr>hc_send := snd (chan_recv (hc_send cl))\<rparr>) (hub_heap h)\<rparr>)"

definition hub_sub_recv :: "nat \<Rightarrow> Hub \<Rightarrow> Hub" where
  "hub_sub_recv i h =
     (case mget (hub_subheap h) i of
        None \<Rightarrow> h
      | Some ch \<Rightarrow> h\<lparr>hub_subheap := mput i (snd (chan_recv ch)) (hub_subheap h)\<rparr>)"

definition ConnectionCount :: "Hub \<Rightarrow> nat" where
  "ConnectionCount h = length (hub_clients h)"

subsection \<open>The steps of the hub\<close>

text \<open>
  A step takes the hub to its next state or to \<open>None\<close>, a panic. \<open>ServeWS\<close> and \<open>Subscribe\<close>
  allocate, so they use a number the heap does not have; every other request may come at any
  time, for any client, any number of times.
\<close>

inductive hub_step :: "Hub \<Rightarrow> Hub option \<Rightarrow> bool" where
  serve: "mget (hub_heap h) c = None \<Longrightarrow> hub_step h (Some (hub_register c h))"
| leave: "hub_step h (hub_unregister c h)"
| subscribe: "mget (hub_subheap h) i = None \<Longrightarrow> hub_step h (Some (hub_subscribe n i h))"
| unsubscribe: "hub_step h (hub_unsubscribe i h)"
| post: "hub_step h (hub_Broadcast msg h)"
| relay: "\<forall>xs. mset (ord xs) = mset xs \<Longrightarrow> hub_step h (hub_relay ord h)"
| filter: "hub_step h (Some (hub_set_filter c m sv t h))"
| client: "hub_step h (Some (hub_client_recv c h))"
| reader: "hub_step h (Some (hub_sub_recv i h))"

abbreviation hub_init :: "Hub \<Rightarrow> bool" where
  "hub_init h \<equiv> \<exists>n. h = Hub_New n"

abbreviation hub_reach :: "Hub \<Rightarrow> bool" where
  "hub_reach \<equiv> reachable hub_init hub_step"

inductive_cases hub_stepE: "hub_step h r"

text \<open>
  The invariant: registered clients and subscriptions have an open channel, and no buffer is
  over its capacity.
\<close>

definition hub_inv :: "Hub \<Rightarrow> bool" where
  "hub_inv h \<longleftrightarrow>
     distinct (hub_clients h) \<and> distinct (hub_subs h)
   \<and> (\<forall>c \<in> set (hub_clients h). \<exists>cl. mget (hub_heap h) c = Some cl \<and> \<not> ch_closed (hc_send cl))
   \<and> (\<forall>i \<in> set (hub_subs h). \<exists>ch. mget (hub_subheap h) i = Some ch \<and> \<not> ch_closed ch)
   \<and> (\<forall>c cl. mget (hub_heap h) c = Some cl \<longrightarrow> chan_ok (hc_send cl))
   \<and> (\<forall>i ch. mget (hub_subheap h) i = Some ch \<longrightarrow> chan_ok ch)
   \<and> chan_ok (hub_broadcast h) \<and> \<not> ch_closed (hub_broadcast h)"

lemma hub_inv_New: "hub_inv (Hub_New n)"
  by (simp add: hub_inv_def Hub_New_def Let_def)

text \<open>The client loop: each client in it gets the message iff it allows it and has room.\<close>

definition deliver :: "WSMessage \<Rightarrow> hub_client \<Rightarrow> hub_client" where
  "deliver msg cl =
     (if allowsMessage (hc_filter cl) msg \<and> length (ch_buf (hc_send cl)) < ch_cap (hc_send cl)
      then cl\<lparr>hc_send := hc_send cl\<lparr>ch_buf := ch_buf (hc_send cl) @ [msg]\<rparr>\<rparr> else cl)"

definition enqueue :: "'a \<Rightarrow> 'a chan \<Rightarrow> 'a chan" where
  "enqueue x ch = (if length (ch_buf ch) < ch_cap ch then ch\<lparr>ch_buf := ch_buf ch @ [x]\<rparr> else ch)"

lemma send_clients_eq:
  assumes "distinct cs" and "\<And>c. c \<in> set cs \<Longrightarrow> \<exists>cl. mget heap c = Some cl \<and> \<not> ch_closed (hc_send cl)"
  shows "\<exists>heap'. send_clients msg cs heap = Some heap' \<and>
    (\<forall>c. mget heap' c = (if c \<in> set cs then map_option (deliver msg) (mget heap c) else mget heap c))"
  using assms
proof (induction cs arbitrary: heap)
  case Nil
  then show ?case by simp
next
  case (Cons c cs)
  obtain cl where cl: "mget heap c = Some cl" "\<not> ch_closed (hc_send cl)" using Cons.prems(2) by force
  show ?case
  proof (cases "allowsMessage (hc_filter cl) msg")
    case False
    then have "deliver msg cl = cl" by (simp add: deliver_def)
    then show ?thesis using Cons.IH [of heap] Cons.prems cl False by fastforce
  next
    case True
    let ?ch = "if length (ch_buf (hc_send cl)) < ch_cap (hc_send cl)
      then hc_send cl\<lparr>ch_buf := ch_buf (hc_send cl) @ [msg]\<rparr> else hc_send cl"
    let ?heap = "mput c (cl\<lparr>hc_send := ?ch\<rparr>) heap"
    have send: "try_send msg (hc_send cl) = Some ?ch" using cl(2) by (simp add: try_send_Some)
    have del: "deliver msg cl = cl\<lparr>hc_send := ?ch\<rparr>" using True by (simp add: deliver_def)
    have "\<exists>heap'. send_clients msg cs ?heap = Some heap' \<and>
      (\<forall>x. mget heap' x = (if x \<in> set cs then map_option (deliver msg) (mget ?heap x) else mget ?heap x))"
    proof (rule Cons.IH)
      show "distinct cs" using Cons.prems(1) by simp
      fix x assume "x \<in> set cs"
      then have "x \<noteq> c" "\<exists>cl. mget heap x = Some cl \<and> \<not> ch_closed (hc_send cl)" using Cons.prems by auto
      then show "\<exists>cl. mget ?heap x = Some cl \<and> \<not> ch_closed (hc_send cl)" by simp
    qed
    then obtain heap' where h': "send_clients msg cs ?heap = Some heap'"
      "\<And>x. mget heap' x = (if x \<in> set cs then map_option (deliver msg) (mget ?heap x) else mget ?heap x)"
      by blast
    have "send_clients msg (c # cs) heap = Some heap'" using cl True send h'(1) by simp
    moreover have "mget heap' x = (if x \<in> set (c # cs) then map_option (deliver msg) (mget heap x) else mget heap x)" for x
      using Cons.prems(1) cl del by (simp add: h'(2))
    ultimately show ?thesis by blast
  qed
qed

lemma send_subs_eq:
  assumes "distinct is" and "\<And>i. i \<in> set is \<Longrightarrow> \<exists>ch. mget heap i = Some ch \<and> \<not> ch_closed ch"
  shows "\<exists>heap'. send_subs msg is heap = Some heap' \<and>
    (\<forall>i. mget heap' i = (if i \<in> set is then map_option (enqueue msg) (mget heap i) else mget heap i))"
  using assms
proof (induction "is" arbitrary: heap)
  case Nil
  then show ?case by simp
next
  case (Cons i "is")
  obtain ch where ch: "mget heap i = Some ch" "\<not> ch_closed ch" using Cons.prems(2) by force
  have send: "try_send msg ch = Some (enqueue msg ch)" using ch(2) by (simp add: try_send_Some enqueue_def)
  have "\<exists>heap'. send_subs msg is (mput i (enqueue msg ch) heap) = Some heap' \<and>
      (\<forall>x. mget heap' x = (if x \<in> set is then map_option (enqueue msg) (mget (mput i (enqueue msg ch) heap) x)
                           else mget (mput i (enqueue msg ch) heap) x))"
    using Cons.prems by (intro Cons.IH) auto
  then show ?case using Cons.prems(1) ch send by fastforce
qed

lemma deliver_ok: "chan_ok (hc_send cl) \<Longrightarrow> chan_ok (hc_send (deliver msg cl))"
  by (simp add: deliver_def chan_ok_def)

lemma deliver_closed [simp]: "ch_closed (hc_send (deliver msg cl)) = ch_closed (hc_send cl)"
  by (simp add: deliver_def)

lemma enqueue_ok: "chan_ok ch \<Longrightarrow> chan_ok (enqueue msg ch)"
  by (simp add: enqueue_def chan_ok_def)

lemma enqueue_closed [simp]: "ch_closed (enqueue msg ch) = ch_closed ch"
  by (simp add: enqueue_def)


lemma hub_relay_eq:
  assumes inv: "hub_inv h" and ord: "\<forall>xs. mset (ord xs) = mset (xs :: nat list)"
    and msg: "chan_recv (hub_broadcast h) = (Received msg, ch)"
  obtains h' where "hub_relay ord h = Some h'"
    "\<And>c. mget (hub_heap h') c =
       (if c \<in> set (hub_clients h) then map_option (deliver msg) (mget (hub_heap h) c) else mget (hub_heap h) c)"
    "\<And>i. mget (hub_subheap h') i =
       (if i \<in> set (hub_subs h) then map_option (enqueue msg) (mget (hub_subheap h) i) else mget (hub_subheap h) i)"
    "hub_clients h' = hub_clients h" "hub_subs h' = hub_subs h" "hub_broadcast h' = ch"
    "hub_connections h' = hub_connections h"
proof -
  have perm: "set (ord xs) = set xs" "distinct (ord xs) = distinct xs" for xs
    using ord by (metis set_mset_mset, metis mset_eq_imp_distinct_iff)
  obtain heap where heap: "send_clients msg (ord (hub_clients h)) (hub_heap h) = Some heap"
    "\<forall>c. mget heap c = (if c \<in> set (ord (hub_clients h)) then map_option (deliver msg) (mget (hub_heap h) c)
       else mget (hub_heap h) c)"
    using send_clients_eq [of "ord (hub_clients h)" "hub_heap h" msg] inv by (auto simp: perm hub_inv_def)
  obtain subheap where sub: "send_subs msg (ord (hub_subs h)) (hub_subheap h) = Some subheap"
    "\<forall>i. mget subheap i = (if i \<in> set (ord (hub_subs h)) then map_option (enqueue msg) (mget (hub_subheap h) i)
       else mget (hub_subheap h) i)"
    using send_subs_eq [of "ord (hub_subs h)" "hub_subheap h" msg] inv by (auto simp: perm hub_inv_def)
  show ?thesis
    by (rule that [of "h\<lparr>hub_broadcast := ch, hub_heap := heap, hub_subheap := subheap,
          hub_broadcasts := hub_broadcasts h + 1\<rparr>"])
      (use msg heap sub in \<open>simp_all add: hub_relay_def perm\<close>)
qed

lemma hub_relay_idle:
  "(\<And>msg ch. chan_recv (hub_broadcast h) \<noteq> (Received msg, ch)) \<Longrightarrow> hub_relay ord h = Some h"
  by (auto simp: hub_relay_def split: prod.split recv.split)

lemma hub_inv_relay:
  assumes inv: "hub_inv h" and ord: "\<forall>xs. mset (ord xs) = mset (xs :: nat list)"
  shows "\<exists>h'. hub_relay ord h = Some h' \<and> hub_inv h'"
proof (cases "\<exists>msg ch. chan_recv (hub_broadcast h) = (Received msg, ch)")
  case True
  then obtain msg ch where r: "chan_recv (hub_broadcast h) = (Received msg, ch)" by blast
  obtain h' where h': "hub_relay ord h = Some h'"
    "\<And>c. mget (hub_heap h') c =
       (if c \<in> set (hub_clients h) then map_option (deliver msg) (mget (hub_heap h) c) else mget (hub_heap h) c)"
    "\<And>i. mget (hub_subheap h') i =
       (if i \<in> set (hub_subs h) then map_option (enqueue msg) (mget (hub_subheap h) i) else mget (hub_subheap h) i)"
    "hub_clients h' = hub_clients h" "hub_subs h' = hub_subs h" "hub_broadcast h' = ch"
    using hub_relay_eq [OF inv ord r] by metis
  have "chan_ok ch" "\<not> ch_closed ch"
    using r inv chan_recv_ok [of "hub_broadcast h"] chan_recv_closed [of "hub_broadcast h"]
    by (simp_all add: hub_inv_def)
  then have "hub_inv h'"
    using inv unfolding hub_inv_def h' by (auto simp: deliver_ok enqueue_ok)
  then show ?thesis using h'(1) by blast
next
  case False
  then show ?thesis using hub_relay_idle [of h ord] inv by auto
qed

lemma hub_inv_step:
  assumes inv: "hub_inv h" and step: "hub_step h r"
  shows "\<exists>h'. r = Some h' \<and> hub_inv h'"
  using step
proof cases
  case (serve c)
  then show ?thesis using inv by (auto simp: hub_inv_def hub_register_def)
next
  case (leave c)
  then show ?thesis using inv
    by (auto simp: hub_inv_def hub_unregister_def close_chan_def chan_ok_def distinct_removeAll split: option.split)
next
  case (subscribe i n)
  then show ?thesis using inv by (auto simp: hub_inv_def hub_subscribe_def Let_def)
next
  case (unsubscribe i)
  then show ?thesis using inv
    by (auto simp: hub_inv_def hub_unsubscribe_def close_chan_def chan_ok_def distinct_removeAll split: option.split)
next
  case (post msg)
  then show ?thesis using inv
    by (auto simp: hub_inv_def hub_Broadcast_def try_send_def chan_ok_def)
next
  case (relay ord)
  then show ?thesis using hub_inv_relay [OF inv] by simp
next
  case (filter c m sv t)
  then show ?thesis using inv
    by (auto simp: hub_inv_def hub_set_filter_def split: option.split)
next
  case (client c)
  then show ?thesis using inv
    by (auto simp: hub_inv_def hub_client_recv_def chan_recv_ok split: option.split)
next
  case (reader i)
  then show ?thesis using inv
    by (auto simp: hub_inv_def hub_sub_recv_def chan_recv_ok split: option.split)
qed

interpretation hub_sys: safe_system hub_init hub_step hub_inv
  by unfold_locales (auto simp: hub_inv_New dest: hub_inv_step)

lemmas hub_reach_inv = hub_sys.reach_inv

lemmas hub_next = reachable.step_on [where step = hub_step]

subsection \<open>Properties\<close>

text \<open>
  C15: the hub never panics. In any interleaving of connecting, leaving (even twice),
  subscribing, unsubscribing (even twice), posting, relaying and reading, no channel is closed
  twice and no message is sent on a closed channel, and no buffer grows past its capacity.
\<close>

theorem hub_never_panics:
  assumes "hub_reach h" and "hub_step h r"
  shows "r \<noteq> None \<and> hub_inv (the r)"
  using hub_inv_step [OF hub_reach_inv [OF assms(1)] assms(2)] by auto

text \<open>
  C16: relaying a message delivers it, at the end of the queue and once, to exactly the
  registered clients whose filter allows it and to the subscriptions, as far as they have room;
  no other queue changes, and a client filtered to one tenant gets no other tenant's event.
\<close>

theorem relay_delivers:
  assumes "hub_reach h" and "ch_buf (hub_broadcast h) = msg # rest"
  shows "case hub_relay id h of
      None \<Rightarrow> False
    | Some h' \<Rightarrow> ch_buf (hub_broadcast h') = rest
        \<and> mget (hub_heap h') c = (if c \<in> set (hub_clients h) then map_option (deliver msg) (mget (hub_heap h) c)
                                  else mget (hub_heap h) c)
        \<and> mget (hub_subheap h') i = (if i \<in> set (hub_subs h) then map_option (enqueue msg) (mget (hub_subheap h) i)
                                     else mget (hub_subheap h) i)
        \<and> \<not> (ws_Type msg = ''event'' \<and> hc_filter cl = Some f \<and> cf_TenantID f \<noteq> []
              \<and> snd (snd (payload_fields (ws_Payload msg))) \<noteq> cf_TenantID f \<and> deliver msg cl \<noteq> cl)"
proof -
  have r: "chan_recv (hub_broadcast h) = (Received msg, (hub_broadcast h)\<lparr>ch_buf := rest\<rparr>)"
    using assms(2) by (simp add: chan_recv_def)
  have ord: "\<forall>xs. mset (id xs) = mset (xs :: nat list)" by simp
  obtain h' where h': "hub_relay id h = Some h'"
    "\<And>c. mget (hub_heap h') c =
       (if c \<in> set (hub_clients h) then map_option (deliver msg) (mget (hub_heap h) c) else mget (hub_heap h) c)"
    "\<And>i. mget (hub_subheap h') i =
       (if i \<in> set (hub_subs h) then map_option (enqueue msg) (mget (hub_subheap h) i) else mget (hub_subheap h) i)"
    "hub_broadcast h' = (hub_broadcast h)\<lparr>ch_buf := rest\<rparr>"
    using hub_relay_eq [OF hub_reach_inv [OF assms(1)] ord r] by metis
  show ?thesis
    unfolding h'(1) using h'(2,3,4)
    by (auto simp: deliver_def allowsMessage_def split: prod.splits if_splits)
qed

definition hub_demo :: Hub where
  "hub_demo = the (hub_Broadcast \<lparr>ws_Type = ''event'', ws_Payload = PEvent (zero_event\<lparr>ev_TenantID := ''b''\<rparr>)\<rparr>
     (hub_set_filter 1 [] [] ''a'' (hub_register 1 (hub_register 0 (Hub_New 4)))))"

lemma hub_demo_reach: "hub_reach hub_demo"
proof -
  have 0: "hub_reach (hub_register 0 (Hub_New 4))"
    by (rule hub_next [OF reachable.begin_here hub_step.serve [where h = "Hub_New 4"]])
      (blast, simp add: Hub_New_def Let_def)
  have 1: "hub_reach (hub_register 1 (hub_register 0 (Hub_New 4)))"
    by (rule hub_next [OF 0 hub_step.serve]) (simp add: Hub_New_def hub_register_def Let_def)
  have 2: "hub_reach (hub_set_filter 1 [] [] ''a'' (hub_register 1 (hub_register 0 (Hub_New 4))))"
    by (rule hub_next [OF 1 hub_step.filter])
  have "hub_Broadcast msg (hub_set_filter 1 [] [] ''a'' (hub_register 1 (hub_register 0 (Hub_New 4))))
     = Some (the (hub_Broadcast msg (hub_set_filter 1 [] [] ''a'' (hub_register 1 (hub_register 0 (Hub_New 4))))))" for msg
    using hub_reach_inv [OF 2] by (simp add: hub_Broadcast_def hub_inv_def try_send_def)
  then show ?thesis
    using hub_next [OF 2] hub_step.post unfolding hub_demo_def by metis
qed

lemma hub_never_panics_witness: "hub_unregister 0 hub_demo \<noteq> None \<and> hub_inv (the (hub_unregister 0 hub_demo))"
  by (rule hub_never_panics [OF hub_demo_reach hub_step.leave])

lemma relay_delivers_witness:
  "case hub_relay id hub_demo of
     None \<Rightarrow> False
   | Some h' \<Rightarrow> map_option (\<lambda>cl. length (ch_buf (hc_send cl))) (mget (hub_heap h') 0) = Some 1
       \<and> map_option (\<lambda>cl. length (ch_buf (hc_send cl))) (mget (hub_heap h') 1) = Some 0"
proof -
  let ?msg = "\<lparr>ws_Type = ''event'', ws_Payload = PEvent (zero_event\<lparr>ev_TenantID := ''b''\<rparr>)\<rparr>"
  have buf: "ch_buf (hub_broadcast hub_demo) = [?msg]" by code_simp
  note th = relay_delivers [OF hub_demo_reach buf]
  have "map_option (\<lambda>cl. length (ch_buf (hc_send cl))) (map_option (deliver ?msg) (mget (hub_heap hub_demo) 0)) = Some 1"
    "map_option (\<lambda>cl. length (ch_buf (hc_send cl))) (map_option (deliver ?msg) (mget (hub_heap hub_demo) 1)) = Some 0"
    "0 \<in> set (hub_clients hub_demo)" "1 \<in> set (hub_clients hub_demo)"
    by code_simp+
  then show ?thesis
    using th [where c = 0] th [where c = 1] by (cases "hub_relay id hub_demo") (simp_all only: option.case if_True simp_thms)
qed

end
