(* ===== verification/Processor.thy ===== *)
theory Processor
  imports Alerts Audit_Log Bypass Events Hub Traces
begin

text \<open>
  internal/processor/processor.go: \<open>Process\<close>, the path of every inbound event through
  the subsystems, in the order of the code. The state is the processor with its subsystems;
  what leaves it (hub broadcasts, NATS publications, goroutines that will process or dispatch,
  hook calls) is collected in \<open>Effects\<close>. Everything the code reads from outside during one
  call (clock, random ids, map iteration order, and the time the call took) is an \<open>Env\<close>.
\<close>

record Env =
  env_id :: string
  env_now :: gotime
  env_clk :: "nat \<Rightarrow> gotime"
  env_alert :: "nat \<Rightarrow> gotime"
  env_rid :: "nat \<Rightarrow> string"
  env_ord :: "(string, string) gomap \<Rightarrow> (string, string) gomap"
  env_took :: duration

record Processor =
  pr_store :: Store
  pr_metrics :: Metrics
  pr_alerts :: AlertMgr
  pr_incidents :: IncidentMgr
  pr_honey :: HoneyMgr
  pr_bypass :: "BypassMonitor option"
  pr_signer :: "Signer option"
  pr_validator :: "Validator option"
  pr_pub :: "Publisher option"

record Effects =
  fx_ws :: "WSMessage list"
  fx_pub :: "(string \<times> TrackerEvent) list"
  fx_spawn :: "BastionEvent list"
  fx_jobs :: "DispatchJob list"
  fx_hooks :: "BastionEvent list"

definition no_effects :: Effects where
  "no_effects = \<lparr>fx_ws = [], fx_pub = [], fx_spawn = [], fx_jobs = [], fx_hooks = []\<rparr>"

definition Processor_New :: "Store \<Rightarrow> AlertMgr \<Rightarrow> IncidentMgr \<Rightarrow> HoneyMgr \<Rightarrow> Processor" where
  "Processor_New s al inc ht =
     \<lparr>pr_store = s, pr_metrics = zero_metrics, pr_alerts = al, pr_incidents = inc, pr_honey = ht,
      pr_bypass = None, pr_signer = None, pr_validator = None, pr_pub = None\<rparr>"

definition SetBypassMonitor :: "BypassMonitor \<Rightarrow> Processor \<Rightarrow> Processor" where
  "SetBypassMonitor m p = p\<lparr>pr_bypass := Some m\<rparr>"

definition SetPublisher :: "Publisher \<Rightarrow> Processor \<Rightarrow> Processor" where
  "SetPublisher pub p = p\<lparr>pr_pub := Some pub\<rparr>"

definition SetSigner :: "Signer \<Rightarrow> Processor \<Rightarrow> Processor" where
  "SetSigner sg p = p\<lparr>pr_signer := Some sg\<rparr>"

definition SetValidator :: "Validator \<Rightarrow> Processor \<Rightarrow> Processor" where
  "SetValidator v p = p\<lparr>pr_validator := Some v\<rparr>"

subsection \<open>The stages of Process\<close>

definition enrich :: "Env \<Rightarrow> BastionEvent \<Rightarrow> BastionEvent" where
  "enrich env ev =
     (let ev1 = (if ev_EventID ev = [] then ev\<lparr>ev_EventID := env_id env\<rparr> else ev);
          ev2 = (if time_IsZero (ev_Timestamp ev1) then ev1\<lparr>ev_Timestamp := env_now env\<rparr> else ev1)
      in if ev_Severity ev2 = [] then ev2\<lparr>ev_Severity := ''info''\<rparr> else ev2)"

definition rejection :: "Processor \<Rightarrow> BastionEvent \<Rightarrow> invalid_event option" where
  "rejection p ev = (case pr_validator p of None \<Rightarrow> None | Some _ \<Rightarrow> Validate ev)"

definition reject_step ::
    "(BastionEvent \<Rightarrow> string) \<Rightarrow> Env \<Rightarrow> BastionEvent \<Rightarrow> invalid_event \<Rightarrow> Processor \<Rightarrow> Processor" where
  "reject_step marshal env ev err p =
     (case pr_validator p of
        None \<Rightarrow> p
      | Some v \<Rightarrow>
          let (v', mx') = Reject marshal (env_clk env 0) ev (invalid_text go_quote err) (v, pr_metrics p)
          in p\<lparr>pr_validator := Some v', pr_metrics := mx'\<rparr>)"

definition sign_stage :: "(string \<Rightarrow> string \<Rightarrow> string) \<Rightarrow> Processor \<Rightarrow> BastionEvent \<Rightarrow> BastionEvent" where
  "sign_stage mac p ev = (case pr_signer p of None \<Rightarrow> ev | Some sg \<Rightarrow> Sign mac sg ev)"

definition chunk_entry :: "BastionEvent \<Rightarrow> ChunkLineageEntry" where
  "chunk_entry ev =
     \<lparr>cl_ChunkID = data_string ev ''chunk_id'', cl_DocumentID = data_string ev ''document_id'',
      cl_Score = (case as_float (ev_Data ev) ''score'' of Some v \<Rightarrow> v | None \<Rightarrow> 0),
      cl_Rank = (case as_float (ev_Data ev) ''rank'' of Some v \<Rightarrow> trunc_rat v | None \<Rightarrow> 0),
      cl_Collection = data_string ev ''collection'', cl_TenantID = ev_TenantID ev\<rparr>"

definition store_stage :: "BastionEvent \<Rightarrow> Store \<Rightarrow> Store" where
  "store_stage ev s =
     (let s1 = UpsertTrace ev (AddEvent ev s)
      in if ev_EventType ev = ''chunk_retrieved'' \<and> ev_TraceID ev \<noteq> []
         then AddChunkLineage (ev_TraceID ev) (chunk_entry ev) s1 else s1)"

definition bypass_stage :: "Env \<Rightarrow> BastionEvent \<Rightarrow> BypassMonitor option \<Rightarrow> BypassMonitor option \<times> BastionEvent list" where
  "bypass_stage env ev bp =
     (case bp of
        None \<Rightarrow> (None, [])
      | Some m \<Rightarrow>
          let (m', out) = Bypass_Check (env_ord env) (env_clk env 1) (env_clk env 2) ev m
          in (Some m', case out of None \<Rightarrow> [] | Some an \<Rightarrow> [an]))"

definition honey_publication :: "Env \<Rightarrow> Publisher option \<Rightarrow> BastionEvent \<Rightarrow> string \<Rightarrow> (string \<times> TrackerEvent) list" where
  "honey_publication env pub ev tokenID =
     (if tokenID \<noteq> []
      then Publish pub (EventHoneyTokenAlert (env_rid env 0) (env_clk env 4) tokenID
             (tokenID @ ''-trg-'' @ ev_EventID ev) (ev_TenantID ev) (ev_TraceID ev))
      else [])"

definition incident_publication :: "Env \<Rightarrow> Publisher option \<Rightarrow> BastionEvent \<Rightarrow> Incident \<Rightarrow> (string \<times> TrackerEvent) list" where
  "incident_publication env pub ev inc =
     Publish pub (EventIncidentCreated (env_rid env 1) (env_clk env 7) (inc_IncidentID inc) (inc_Title inc)
       (inc_Severity inc) (inc_TenantID inc) (ev_TraceID ev))"

definition accept_step ::
    "(string \<Rightarrow> string \<Rightarrow> string) \<Rightarrow> Env \<Rightarrow> BastionEvent \<Rightarrow> Processor \<Rightarrow> Processor \<times> Effects" where
  "accept_step mac env ev0 p =
     (let mx1 = (pr_metrics p)\<lparr>mx_EventsReceived :=
            vec_inc [ev_Module ev0, ev_EventType ev0] (mx_EventsReceived (pr_metrics p))\<rparr>;
          ev = sign_stage mac p ev0;
          s1 = store_stage ev (pr_store p);
          mx2 = (if ev_PipelineType ev \<noteq> []
                 then mx1\<lparr>mx_PipelineRequests := vec_inc [ev_PipelineType ev, ev_Status ev] (mx_PipelineRequests mx1)\<rparr>
                 else mx1);
          (bp', spawn) = bypass_stage env ev (pr_bypass p);
          (tokenID, s2, mx3) = CheckEvent (env_clk env 3) ev (s1, mx2);
          pub1 = honey_publication env (pr_pub p) ev tokenID;
          (inc, im', s3, mx4) = AutoCreate (env_clk env 5) (env_clk env 6) ev (pr_incidents p, s2, mx3);
          ws1 = (case inc of None \<Rightarrow> [] | Some i \<Rightarrow> [\<lparr>ws_Type = ''incident'', ws_Payload = PIncident i\<rparr>]);
          pub2 = (case inc of None \<Rightarrow> [] | Some i \<Rightarrow> incident_publication env (pr_pub p) ev i);
          (am', s4, mx5, fired, jobs) = Evaluate (env_alert env) ev (pr_alerts p, s3, mx4);
          ws2 = map (\<lambda>al. \<lparr>ws_Type = ''alert'', ws_Payload = PAlert al\<rparr>) fired;
          mx6 = mx5\<lparr>mx_EventsProcessed := vec_inc [ev_Module ev] (mx_EventsProcessed mx5),
                    mx_ProcessingDuration := vec_observe [ev_Module ev] (env_took env) (mx_ProcessingDuration mx5)\<rparr>
      in (p\<lparr>pr_store := s4, pr_metrics := mx6, pr_alerts := am', pr_incidents := im', pr_bypass := bp'\<rparr>,
          \<lparr>fx_ws = ws1 @ ws2 @ [\<lparr>ws_Type = ''event'', ws_Payload = PEvent ev\<rparr>], fx_pub = pub1 @ pub2,
           fx_spawn = spawn, fx_jobs = jobs, fx_hooks = [ev]\<rparr>))"

definition Process ::
    "(string \<Rightarrow> string \<Rightarrow> string) \<Rightarrow> (BastionEvent \<Rightarrow> string) \<Rightarrow> Env \<Rightarrow> BastionEvent \<Rightarrow> Processor \<Rightarrow> Processor \<times> Effects" where
  "Process mac marshal env ev p =
     (let ev1 = enrich env ev
      in case rejection p ev1 of
           Some err \<Rightarrow> (reject_step marshal env ev1 err p, no_effects)
         | None \<Rightarrow> accept_step mac env ev1 p)"

subsection \<open>What the stages keep\<close>

lemma enrich_fields:
  "ev_EventID (enrich env ev) = (if ev_EventID ev = [] then env_id env else ev_EventID ev)"
  "ev_Timestamp (enrich env ev) = (if ev_Timestamp ev = 0 then env_now env else ev_Timestamp ev)"
  "ev_Severity (enrich env ev) = (if ev_Severity ev = [] then ''info'' else ev_Severity ev)"
  "ev_Module (enrich env ev) = ev_Module ev" "ev_EventType (enrich env ev) = ev_EventType ev"
  "ev_Status (enrich env ev) = ev_Status ev" "ev_TenantID (enrich env ev) = ev_TenantID ev"
  "ev_TraceID (enrich env ev) = ev_TraceID ev"
  by (simp_all add: enrich_def Let_def time_IsZero_def)

lemma sign_stage_fields [simp]:
  "ev_EventID (sign_stage mac p ev) = ev_EventID ev" "ev_Timestamp (sign_stage mac p ev) = ev_Timestamp ev"
  "ev_Severity (sign_stage mac p ev) = ev_Severity ev" "ev_Module (sign_stage mac p ev) = ev_Module ev"
  "ev_EventType (sign_stage mac p ev) = ev_EventType ev" "ev_Status (sign_stage mac p ev) = ev_Status ev"
  "ev_TenantID (sign_stage mac p ev) = ev_TenantID ev" "ev_TraceID (sign_stage mac p ev) = ev_TraceID ev"
  by (simp_all add: sign_stage_def Sign_def split: option.split)

text \<open>The parts of the store that decide its invariants.\<close>

definition same_ring :: "Store \<Rightarrow> Store \<Rightarrow> bool" where
  "same_ring s s' \<longleftrightarrow> st_events s' = st_events s \<and> st_head s' = st_head s \<and> st_count s' = st_count s
     \<and> st_maxEvents s' = st_maxEvents s"

lemma same_ring_newest: "same_ring s s' \<Longrightarrow> newest s' = newest s \<and> ring_ok s' = ring_ok s \<and> st_maxEvents s' = st_maxEvents s"
  by (simp add: same_ring_def newest_def ring_size_def ring_at_def [abs_def] ring_idx_def ring_ok_def)

lemma same_ring_trans: "same_ring a b \<Longrightarrow> same_ring b c \<Longrightarrow> same_ring a c"
  by (simp add: same_ring_def)

lemma store_stage_ring: "same_ring (AddEvent ev s) (store_stage ev s)"
  by (simp add: same_ring_def store_stage_def UpsertTrace_def AddChunkLineage_def Let_def)

lemma store_stage_tables:
  "st_incidents (store_stage ev s) = st_incidents s" "st_alerts (store_stage ev s) = st_alerts s"
  "st_tokens (store_stage ev s) = st_tokens s" "st_triggers (store_stage ev s) = st_triggers s"
  by (simp_all add: store_stage_def UpsertTrace_def AddChunkLineage_def AddEvent_def Let_def)

lemma CheckEvent_frame:
  "CheckEvent now ev (s, mx) = (t, s', mx') \<Longrightarrow>
     same_ring s s' \<and> st_incidents s' = st_incidents s \<and> st_alerts s' = st_alerts s"
  by (auto simp: CheckEvent_def RecordTrigger_def same_ring_def Let_def split: if_splits option.splits)

lemma Evaluate_frame:
  assumes "Evaluate clk ev (m, s, mx) = (m', s', mx', fired, jobs)"
  shows "same_ring s s' \<and> st_incidents s' = st_incidents s \<and> st_tokens s' = st_tokens s
    \<and> st_triggers s' = st_triggers s \<and> st_traces s' = st_traces s"
  using eval_fold [OF assms [unfolded Evaluate_def split_conv]] fold_AddAlert_frame
  by (simp add: same_ring_def)

text \<open>
  The accepted event's way through the subsystems, with the intermediate results named.
\<close>

lemma accept_step_cases:
  assumes "accept_step mac env ev0 p = (p', fx)"
  obtains ev mx2 tokenID s2 mx3 inc s3 mx4 s4 mx5 fired jobs
  where "ev = sign_stage mac p ev0"
    and "CheckEvent (env_clk env 3) ev (store_stage ev (pr_store p), mx2) = (tokenID, s2, mx3)"
    and "AutoCreate (env_clk env 5) (env_clk env 6) ev (pr_incidents p, s2, mx3) = (inc, pr_incidents p', s3, mx4)"
    and "Evaluate (env_alert env) ev (pr_alerts p, s3, mx4) = (pr_alerts p', s4, mx5, fired, jobs)"
    and "pr_store p' = s4" and "pr_honey p' = pr_honey p" and "pr_signer p' = pr_signer p"
    and "pr_validator p' = pr_validator p" and "pr_pub p' = pr_pub p"
    and "(pr_bypass p', fx_spawn fx) = bypass_stage env ev (pr_bypass p)"
    and "fx_ws fx = (case inc of None \<Rightarrow> [] | Some i \<Rightarrow> [\<lparr>ws_Type = ''incident'', ws_Payload = PIncident i\<rparr>])
           @ map (\<lambda>al. \<lparr>ws_Type = ''alert'', ws_Payload = PAlert al\<rparr>) fired
           @ [\<lparr>ws_Type = ''event'', ws_Payload = PEvent ev\<rparr>]"
    and "fx_jobs fx = jobs" and "fx_hooks fx = [ev]"
    and "mx_ActiveAlerts mx2 = mx_ActiveAlerts (pr_metrics p)"
    and "mx_ActiveAlerts (pr_metrics p') = mx_ActiveAlerts mx5"
proof -
  define ev where "ev = sign_stage mac p ev0"
  define mx1 where "mx1 = (pr_metrics p)\<lparr>mx_EventsReceived :=
            vec_inc [ev_Module ev0, ev_EventType ev0] (mx_EventsReceived (pr_metrics p))\<rparr>"
  define mx2 where "mx2 = (if ev_PipelineType ev \<noteq> []
                 then mx1\<lparr>mx_PipelineRequests := vec_inc [ev_PipelineType ev, ev_Status ev] (mx_PipelineRequests mx1)\<rparr>
                 else mx1)"
  obtain bp spawn where bp: "bypass_stage env ev (pr_bypass p) = (bp, spawn)" by fastforce
  obtain tok s2 mx3 where ht: "CheckEvent (env_clk env 3) ev (store_stage ev (pr_store p), mx2) = (tok, s2, mx3)"
    by (metis prod_cases3)
  obtain inc im s3 mx4 where ac: "AutoCreate (env_clk env 5) (env_clk env 6) ev (pr_incidents p, s2, mx3) = (inc, im, s3, mx4)"
    by (metis prod_cases4)
  obtain am s4 mx5 fired jobs where al: "Evaluate (env_alert env) ev (pr_alerts p, s3, mx4) = (am, s4, mx5, fired, jobs)"
    by (metis prod_cases5)
  note res = assms [unfolded accept_step_def Let_def, folded ev_def, folded mx1_def, folded mx2_def,
      unfolded bp ht ac al split_conv, unfolded prod.inject]
  show ?thesis
    by (rule that [of ev mx2 tok s2 mx3 inc s3 mx4 s4 mx5 fired jobs])
      (use res ev_def bp ht ac al in \<open>auto simp: mx2_def mx1_def\<close>)
qed

subsection \<open>The invariant of the tracker\<close>

definition severities :: "string set" where
  "severities = {''info'', ''warning'', ''error'', ''critical''}"

definition event_ok :: "(string \<Rightarrow> string \<Rightarrow> string) \<Rightarrow> Processor \<Rightarrow> BastionEvent \<Rightarrow> bool" where
  "event_ok mac p ev \<longleftrightarrow> ev_EventID ev \<noteq> [] \<and> ev_Timestamp ev \<noteq> 0
     \<and> (pr_validator p \<noteq> None \<longrightarrow> Validate ev = None \<and> ev_Severity ev \<in> severities)
     \<and> (case pr_signer p of None \<Rightarrow> True | Some sg \<Rightarrow> Verify mac sg ev)"

definition tracker_inv :: "(string \<Rightarrow> string \<Rightarrow> string) \<Rightarrow> Processor \<Rightarrow> bool" where
  "tracker_inv mac p \<longleftrightarrow>
     ring_ok (pr_store p)
   \<and> honey_inv (hm_seq (pr_honey p)) (pr_store p)
   \<and> issued (GetIncident (pr_store p)) inc_ident (im_seq (pr_incidents p))
   \<and> alerts_inv (am_seq (pr_alerts p)) (pr_store p)
   \<and> (case pr_validator p of None \<Rightarrow> True | Some v \<Rightarrow> letters_ok v)
   \<and> (\<forall>ev \<in> set (newest (pr_store p)). event_ok mac p ev)"

text \<open>What the environment of a call has to satisfy: a clock past year one, a non-empty id.\<close>

definition env_ok :: "Env \<Rightarrow> bool" where
  "env_ok env \<longleftrightarrow> env_id env \<noteq> [] \<and> env_now env \<noteq> 0"

lemma event_ok_cong:
  "pr_signer p' = pr_signer p \<Longrightarrow> (pr_validator p' = None) = (pr_validator p = None) \<Longrightarrow>
     event_ok mac p' ev = event_ok mac p ev"
  by (simp add: event_ok_def)

lemma alerts_inv_frame: "st_alerts s' = st_alerts s \<Longrightarrow> alerts_inv n s' = alerts_inv n s"
  by (simp add: alerts_inv_def GetAlert_def [abs_def])

lemma issued_incidents_frame:
  "st_incidents s' = st_incidents s \<Longrightarrow> GetIncident s' = GetIncident s"
  by (simp add: GetIncident_def [abs_def])

lemma validSeverities_set: "set validSeverities = insert [] severities"
  by (simp add: validSeverities_def severities_def)

lemma enriched_event_ok:
  assumes "env_ok env" and "mac_ok mac" and "rejection p (enrich env ev) = None"
  shows "event_ok mac p (sign_stage mac p (enrich env ev))"
proof -
  let ?ev = "enrich env ev"
  have id: "ev_EventID ?ev \<noteq> []" "ev_Timestamp ?ev \<noteq> 0" "ev_Severity ?ev \<noteq> []"
    using assms(1) by (simp_all add: enrich_fields env_ok_def)
  have sev: "ev_Severity ?ev \<in> severities" if "Validate ?ev = None"
    using that id(3) unfolding Validate_None validSeverities_set by simp
  have val: "Validate (sign_stage mac p ?ev) = Validate ?ev"
    by (simp add: Validate_def)
  have sig: "case pr_signer p of None \<Rightarrow> True | Some sg \<Rightarrow> Verify mac sg (sign_stage mac p ?ev)"
    using Verify_Sign [OF assms(2)] by (simp add: sign_stage_def split: option.split)
  have nv: "Validate ?ev = None" if "pr_validator p \<noteq> None"
    using assms(3) that by (auto simp: rejection_def)
  show ?thesis
    unfolding event_ok_def val sign_stage_fields using id(1,2) sig sev nv
    by (cases "pr_validator p = None") simp_all
qed

lemma accepted_ring:
  assumes "ring_ok s" and "CheckEvent now e (store_stage e s, mx2) = (tok, s2, mx3)"
    and "AutoCreate now2 now3 e (im, s2, mx3) = (inc, im', s3, mx4)"
    and "Evaluate clk e (am, s3, mx4) = (am', s4, mx5, fired, jobs)"
  shows "newest s4 = newest (AddEvent e s) \<and> ring_ok s4 \<and> st_maxEvents s4 = st_maxEvents s"
proof -
  have "same_ring (AddEvent e s) s4"
    using store_stage_ring [of e s] CheckEvent_frame [OF assms(2)] AutoCreate_frame [OF assms(3)] Evaluate_frame [OF assms(4)]
    by (simp add: same_ring_def)
  moreover have "ring_ok (AddEvent e s)" "st_maxEvents (AddEvent e s) = st_maxEvents s"
    using assms(1) ring.wf_push ring.cap_push by blast+
  ultimately show ?thesis using same_ring_newest by simp
qed

lemma tracker_inv_accept:
  assumes inv: "tracker_inv mac p" and env: "env_ok env" and mac: "mac_ok mac"
    and acc: "rejection p (enrich env ev) = None"
    and step: "accept_step mac env (enrich env ev) p = (p', fx)"
  shows "tracker_inv mac p'
    \<and> newest (pr_store p') = take (st_maxEvents (pr_store p)) (sign_stage mac p (enrich env ev) # newest (pr_store p))
    \<and> st_maxEvents (pr_store p') = st_maxEvents (pr_store p)"
proof (rule accept_step_cases [OF step])
  fix e mx2 tok s2 mx3 inc s3 mx4 s4 mx5 fired jobs
  assume e: "e = sign_stage mac p (enrich env ev)"
    and ht: "CheckEvent (env_clk env 3) e (store_stage e (pr_store p), mx2) = (tok, s2, mx3)"
    and ac: "AutoCreate (env_clk env 5) (env_clk env 6) e (pr_incidents p, s2, mx3) = (inc, pr_incidents p', s3, mx4)"
    and al: "Evaluate (env_alert env) e (pr_alerts p, s3, mx4) = (pr_alerts p', s4, mx5, fired, jobs)"
    and s4: "pr_store p' = s4" and p': "pr_honey p' = pr_honey p" "pr_signer p' = pr_signer p"
      "pr_validator p' = pr_validator p"
  note i = inv [unfolded tracker_inv_def]
  have ring: "newest s4 = newest (AddEvent e (pr_store p))" "ring_ok s4" "st_maxEvents s4 = st_maxEvents (pr_store p)"
    using accepted_ring [OF _ ht ac al] i by simp_all
  have new: "newest s4 = take (st_maxEvents (pr_store p)) (e # newest (pr_store p))"
    unfolding ring(1) using i by (intro newest_AddEvent) simp
  have "honey_inv (hm_seq (pr_honey p)) (store_stage e (pr_store p))"
    using i honey_inv_frame [of "store_stage e (pr_store p)" "pr_store p"] by (simp add: store_stage_tables)
  then have "honey_inv (hm_seq (pr_honey p)) s2" using honey_inv_CheckEvent ht by blast
  then have honey: "honey_inv (hm_seq (pr_honey p)) s4"
    using honey_inv_frame [of s4 s2] AutoCreate_frame [OF ac] Evaluate_frame [OF al] by simp
  have "GetIncident s2 = GetIncident (pr_store p)"
    using CheckEvent_frame [OF ht] by (intro issued_incidents_frame) (simp add: store_stage_tables)
  then have "issued (GetIncident s2) inc_ident (im_seq (pr_incidents p))" using i by simp
  then have "issued (GetIncident s3) inc_ident (im_seq (pr_incidents p'))"
    using AutoCreate_issued [OF _ ac] by blast
  then have incs: "issued (GetIncident s4) inc_ident (im_seq (pr_incidents p'))"
    using issued_incidents_frame [of s4 s3] Evaluate_frame [OF al] by simp
  have "st_alerts s3 = st_alerts (pr_store p)"
    using AutoCreate_frame [OF ac] CheckEvent_frame [OF ht] by (simp add: store_stage_tables)
  then have "alerts_inv (am_seq (pr_alerts p)) s3" using i alerts_inv_frame by blast
  then have alerts: "alerts_inv (am_seq (pr_alerts p')) s4"
    using eval_fold [OF al [unfolded Evaluate_def split_conv]] stores_fired by (metis (no_types, lifting))
  have "event_ok mac p e" unfolding e by (rule enriched_event_ok [OF env mac acc])
  then have "\<forall>ev \<in> set (newest s4). event_ok mac p ev"
    using i set_take_subset [of "st_maxEvents (pr_store p)" "e # newest (pr_store p)"] unfolding new by auto
  then have evs: "\<forall>ev \<in> set (newest s4). event_ok mac p' ev"
    using event_ok_cong [of p' p] p' by simp
  show ?thesis
    using ring(2,3) honey incs alerts evs i new unfolding tracker_inv_def s4 p' e by simp
qed

lemma tracker_inv_reject:
  assumes inv: "tracker_inv mac p"
  shows "tracker_inv mac (reject_step marshal env ev err p)
    \<and> pr_store (reject_step marshal env ev err p) = pr_store p"
proof (cases "pr_validator p")
  case None
  then show ?thesis using inv by (simp add: reject_step_def)
next
  case (Some v)
  let ?dl = "\<lparr>dl_ReceivedAt = env_clk env 0, dl_Reason = invalid_text go_quote err, dl_Raw = marshal ev\<rparr>"
  let ?p = "p\<lparr>pr_validator := Some (add_dead_letter ?dl v),
    pr_metrics := (pr_metrics p)\<lparr>mx_EventsRejected := mx_EventsRejected (pr_metrics p) + 1\<rparr>\<rparr>"
  have p: "reject_step marshal env ev err p = ?p"
    using Some by (simp add: reject_step_def Reject_def)
  have ok: "letters_ok (add_dead_letter ?dl v)"
    by (rule letters.wf_push) (use inv Some in \<open>simp add: tracker_inv_def\<close>)
  have "event_ok mac ?p e = event_ok mac p e" for e by (rule event_ok_cong) (simp_all add: Some)
  then show ?thesis unfolding p using inv ok by (simp add: tracker_inv_def)
qed

lemma tracker_inv_Process:
  assumes "tracker_inv mac p" and "env_ok env" and "mac_ok mac" and "Process mac marshal env ev p = (p', fx)"
  shows "tracker_inv mac p'"
proof (cases "rejection p (enrich env ev)")
  case None
  then show ?thesis
    using assms(4) tracker_inv_accept [OF assms(1,2,3) None, of p' fx] by (simp add: Process_def Let_def)
next
  case (Some err)
  then show ?thesis using assms(4) tracker_inv_reject [OF assms(1)] by (auto simp: Process_def Let_def)
qed

text \<open>A run of the processor: events with their environments, in the order they are processed.\<close>

definition process_all ::
    "(string \<Rightarrow> string \<Rightarrow> string) \<Rightarrow> (BastionEvent \<Rightarrow> string) \<Rightarrow> (Env \<times> BastionEvent) list \<Rightarrow> Processor \<Rightarrow> Processor" where
  "process_all mac marshal evs p = fold (\<lambda>(env, ev) p. fst (Process mac marshal env ev p)) evs p"

lemma tracker_inv_process_all:
  "tracker_inv mac p \<Longrightarrow> mac_ok mac \<Longrightarrow> \<forall>(env, ev) \<in> set evs. env_ok env \<Longrightarrow>
     tracker_inv mac (process_all mac marshal evs p)"
proof (induction evs arbitrary: p)
  case (Cons e evs)
  obtain env ev where e: "e = (env, ev)" by fastforce
  obtain p1 fx where run: "Process mac marshal env ev p = (p1, fx)" by fastforce
  have "tracker_inv mac p1"
    using tracker_inv_Process [OF Cons.prems(1) _ Cons.prems(2) run] Cons.prems(3) e by simp
  then show ?case using Cons.IH [of p1] Cons.prems e run by (simp add: process_all_def)
qed (simp add: process_all_def)

lemma Process_keeps:
  assumes "Process mac marshal env ev p = (p', fx)"
  shows "pr_signer p' = pr_signer p \<and> (pr_validator p' = None) = (pr_validator p = None)"
proof (cases "rejection p (enrich env ev)")
  case None
  then have "accept_step mac env (enrich env ev) p = (p', fx)" using assms by (simp add: Process_def Let_def)
  then show ?thesis by (rule accept_step_cases) simp
next
  case (Some err)
  then show ?thesis using assms
    by (auto simp: Process_def Let_def reject_step_def Reject_def split: option.splits)
qed

lemma process_all_keeps:
  "pr_signer (process_all mac marshal evs p) = pr_signer p
   \<and> (pr_validator (process_all mac marshal evs p) = None) = (pr_validator p = None)"
proof (induction evs arbitrary: p)
  case (Cons e evs)
  obtain env ev p1 fx where e: "e = (env, ev)" "Process mac marshal env ev p = (p1, fx)" by (metis surj_pair)
  then show ?case using Cons.IH [of p1] Process_keeps [OF e(2)] by (simp add: process_all_def)
qed (simp add: process_all_def)

definition tracker_init :: "int \<Rightarrow> AlertRule list \<Rightarrow> string \<Rightarrow> Processor" where
  "tracker_init n rules secret =
     SetValidator \<lparr>va_deadLetters = []\<rparr> (SetSigner (Signer_New secret)
       (Processor_New (Store_New n) \<lparr>am_rules = rules, am_seq = 0\<rparr> \<lparr>im_seq = 0\<rparr> \<lparr>hm_seq = 0\<rparr>))"

lemma tracker_inv_init: "tracker_inv mac (tracker_init n rules secret)"
  by (simp add: tracker_inv_def tracker_init_def SetValidator_def SetSigner_def Processor_New_def
      ring_ok_New honey_inv_New alerts_inv_New issued_def GetIncident_def)
    (simp add: Store_New_def Let_def)

subsection \<open>Properties\<close>

text \<open>What a run lets through, and what it turns away.\<close>

definition accepted :: "(Env \<times> BastionEvent) list \<Rightarrow> BastionEvent list" where
  "accepted evs = filter (\<lambda>ev. Validate ev = None) (map (\<lambda>(env, ev). enrich env ev) evs)"

definition rejected :: "(Env \<times> BastionEvent) list \<Rightarrow> (BastionEvent \<times> invalid_event) list" where
  "rejected evs = concat (map (\<lambda>(env, ev). case Validate (enrich env ev) of
     None \<Rightarrow> [] | Some err \<Rightarrow> [(enrich env ev, err)]) evs)"

lemma process_all_Cons:
  "process_all mac marshal ((env, ev) # evs) p = process_all mac marshal evs (fst (Process mac marshal env ev p))"
  by (simp add: process_all_def)

lemma Process_accepts:
  assumes inv: "tracker_inv mac p" and env: "env_ok env" and mac: "mac_ok mac"
    and acc: "rejection p (enrich env ev) = None"
  shows "newest (pr_store (fst (Process mac marshal env ev p)))
      = take (st_maxEvents (pr_store p)) (sign_stage mac p (enrich env ev) # newest (pr_store p))
    \<and> st_maxEvents (pr_store (fst (Process mac marshal env ev p))) = st_maxEvents (pr_store p)
    \<and> pr_validator (fst (Process mac marshal env ev p)) = pr_validator p"
proof -
  obtain p' fx where step: "accept_step mac env (enrich env ev) p = (p', fx)" by fastforce
  have P: "Process mac marshal env ev p = (p', fx)" using acc step by (simp add: Process_def Let_def)
  have "pr_validator p' = pr_validator p" using step by (rule accept_step_cases) simp
  then show ?thesis using tracker_inv_accept [OF inv env mac acc step] P by simp
qed

lemma Process_rejects:
  assumes "Process mac marshal env ev p = (p1, fx)" and "Validate (enrich env ev) = Some err"
    and "pr_validator p = Some v" and "letters_ok v"
  obtains v1 where "pr_store p1 = pr_store p" "pr_validator p1 = Some v1"
    "map dl_Reason (va_deadLetters v1) = keep_last maxDeadLetters (map dl_Reason (va_deadLetters v) @ [invalid_text go_quote err])"
proof -
  let ?dl = "\<lparr>dl_ReceivedAt = env_clk env 0, dl_Reason = invalid_text go_quote err, dl_Raw = marshal (enrich env ev)\<rparr>"
  have "va_deadLetters (add_dead_letter ?dl v) = keep_last maxDeadLetters (va_deadLetters v @ [?dl])"
    using letters.view_push assms(4) by blast
  then show thesis
    using assms(1-3)
    by (intro that [of "add_dead_letter ?dl v"])
      (auto simp: Process_def Let_def rejection_def reject_step_def Reject_def map_keep_last)
qed

lemma run_store:
  "tracker_inv mac p \<Longrightarrow> mac_ok mac \<Longrightarrow> list_all (\<lambda>(env, ev). env_ok env) evs \<Longrightarrow>
   pr_validator p = Some v \<Longrightarrow> pr_signer p = Some sg \<Longrightarrow>
     newest (pr_store (process_all mac marshal evs p))
       = take (st_maxEvents (pr_store p)) (rev (map (Sign mac sg) (accepted evs)) @ newest (pr_store p))
   \<and> map dl_Reason (va_deadLetters (the (pr_validator (process_all mac marshal evs p))))
       = keep_last maxDeadLetters (map dl_Reason (va_deadLetters v)
           @ map (\<lambda>(ev, err). invalid_text go_quote err) (rejected evs))"
proof (induction evs arbitrary: p v)
  case Nil
  have "letters_ok v" using Nil.prems by (simp add: tracker_inv_def)
  then show ?case using Nil.prems
    by (simp add: process_all_def accepted_def rejected_def keep_last_short newest_def ring_size_def)
next
  case (Cons e evs)
  obtain env ev where e: "e = (env, ev)" by fastforce
  obtain p1 fx where run: "Process mac marshal env ev p = (p1, fx)" by fastforce
  have env: "env_ok env" using Cons.prems(3) e by simp
  have inv: "tracker_inv mac p1" by (rule tracker_inv_Process [OF Cons.prems(1) env Cons.prems(2) run])
  have sg: "pr_signer p1 = Some sg" using Process_keeps [OF run] Cons.prems(5) by simp
  have all: "list_all (\<lambda>(env, ev). env_ok env) evs" using Cons.prems(3) by simp
  have fst: "fst (Process mac marshal env ev p) = p1" by (simp add: run)
  have vok: "letters_ok v" using Cons.prems(1,4) by (simp add: tracker_inv_def)
  show ?case
  proof (cases "Validate (enrich env ev)")
    case None
    have acc: "rejection p (enrich env ev) = None" using None Cons.prems(4) by (simp add: rejection_def)
    note P = Process_accepts [OF Cons.prems(1) env Cons.prems(2) acc, of marshal, unfolded fst]
    have v1: "pr_validator p1 = Some v" using P Cons.prems(4) by simp
    have s: "sign_stage mac p (enrich env ev) = Sign mac sg (enrich env ev)"
      using Cons.prems(5) by (simp add: sign_stage_def)
    have lists: "accepted (e # evs) = enrich env ev # accepted evs" "rejected (e # evs) = rejected evs"
      using None by (simp_all add: e accepted_def rejected_def)
    note IH = Cons.IH [OF inv Cons.prems(2) all v1 sg]
    show ?thesis unfolding e process_all_Cons fst unfolding lists [unfolded e]
      using IH P by (simp add: s take_append_take)
  next
    case (Some err)
    obtain v1 where p1: "pr_store p1 = pr_store p" "pr_validator p1 = Some v1"
      and dl: "map dl_Reason (va_deadLetters v1) = keep_last maxDeadLetters (map dl_Reason (va_deadLetters v) @ [invalid_text go_quote err])"
      using Process_rejects [OF run Some Cons.prems(4) vok] by blast
    have lists: "accepted (e # evs) = accepted evs" "rejected (e # evs) = (enrich env ev, err) # rejected evs"
      using Some by (simp_all add: e accepted_def rejected_def)
    note IH = Cons.IH [OF inv Cons.prems(2) all p1(2) sg]
    show ?thesis unfolding e process_all_Cons fst unfolding lists [unfolded e]
      using IH by (simp add: p1(1) dl keep_last_keep_last_append)
  qed
qed

text \<open>
  C2: the processor stores what is valid and dead-letters the rest. After any run from
  start-up the store holds, newest first, the last \<open>maxEvents\<close> valid events, each with its id,
  timestamp and severity defaults filled in and signed; the dead-letter buffer holds the reasons
  of the last 200 invalid ones, which leave no other trace in the store.
\<close>

theorem run_stores_exactly_the_valid:
  assumes "mac_ok mac" and "list_all (\<lambda>(env, ev). env_ok env) evs"
  shows "let p = process_all mac marshal evs (tracker_init n rules secret)
    in newest (pr_store p) = take (if n \<le> 0 then 10000 else nat n)
         (rev (map (Sign mac (Signer_New secret)) (accepted evs)))
     \<and> map_option (\<lambda>v. map dl_Reason (DeadLetters v)) (pr_validator p)
       = Some (take 200 (rev (map (\<lambda>(ev, err). invalid_text go_quote err) (rejected evs))))"
proof -
  let ?start = "tracker_init n rules secret"
  let ?p = "process_all mac marshal evs ?start"
  have init: "pr_validator ?start = Some \<lparr>va_deadLetters = []\<rparr>" "pr_signer ?start = Some (Signer_New secret)"
    "pr_store ?start = Store_New n"
    by (simp_all add: tracker_init_def SetValidator_def SetSigner_def Processor_New_def)
  note run = run_store [OF tracker_inv_init assms init(1,2), of marshal]
  have cap: "st_maxEvents (Store_New n) = (if n \<le> 0 then 10000 else nat n)"
    by (simp add: Store_New_def Let_def)
  obtain v where v: "pr_validator ?p = Some v"
    using process_all_keeps [of mac marshal evs ?start] init(1) by fastforce
  have "rev (map dl_Reason (va_deadLetters v))
      = take 200 (rev (map (\<lambda>(ev, err). invalid_text go_quote err) (rejected evs)))"
    using run v by (simp add: rev_keep_last maxDeadLetters_def)
  then show ?thesis
    using run v unfolding Let_def DeadLetters_rev by (simp add: init cap rev_map)
qed

text \<open>
  The audit endpoint finds nothing wrong with what the processor stored. After any run
  from start-up with signing enabled, a report over any query counts every event it reads as
  valid: none is invalid, unsigned or listed as tampered.
\<close>

theorem audit_clean_after_run:
  assumes "mac_ok mac" and "list_all (\<lambda>(env, ev). env_ok env) evs"
  shows "case VerifyAuditLog mac (Some (Signer_New secret))
       (pr_store (process_all mac marshal evs (tracker_init n rules secret))) q limit of
      None \<Rightarrow> False
    | Some r \<Rightarrow> av_Valid r = av_Total r \<and> av_Invalid r = 0 \<and> av_Unsigned r = 0 \<and> av_Tampered r = []"
proof -
  let ?p = "process_all mac marshal evs (tracker_init n rules secret)"
  have inv: "tracker_inv mac ?p"
    by (rule tracker_inv_process_all [OF tracker_inv_init assms(1)]) (use assms(2) in \<open>simp add: list_all_iff\<close>)
  have sg: "pr_signer ?p = Some (Signer_New secret)"
    using process_all_keeps [of mac marshal evs "tracker_init n rules secret"]
    by (simp add: tracker_init_def SetValidator_def SetSigner_def)
  have ver: "Verify mac (Signer_New secret) ev" if "ev \<in> set (RecentEvents (pr_store ?p) q limit)" for ev
  proof -
    have "ev \<in> set (newest (pr_store ?p))" using that RecentEvents_subset by blast
    then show ?thesis using inv sg by (simp add: tracker_inv_def event_ok_def)
  qed
  then have "filter (Verify mac (Signer_New secret)) (RecentEvents (pr_store ?p) q limit)
      = RecentEvents (pr_store ?p) q limit" by (simp add: filter_id_conv)
  moreover have "ev_Signature ev \<noteq> []" if "ev \<in> set (RecentEvents (pr_store ?p) q limit)" for ev
    using ver [OF that] by (auto simp: Verify_def)
  ultimately show ?thesis
    using ver by (simp add: VerifyAuditLog_def Let_def audit_fold filter_empty_conv)
qed

lemma accept_effects:
  assumes step: "accept_step mac env ev0 p = (p', fx)" and e: "e = sign_stage mac p ev0"
  shows "fx_hooks fx = [e] \<and> fx_ws fx \<noteq> [] \<and> last (fx_ws fx) = \<lparr>ws_Type = ''event'', ws_Payload = PEvent e\<rparr>
    \<and> map ws_Type (fx_ws fx) = (if opens_incident e then [''incident''] else [])
        @ replicate (length (filter (\<lambda>r. alert_matches (ru_Condition r) e) (am_rules (pr_alerts p)))) ''alert'' @ [''event'']"
proof (rule accept_step_cases [OF step])
  fix ev mx2 tok s2 mx3 inc s3 mx4 s4 mx5 fired jobs
  assume "ev = sign_stage mac p ev0"
    and ac: "AutoCreate (env_clk env 5) (env_clk env 6) ev (pr_incidents p, s2, mx3) = (inc, pr_incidents p', s3, mx4)"
    and al: "Evaluate (env_alert env) ev (pr_alerts p, s3, mx4) = (pr_alerts p', s4, mx5, fired, jobs)"
    and ws: "fx_ws fx = (case inc of None \<Rightarrow> [] | Some i \<Rightarrow> [\<lparr>ws_Type = ''incident'', ws_Payload = PIncident i\<rparr>])
         @ map (\<lambda>al. \<lparr>ws_Type = ''alert'', ws_Payload = PAlert al\<rparr>) fired
         @ [\<lparr>ws_Type = ''event'', ws_Payload = PEvent ev\<rparr>]"
    and hooks: "fx_hooks fx = [ev]"
  then have ev: "ev = e" by (simp add: e)
  have "fired = fired_alerts (env_alert env) ev (am_seq (pr_alerts p)) (am_rules (pr_alerts p))"
    using eval_fold [OF al [unfolded Evaluate_def split_conv]] by simp
  then have "length fired = length (filter (\<lambda>r. alert_matches (ru_Condition r) ev) (am_rules (pr_alerts p)))"
    using length_fired by metis
  then have alerts: "map (ws_Type \<circ> (\<lambda>al. \<lparr>ws_Type = ''alert'', ws_Payload = PAlert al\<rparr>)) fired
      = replicate (length (filter (\<lambda>r. alert_matches (ru_Condition r) ev) (am_rules (pr_alerts p)))) ''alert''"
    by (simp only: comp_def WSMessage.select_convs map_replicate_const)
  have "inc \<noteq> None \<longleftrightarrow> opens_incident ev"
  proof (cases "opens_incident ev")
    case True
    show ?thesis by (rule AutoCreate_Some [OF True, of "env_clk env 5" "env_clk env 6" "pr_incidents p" s2 mx3])
      (use ac True in simp)
  qed (use AutoCreate_None ac in auto)
  then have inc: "map ws_Type (case inc of None \<Rightarrow> [] | Some i \<Rightarrow> [\<lparr>ws_Type = ''incident'', ws_Payload = PIncident i\<rparr>])
      = (if opens_incident ev then [''incident''] else [])"
    by (auto split: option.splits)
  show ?thesis
    using alerts inc unfolding hooks ws ev
    by (simp only: map_append map_map list.map WSMessage.select_convs) simp
qed

text \<open>
  C3: \<open>Process\<close> keeps the invariant of the tracker, and one rejected event changes nothing
  but the dead letters and the rejection counter: no broadcast, publication, goroutine or hook.
  An accepted event is broadcast last, after the incident and the alerts it caused, and handed
  to the hooks as it was stored.
\<close>

theorem process_one_event:
  assumes "tracker_inv mac p" and "env_ok env" and "mac_ok mac" and "Process mac marshal env ev p = (p', fx)"
  shows "tracker_inv mac p' \<and>
    (case rejection p (enrich env ev) of
       Some err \<Rightarrow> fx = no_effects \<and> pr_store p' = pr_store p
         \<and> pr_alerts p' = pr_alerts p \<and> pr_incidents p' = pr_incidents p \<and> pr_bypass p' = pr_bypass p
         \<and> mx_EventsReceived (pr_metrics p') = mx_EventsReceived (pr_metrics p)
     | None \<Rightarrow> fx_hooks fx = [sign_stage mac p (enrich env ev)]
         \<and> fx_ws fx \<noteq> [] \<and> last (fx_ws fx)
             = \<lparr>ws_Type = ''event'', ws_Payload = PEvent (sign_stage mac p (enrich env ev))\<rparr>
         \<and> (map ws_Type (fx_ws fx) = (if opens_incident (sign_stage mac p (enrich env ev)) then [''incident''] else [])
             @ replicate (length (filter (\<lambda>r. alert_matches (ru_Condition r) (sign_stage mac p (enrich env ev)))
                 (am_rules (pr_alerts p)))) ''alert'' @ [''event'']))"
proof (cases "rejection p (enrich env ev)")
  case (Some err)
  then obtain v where v: "pr_validator p = Some v" by (auto simp: rejection_def split: option.splits)
  then have P: "fx = no_effects" "p' = reject_step marshal env (enrich env ev) err p"
    using Some assms(4) by (auto simp: Process_def Let_def)
  show ?thesis
    using tracker_inv_Process [OF assms] Some v
    by (simp add: P reject_step_def Reject_def)
next
  case None
  have "accept_step mac env (enrich env ev) p = (p', fx)"
    using assms(4) None by (simp add: Process_def Let_def)
  from accept_effects [OF this refl] tracker_inv_Process [OF assms] show ?thesis
    unfolding None option.case by blast
qed

definition demo_env :: Env where
  "demo_env = \<lparr>env_id = ''e1'', env_now = unix_epoch + 7, env_clk = (\<lambda>i. unix_epoch + 7),
     env_alert = (\<lambda>i. unix_epoch + 7), env_rid = (\<lambda>i. ''r''), env_ord = (\<lambda>m. m), env_took = 3\<rparr>"

definition demo_run :: "(Env \<times> BastionEvent) list" where
  "demo_run = [(demo_env, zero_event\<lparr>ev_Module := ''vault'', ev_EventType := ''read''\<rparr>),
     (demo_env, zero_event\<lparr>ev_Module := ''vault''\<rparr>)]"

lemma demo_run_ok: "list_all (\<lambda>(env, ev). env_ok env) demo_run"
  by (simp add: demo_run_def demo_env_def env_ok_def unix_epoch_def)

lemma run_stores_exactly_the_valid_witness:
  "let p = process_all toy_mac (\<lambda>ev. []) demo_run (tracker_init 2 [] [])
   in map ev_EventID (newest (pr_store p)) = [''e1'']
    \<and> map_option (\<lambda>v. map dl_Reason (DeadLetters v)) (pr_validator p) = Some [''event_type is required'']"
proof -
  have acc: "map ev_EventID (accepted demo_run) = [''e1'']" by code_simp
  have rej: "take 200 (rev (map (\<lambda>(ev, err). invalid_text go_quote err) (rejected demo_run)))
      = [''event_type is required'']" by code_simp
  have "map ev_EventID (take 2 (rev (map (Sign toy_mac sg) (accepted demo_run)))) = take 2 (rev (map ev_EventID (accepted demo_run)))" for sg
    by (simp add: take_map rev_map comp_def Sign_def)
  then show ?thesis
    using run_stores_exactly_the_valid [OF toy_mac_ok demo_run_ok, of "\<lambda>ev. []" 2 "[]" "[]"]
    unfolding Let_def rej acc by simp
qed

lemma audit_clean_after_run_witness:
  "case VerifyAuditLog toy_mac (Some (Signer_New []))
       (pr_store (process_all toy_mac (\<lambda>ev. []) demo_run (tracker_init 2 [] []))) zero_query 10 of
     None \<Rightarrow> False | Some r \<Rightarrow> av_Invalid r = 0"
  using audit_clean_after_run [OF toy_mac_ok demo_run_ok, of "[]" "\<lambda>ev. []" 2 "[]" zero_query 10]
  by (auto split: option.splits)

lemma process_one_event_witness:
  "fx_ws (snd (Process toy_mac (\<lambda>ev. []) demo_env (zero_event\<lparr>ev_Module := ''vault''\<rparr>) (tracker_init 2 [] []))) = []"
proof -
  let ?ev = "zero_event\<lparr>ev_Module := ''vault''\<rparr>" and ?start = "tracker_init 2 [] []"
  obtain p' fx where run: "Process toy_mac (\<lambda>ev. []) demo_env ?ev ?start = (p', fx)" by fastforce
  have env: "env_ok demo_env" by (simp add: demo_env_def env_ok_def unix_epoch_def)
  have "rejection ?start (enrich demo_env ?ev) = Some EventTypeRequired" by code_simp
  then show ?thesis
    using process_one_event [OF tracker_inv_init env toy_mac_ok run] run by (simp add: no_effects_def)
qed

end
