(* ===== verification/Anomaly.thy ===== *)
theory Anomaly
  imports Processor
begin

text \<open>
  internal/anomaly/detector.go: the statistical baseline, the pattern windows, the honey-token
  layers and \<open>Inspect\<close>, which combines them. Every tracker is a map of sliding windows; the
  contract they share is the locale \<open>sliding_window\<close>. Counts are exact, means and standard
  deviations are real numbers where the code has \<open>float64\<close>. Identifiers from \<open>newID\<close>, the
  clock, the time zone and the iteration orders of maps are arguments.
\<close>

record AnomalyConfig =
  ac_Enabled :: bool
  ac_SigmaThreshold :: rat
  ac_WindowHours :: int
  ac_HighFreqUserLimit :: int
  ac_RepeatedBlockWindow :: string
  ac_RepeatedBlockCount :: int
  ac_ActiveHoursStart :: int
  ac_ActiveHoursEnd :: int

subsection \<open>Formatting\<close>

text \<open>\<open>%.1f\<close>: one decimal, rounded to nearest, ties to even.\<close>

definition round_even :: "rat \<Rightarrow> int" where
  "round_even v =
     (let n = \<lfloor>v\<rfloor>; r = v - of_int n
      in if r < 1 / 2 then n else if r > 1 / 2 then n + 1 else if even n then n else n + 1)"

definition fixed1 :: "rat \<Rightarrow> string" where
  "fixed1 v = (let n = round_even (\<bar>v\<bar> * 10)
     in (if v < 0 then ''-'' else []) @ dec (nat (n div 10)) @ ''.'' @ dec (nat (n mod 10)))"

text \<open>\<open>%v\<close> of a slice of strings.\<close>

definition slice_text :: "string list \<Rightarrow> string" where
  "slice_text xs = ''['' @ (case xs of [] \<Rightarrow> [] | x # r \<Rightarrow> x @ concat (map (\<lambda>y. '' '' @ y) r)) @ '']''"

subsection \<open>Sliding windows\<close>

text \<open>
  Adding a time stamp to a window prunes what is older than \<open>width\<close> and appends. The
  consequence clients rely on: when the stamps of a key arrive in order, the window holds
  exactly those of the last \<open>width\<close>.
\<close>

locale sliding_window =
  fixes add :: "'k \<Rightarrow> int \<Rightarrow> 's \<Rightarrow> 's"
    and times :: "'s \<Rightarrow> 'k \<Rightarrow> int list"
    and width :: int
  assumes times_add: "times (add k t s) k' =
    (if k' = k then filter (\<lambda>u. t - width < u) (times s k) @ [t] else times s k')"
begin

lemma times_fold:
  "times (fold (\<lambda>(k, t). add k t) ps s) k = times (fold (\<lambda>t. add k t) (map snd (filter (\<lambda>p. fst p = k) ps)) s) k"
proof -
  have "times (fold (\<lambda>(k, t). add k t) ps s) k = times (fold (\<lambda>t. add k t) (map snd (filter (\<lambda>p. fst p = k) ps)) s') k"
    if "times s k = times s' k" for s'
    using that
  proof (induction ps arbitrary: s s')
    case (Cons p ps)
    obtain j t where p: "p = (j, t)" by fastforce
    show ?case
      using Cons.IH [of "add j t s" "if j = k then add k t s' else s'"] Cons.prems by (auto simp: p times_add)
  qed simp
  then show ?thesis by simp
qed

lemma window_exact:
  "0 < width \<Longrightarrow> sorted ts \<Longrightarrow> times s k = [] \<Longrightarrow> ts \<noteq> [] \<Longrightarrow>
     times (fold (\<lambda>t. add k t) ts s) k = filter (\<lambda>u. last ts - width < u) ts"
proof (induction ts rule: rev_induct)
  case (snoc t ts)
  show ?case
  proof (cases "ts = []")
    case True
    then show ?thesis using snoc.prems by (simp add: times_add)
  next
    case False
    have srt: "sorted ts" and le: "last ts \<le> t" using snoc.prems(2) False by (auto simp: sorted_append)
    have ih: "times (fold (\<lambda>t. add k t) ts s) k = filter (\<lambda>u. last ts - width < u) ts"
      by (rule snoc.IH [OF snoc.prems(1) srt snoc.prems(3) False])
    have "filter (\<lambda>u. t - width < u) (filter (\<lambda>u. last ts - width < u) ts) = filter (\<lambda>u. t - width < u) ts"
      unfolding filter_filter using le by (intro filter_cong) auto
    then show ?thesis using snoc.prems(1) by (simp add: times_add ih)
  qed
qed simp

end

type_synonym patternWindow = "(string, gotime list) gomap"

definition pw_add :: "string \<Rightarrow> gotime \<Rightarrow> duration \<Rightarrow> patternWindow \<Rightarrow> patternWindow \<times> nat" where
  "pw_add key ats window pw =
     (let cutoff = time_Add ats (- window);
          pruned = filter (\<lambda>t. time_After t cutoff) (mget0 [] pw key) @ [ats]
      in (mput key pruned pw, length pruned))"

interpretation pattern: sliding_window "\<lambda>k t pw. fst (pw_add k t w pw)" "mget0 []" w for w
  by unfold_locales (auto simp: pw_add_def Let_def go_simps)

subsection \<open>The statistical baseline\<close>

record windowBucket =
  wb_count :: nat
  wb_at :: gotime

type_synonym baselineKey = "string \<times> string"

record baselineTracker =
  bt_windows :: "(baselineKey, windowBucket list) gomap"
  bt_windowH :: int
  bt_sigma :: rat
  bt_baselines :: "(baselineKey, AnomalyBaseline) gomap"

definition meanStddev :: "real list \<Rightarrow> real \<times> real" where
  "meanStddev values =
     (if length values = 0 then (0, 0)
      else let mean = sum_list values / of_nat (length values)
           in if length values = 1 then (mean, 0)
              else let variance = sum_list (map (\<lambda>v. (v - mean) * (v - mean)) values) / of_nat (length values - 1)
                   in (mean, sqrt variance))"

definition minute_of :: "gotime \<Rightarrow> int" where
  "minute_of t = go_div (time_Unix t) 60"

definition minute_map :: "windowBucket list \<Rightarrow> (int, nat) gomap" where
  "minute_map bs = fold (\<lambda>b m. mput (minute_of (wb_at b)) (mget0 0 m (minute_of (wb_at b)) + wb_count b) m) bs []"

definition add_bucket :: "baselineKey \<Rightarrow> gotime \<Rightarrow> baselineTracker \<Rightarrow> baselineTracker" where
  "add_bucket k ats bt =
     (let cutoff = time_Add ats (- wrap64 (bt_windowH bt * Hour));
          pruned = filter (\<lambda>b. time_After (wb_at b) cutoff) (mget0 [] (bt_windows bt) k)
      in bt\<lparr>bt_windows := mput k (pruned @ [\<lparr>wb_count = 1, wb_at = ats\<rparr>]) (bt_windows bt)\<rparr>)"

definition bt_record ::
    "((int, nat) gomap \<Rightarrow> (int, nat) gomap) \<Rightarrow> gotime \<Rightarrow> string \<Rightarrow> string \<Rightarrow> gotime \<Rightarrow> baselineTracker \<Rightarrow> baselineTracker \<times> bool" where
  "bt_record ord now modname eventType ats bt =
     (let k = (modname, eventType);
          bt1 = add_bucket k ats bt;
          w = mget0 [] (bt_windows bt1) k
      in if length w < 10 then (bt1, False)
         else let minuteMap = minute_map w;
                  counts = map (\<lambda>p. real (snd p)) (ord minuteMap);
                  (mean, stddev) = meanStddev counts;
                  bl = \<lparr>ab_Module = modname, ab_EventType = eventType, ab_WindowH = bt_windowH bt1,
                        ab_Mean = mean, ab_StdDev = stddev, ab_SigmaThresh = of_rat (bt_sigma bt1),
                        ab_LastUpdated = now\<rparr>;
                  currentRate = real (mget0 0 minuteMap (minute_of ats))
              in (bt1\<lparr>bt_baselines := mput k bl (bt_baselines bt1)\<rparr>,
                  stddev > 0 \<and> (currentRate - mean) / stddev > of_rat (bt_sigma bt1)))"

definition listBaselines ::
    "((baselineKey, AnomalyBaseline) gomap \<Rightarrow> (baselineKey, AnomalyBaseline) gomap) \<Rightarrow> baselineTracker \<Rightarrow> AnomalyBaseline list" where
  "listBaselines ord bt = map snd (ord (bt_baselines bt))"

text \<open>The buckets of a key are a sliding window too (for a window that fits into \<open>int64\<close>).\<close>

definition bucket_times :: "baselineTracker \<Rightarrow> baselineKey \<Rightarrow> gotime list" where
  "bucket_times bt k = map wb_at (mget0 [] (bt_windows bt) k)"

subsection \<open>Honey-token layers\<close>

record honeyLayerTracker =
  hl_modules :: "(string, string list) gomap"
  hl_times :: "(string, gotime) gomap"

definition hl_expire :: "gotime \<Rightarrow> honeyLayerTracker \<Rightarrow> honeyLayerTracker" where
  "hl_expire cutoff h =
     (let old = map fst (filter (\<lambda>(tid, t). time_Before t cutoff) (hl_times h))
      in h\<lparr>hl_modules := fold mdel old (hl_modules h), hl_times := fold mdel old (hl_times h)\<rparr>)"

definition hl_record ::
    "(string list \<Rightarrow> string list) \<Rightarrow> string \<Rightarrow> string \<Rightarrow> gotime \<Rightarrow> honeyLayerTracker \<Rightarrow> honeyLayerTracker \<times> nat \<times> string list" where
  "hl_record ord traceID modname ats h0 =
     (let h = hl_expire (time_Add ats (- (10 * Minute))) h0;
          mods = List.insert modname (mget0 [] (hl_modules h) traceID)
      in (h\<lparr>hl_modules := mput traceID mods (hl_modules h), hl_times := mput traceID ats (hl_times h)\<rparr>,
          length mods, ord mods))"

subsection \<open>The detector\<close>

record Detector =
  dt_cfg :: AnomalyConfig
  dt_baseline :: baselineTracker
  dt_blockWindow :: patternWindow
  dt_userWindow :: patternWindow
  dt_honeyLayers :: honeyLayerTracker
  dt_detected :: "AnomalyEvent list"

definition Detector_New :: "AnomalyConfig \<Rightarrow> Detector" where
  "Detector_New cfg =
     \<lparr>dt_cfg = cfg,
      dt_baseline = \<lparr>bt_windows = [], bt_windowH = ac_WindowHours cfg, bt_sigma = ac_SigmaThreshold cfg,
                     bt_baselines = []\<rparr>,
      dt_blockWindow = [], dt_userWindow = [], dt_honeyLayers = \<lparr>hl_modules = [], hl_times = []\<rparr>,
      dt_detected = []\<rparr>"

text \<open>\<open>fire\<close>: the list of the last 1000; the event for the sink is collected by \<open>Inspect\<close>.\<close>

definition fire :: "AnomalyEvent \<Rightarrow> Detector \<Rightarrow> Detector" where
  "fire ev d =
     (let kept = (if length (dt_detected d) \<ge> 1000 then tl (dt_detected d) else dt_detected d)
      in d\<lparr>dt_detected := kept @ [ev]\<rparr>)"

abbreviation detected_ok :: "Detector \<Rightarrow> bool" where
  "detected_ok d \<equiv> length (dt_detected d) \<le> 1000"

interpretation detected: bounded_log fire dt_detected "\<lambda>d. 1000" detected_ok
  by unfold_locales (auto simp: fire_def Let_def keep_last_snoc)

text \<open>What one call of \<open>Inspect\<close> reads from outside.\<close>

record InspectEnv =
  ie_now :: gotime
  ie_id :: "nat \<Rightarrow> string"
  ie_minutes :: "(int, nat) gomap \<Rightarrow> (int, nat) gomap"
  ie_mods :: "string list \<Rightarrow> string list"
  ie_zone :: "gotime \<Rightarrow> int"

definition anomaly ::
    "InspectEnv \<Rightarrow> nat \<Rightarrow> gotime \<Rightarrow> BastionEvent \<Rightarrow> string \<Rightarrow> string \<Rightarrow> string \<Rightarrow> (string, goany) gomap \<Rightarrow> AnomalyEvent" where
  "anomaly env i ats ev pattern severity desc evidence =
     \<lparr>ano_AnomalyID = ie_id env i, ano_Pattern = pattern, ano_Severity = severity,
      ano_TenantID = ev_TenantID ev, ano_UserID = ev_UserID ev, ano_TraceID = ev_TraceID ev,
      ano_DetectedAt = ats, ano_Description = desc, ano_Evidence = evidence\<rparr>"

text \<open>The six rules: each updates the detector and may fire one anomaly.\<close>

type_synonym rule_result = "Detector \<times> AnomalyEvent list"

definition inspect_baseline :: "InspectEnv \<Rightarrow> gotime \<Rightarrow> BastionEvent \<Rightarrow> Detector \<Rightarrow> rule_result" where
  "inspect_baseline env ats ev d =
     (let (bt, spike) = bt_record (ie_minutes env) (ie_now env) (ev_Module ev) (ev_EventType ev) ats (dt_baseline d)
      in (d\<lparr>dt_baseline := bt\<rparr>,
          if spike then [anomaly env 0 ats ev ''statistical_spike'' ''warning''
               (''event rate for '' @ ev_Module ev @ ''.'' @ ev_EventType ev @ '' exceeds ''
                  @ fixed1 (ac_SigmaThreshold (dt_cfg d)) @ [CHR 0xCF, CHR 0x83] @ '' above baseline'')
               [(''module'', GStr (ev_Module ev)), (''event_type'', GStr (ev_EventType ev))]]
          else []))"

definition user_key :: "BastionEvent \<Rightarrow> string" where
  "user_key ev = ev_TenantID ev @ '':'' @ ev_UserID ev"

definition inspect_user :: "InspectEnv \<Rightarrow> gotime \<Rightarrow> BastionEvent \<Rightarrow> Detector \<Rightarrow> rule_result" where
  "inspect_user env ats ev d =
     (if ev_UserID ev \<noteq> [] \<and> ac_HighFreqUserLimit (dt_cfg d) > 0
      then let (pw, count) = pw_add (user_key ev) ats Minute (dt_userWindow d)
           in (d\<lparr>dt_userWindow := pw\<rparr>,
               if int count = ac_HighFreqUserLimit (dt_cfg d)
               then [anomaly env 1 ats ev ''high_freq_user'' ''warning''
                  (''user '' @ ev_UserID ev @ '' exceeded '' @ itoa (ac_HighFreqUserLimit (dt_cfg d)) @ '' requests/minute'')
                  [(''count_per_min'', GInt (int count)), (''limit'', GInt (ac_HighFreqUserLimit (dt_cfg d)))]]
               else [])
      else (d, []))"

definition block_window :: "AnomalyConfig \<Rightarrow> duration" where
  "block_window cfg =
     (if ac_RepeatedBlockWindow cfg \<noteq> []
      then (case ParseDuration (ac_RepeatedBlockWindow cfg) of Some parsed \<Rightarrow> parsed | None \<Rightarrow> 5 * Minute)
      else 5 * Minute)"

definition inspect_block :: "InspectEnv \<Rightarrow> gotime \<Rightarrow> BastionEvent \<Rightarrow> Detector \<Rightarrow> rule_result" where
  "inspect_block env ats ev d =
     (if ev_Status ev = ''blocked'' \<and> ev_UserID ev \<noteq> [] \<and> ac_RepeatedBlockCount (dt_cfg d) > 0
      then let window = block_window (dt_cfg d);
               (pw, count) = pw_add (''block:'' @ user_key ev) ats window (dt_blockWindow d)
           in (d\<lparr>dt_blockWindow := pw\<rparr>,
               if int count \<ge> ac_RepeatedBlockCount (dt_cfg d)
               then [anomaly env 2 ats ev ''repeated_block'' ''critical''
                  (''user '' @ ev_UserID ev @ '' blocked '' @ dec count @ '' times in '' @ duration_text window)
                  [(''block_count'', GInt (int count)), (''window'', GStr (duration_text window))]]
               else [])
      else (d, []))"

definition inspect_cross_tenant :: "InspectEnv \<Rightarrow> gotime \<Rightarrow> BastionEvent \<Rightarrow> Detector \<Rightarrow> rule_result" where
  "inspect_cross_tenant env ats ev d =
     (d, if ev_EventType ev = ''cross_tenant_attempt''
         then [anomaly env 3 ats ev ''cross_tenant_signal'' ''critical''
                (''cross-tenant data access attempt by user '' @ ev_UserID ev)
                [(''event_id'', GStr (ev_EventID ev))]]
         else [])"

definition inspect_honey :: "InspectEnv \<Rightarrow> gotime \<Rightarrow> BastionEvent \<Rightarrow> Detector \<Rightarrow> rule_result" where
  "inspect_honey env ats ev d =
     (if is_honey_type (ev_EventType ev) \<and> ev_TraceID ev \<noteq> []
      then let (hl, layerCount, mods) = hl_record (ie_mods env) (ev_TraceID ev) (ev_Module ev) ats (dt_honeyLayers d)
           in (d\<lparr>dt_honeyLayers := hl\<rparr>,
               if layerCount \<ge> 2
               then [anomaly env 4 ats ev ''honey_multi_layer'' ''critical''
                  (''confirmed intrusion: honey-token triggered across '' @ dec layerCount @ '' modules (''
                     @ slice_text mods @ '')'')
                  [(''modules'', GList (map GStr mods)), (''layer_count'', GInt (int layerCount))]]
               else [])
      else (d, []))"

definition off_hours :: "AnomalyConfig \<Rightarrow> int \<Rightarrow> bool" where
  "off_hours cfg hour \<longleftrightarrow> (ac_ActiveHoursStart cfg \<noteq> 0 \<or> ac_ActiveHoursEnd cfg \<noteq> 0)
     \<and> (hour < ac_ActiveHoursStart cfg \<or> hour \<ge> ac_ActiveHoursEnd cfg)"

definition inspect_hours :: "InspectEnv \<Rightarrow> gotime \<Rightarrow> BastionEvent \<Rightarrow> Detector \<Rightarrow> rule_result" where
  "inspect_hours env ats ev d =
     (let hour = time_Hour (ie_zone env) ats; cfg = dt_cfg d
      in (d, if off_hours cfg hour
             then [anomaly env 5 ats ev ''off_hours_access'' ''warning''
                (''access at '' @ pad_to 2 (dec (nat hour)) @ '':00 outside active hours (''
                   @ itoa (ac_ActiveHoursStart cfg) @ [CHR 0xE2, CHR 0x80, CHR 0x93] @ itoa (ac_ActiveHoursEnd cfg) @ '')'')
                [(''hour'', GInt hour), (''active_start'', GInt (ac_ActiveHoursStart cfg)),
                 (''active_end'', GInt (ac_ActiveHoursEnd cfg))]]
             else []))"

definition inspect_rules :: "InspectEnv \<Rightarrow> gotime \<Rightarrow> BastionEvent \<Rightarrow> (Detector \<Rightarrow> rule_result) list" where
  "inspect_rules env ats ev =
     [inspect_baseline env ats ev, inspect_user env ats ev, inspect_block env ats ev,
      inspect_cross_tenant env ats ev, inspect_honey env ats ev, inspect_hours env ats ev]"

fun run_rules :: "(Detector \<Rightarrow> rule_result) list \<Rightarrow> Detector \<Rightarrow> rule_result" where
  "run_rules [] d = (d, [])"
| "run_rules (r # rs) d =
     (let (d1, out) = r d; (d2, out2) = run_rules rs (fold fire out d1) in (d2, out @ out2))"

text \<open>\<open>Inspect\<close>: the detector afterwards and the anomalies handed to the sink, in order.\<close>

definition Inspect :: "InspectEnv \<Rightarrow> BastionEvent \<Rightarrow> Detector \<Rightarrow> rule_result" where
  "Inspect env ev d =
     (if \<not> ac_Enabled (dt_cfg d) then (d, [])
      else let ats = (if time_IsZero (ev_Timestamp ev) then ie_now env else ev_Timestamp ev)
           in run_rules (inspect_rules env ats ev) d)"

definition Detector_Recent :: "gotime \<Rightarrow> Detector \<Rightarrow> AnomalyEvent list" where
  "Detector_Recent now d =
     filter (\<lambda>ev. time_After (ano_DetectedAt ev) (time_Add now (- (24 * Hour)))) (dt_detected d)"

text \<open>
  \<open>anomalySink.OnAnomaly\<close> (cmd/tracker-cli/main.go): the event that goes back into the
  processor.
\<close>

definition OnAnomaly :: "AnomalyEvent \<Rightarrow> BastionEvent" where
  "OnAnomaly an =
     zero_event\<lparr>ev_Module := ''tracker'', ev_EventType := ''anomaly_detected'', ev_Severity := ano_Severity an,
       ev_Status := ''error'', ev_TenantID := ano_TenantID an, ev_UserID := ano_UserID an,
       ev_TraceID := ano_TraceID an,
       ev_Data := [(''anomaly_id'', GStr (ano_AnomalyID an)), (''pattern'', GStr (ano_Pattern an)),
         (''description'', GStr (ano_Description an))]\<rparr>"

subsection \<open>What Inspect keeps and reports\<close>

lemma fold_fire_frame [simp]:
  "dt_cfg (fold fire out d) = dt_cfg d" "dt_baseline (fold fire out d) = dt_baseline d"
  "dt_blockWindow (fold fire out d) = dt_blockWindow d" "dt_userWindow (fold fire out d) = dt_userWindow d"
  "dt_honeyLayers (fold fire out d) = dt_honeyLayers d"
  by (induction out arbitrary: d) (simp_all add: fire_def Let_def)

lemmas inspect_defs = inspect_baseline_def inspect_user_def inspect_block_def inspect_cross_tenant_def
  inspect_honey_def inspect_hours_def

lemma inspect_cfg [simp]:
  "dt_cfg (fst (inspect_baseline env ts ev d)) = dt_cfg d" "dt_cfg (fst (inspect_user env ts ev d)) = dt_cfg d"
  "dt_cfg (fst (inspect_block env ts ev d)) = dt_cfg d" "dt_cfg (fst (inspect_cross_tenant env ts ev d)) = dt_cfg d"
  "dt_cfg (fst (inspect_honey env ts ev d)) = dt_cfg d" "dt_cfg (fst (inspect_hours env ts ev d)) = dt_cfg d"
  by (simp_all add: inspect_defs Let_def split: prod.splits)

lemma inspect_detected:
  "r \<in> set (inspect_rules env ts ev) \<Longrightarrow> dt_detected (fst (r d)) = dt_detected d"
  by (auto simp: inspect_rules_def inspect_defs Let_def split: prod.splits)

lemma inspect_other_users [simp]:
  "dt_userWindow (fst (inspect_baseline env ts ev d)) = dt_userWindow d"
  "dt_userWindow (fst (inspect_block env ts ev d)) = dt_userWindow d"
  "dt_userWindow (fst (inspect_cross_tenant env ts ev d)) = dt_userWindow d"
  "dt_userWindow (fst (inspect_honey env ts ev d)) = dt_userWindow d"
  "dt_userWindow (fst (inspect_hours env ts ev d)) = dt_userWindow d"
  by (simp_all add: inspect_defs Let_def split: prod.splits)

lemma run_rules_append:
  "run_rules (rs @ rs') d =
     (case run_rules rs d of (d1, o1) \<Rightarrow> case run_rules rs' d1 of (d2, o2) \<Rightarrow> (d2, o1 @ o2))"
  by (induction rs arbitrary: d) (simp_all add: Let_def split: prod.split)

lemma run_rules_cfg: "dt_cfg (fst (run_rules (inspect_rules env ts ev) d)) = dt_cfg d"
  by (simp add: inspect_rules_def Let_def split_beta)

lemma run_rules_detected:
  assumes "\<And>r d. r \<in> set rs \<Longrightarrow> dt_detected (fst (r d)) = dt_detected d" and "detected_ok d"
  shows "dt_detected (fst (run_rules rs d)) = keep_last 1000 (dt_detected d @ snd (run_rules rs d))"
  using assms
proof (induction rs arbitrary: d)
  case Nil
  then show ?case by (simp add: keep_last_short)
next
  case (Cons r rs)
  obtain d1 o1 where r: "r d = (d1, o1)" by fastforce
  have d1: "dt_detected d1 = dt_detected d" using Cons.prems(1) [of r d] r by simp
  have ok: "detected_ok d1" using d1 Cons.prems(2) by simp
  have view: "dt_detected (fold fire o1 d1) = keep_last 1000 (dt_detected d @ o1)"
    using detected.view_pushes [OF ok] d1 by simp
  have ok': "detected_ok (fold fire o1 d1)" unfolding view by simp
  have ih: "dt_detected (fst (run_rules rs (fold fire o1 d1)))
      = keep_last 1000 (dt_detected (fold fire o1 d1) @ snd (run_rules rs (fold fire o1 d1)))"
    by (rule Cons.IH [OF _ ok']) (use Cons.prems(1) in simp)
  show ?case
    using ih by (simp add: r Let_def split_beta view keep_last_keep_last_append)
qed

text \<open>The user rule, from the user window alone.\<close>

definition inspected_at :: "InspectEnv \<Rightarrow> BastionEvent \<Rightarrow> gotime" where
  "inspected_at env ev = (if time_IsZero (ev_Timestamp ev) then ie_now env else ev_Timestamp ev)"

lemma Inspect_user_window:
  assumes "ac_Enabled (dt_cfg d)"
  shows "dt_userWindow (fst (Inspect env ev d)) =
    (if ev_UserID ev \<noteq> [] \<and> ac_HighFreqUserLimit (dt_cfg d) > 0
     then fst (pw_add (user_key ev) (inspected_at env ev) Minute (dt_userWindow d)) else dt_userWindow d)"
proof -
  have "dt_userWindow (fst (inspect_user env ts ev d')) =
    (if ev_UserID ev \<noteq> [] \<and> ac_HighFreqUserLimit (dt_cfg d') > 0
     then fst (pw_add (user_key ev) ts Minute (dt_userWindow d')) else dt_userWindow d')" for ts d'
    by (simp add: inspect_user_def Let_def split_beta)
  then show ?thesis
    using assms by (simp add: Inspect_def inspect_rules_def Let_def split_beta inspected_at_def)
qed

lemma patterns_apart:
  "an \<in> set (snd (inspect_baseline env ts ev d)) \<Longrightarrow> ano_Pattern an = ''statistical_spike''"
  "an \<in> set (snd (inspect_user env ts ev d)) \<Longrightarrow> ano_Pattern an = ''high_freq_user''"
  "an \<in> set (snd (inspect_block env ts ev d)) \<Longrightarrow> ano_Pattern an = ''repeated_block''"
  "an \<in> set (snd (inspect_cross_tenant env ts ev d)) \<Longrightarrow> ano_Pattern an = ''cross_tenant_signal''"
  "an \<in> set (snd (inspect_honey env ts ev d)) \<Longrightarrow> ano_Pattern an = ''honey_multi_layer''"
  "an \<in> set (snd (inspect_hours env ts ev d)) \<Longrightarrow> ano_Pattern an = ''off_hours_access''"
  by (auto simp: inspect_defs anomaly_def Let_def split_beta split: if_splits)

text \<open>The detector after one rule has run and its anomalies are listed.\<close>

definition after_rule :: "(Detector \<Rightarrow> rule_result) \<Rightarrow> Detector \<Rightarrow> Detector" where
  "after_rule r d = fold fire (snd (r d)) (fst (r d))"

lemma run_rules_Cons:
  "run_rules (r # rs) d = (fst (run_rules rs (after_rule r d)), snd (r d) @ snd (run_rules rs (after_rule r d)))"
  by (simp add: after_rule_def Let_def split_beta)

lemma Inspect_fires:
  assumes "ac_Enabled (dt_cfg d)"
  obtains d1 d2 d3 d4 d5 where
    "snd (Inspect env ev d) = snd (inspect_baseline env (inspected_at env ev) ev d)
       @ snd (inspect_user env (inspected_at env ev) ev d1) @ snd (inspect_block env (inspected_at env ev) ev d2)
       @ snd (inspect_cross_tenant env (inspected_at env ev) ev d3) @ snd (inspect_honey env (inspected_at env ev) ev d4)
       @ snd (inspect_hours env (inspected_at env ev) ev d5)"
    "dt_userWindow d1 = dt_userWindow d" "dt_cfg d1 = dt_cfg d" "dt_cfg d5 = dt_cfg d"
proof -
  let ?ts = "inspected_at env ev"
  let ?d1 = "after_rule (inspect_baseline env ?ts ev) d"
  let ?d2 = "after_rule (inspect_user env ?ts ev) ?d1"
  let ?d3 = "after_rule (inspect_block env ?ts ev) ?d2"
  let ?d4 = "after_rule (inspect_cross_tenant env ?ts ev) ?d3"
  let ?d5 = "after_rule (inspect_honey env ?ts ev) ?d4"
  have I: "Inspect env ev d = run_rules (inspect_rules env ?ts ev) d"
    using assms by (simp add: Inspect_def Let_def inspected_at_def)
  show ?thesis
  proof (rule that [of ?d1 ?d2 ?d3 ?d4 ?d5])
    show "snd (Inspect env ev d) = snd (inspect_baseline env ?ts ev d) @ snd (inspect_user env ?ts ev ?d1)
       @ snd (inspect_block env ?ts ev ?d2) @ snd (inspect_cross_tenant env ?ts ev ?d3)
       @ snd (inspect_honey env ?ts ev ?d4) @ snd (inspect_hours env ?ts ev ?d5)"
      unfolding I inspect_rules_def run_rules_Cons run_rules.simps(1) snd_conv append_Nil2 by (rule refl)
  qed (simp_all add: after_rule_def)
qed

definition reports :: "string \<Rightarrow> AnomalyEvent list \<Rightarrow> bool" where
  "reports pat out \<longleftrightarrow> (\<exists>an \<in> set out. ano_Pattern an = pat)"

lemma reports_append: "reports pat (xs @ ys) \<longleftrightarrow> reports pat xs \<or> reports pat ys"
  by (auto simp: reports_def)

lemma reports_rule:
  "(\<And>an. an \<in> set out \<Longrightarrow> ano_Pattern an = p) \<Longrightarrow> reports pat out \<longleftrightarrow> out \<noteq> [] \<and> p = pat"
  by (cases out) (auto simp: reports_def)

lemma reports_rules:
  "reports pat (snd (inspect_baseline env ts ev d)) \<longleftrightarrow> snd (inspect_baseline env ts ev d) \<noteq> [] \<and> ''statistical_spike'' = pat"
  "reports pat (snd (inspect_user env ts ev d)) \<longleftrightarrow> snd (inspect_user env ts ev d) \<noteq> [] \<and> ''high_freq_user'' = pat"
  "reports pat (snd (inspect_block env ts ev d)) \<longleftrightarrow> snd (inspect_block env ts ev d) \<noteq> [] \<and> ''repeated_block'' = pat"
  "reports pat (snd (inspect_cross_tenant env ts ev d)) \<longleftrightarrow> snd (inspect_cross_tenant env ts ev d) \<noteq> [] \<and> ''cross_tenant_signal'' = pat"
  "reports pat (snd (inspect_honey env ts ev d)) \<longleftrightarrow> snd (inspect_honey env ts ev d) \<noteq> [] \<and> ''honey_multi_layer'' = pat"
  "reports pat (snd (inspect_hours env ts ev d)) \<longleftrightarrow> snd (inspect_hours env ts ev d) \<noteq> [] \<and> ''off_hours_access'' = pat"
  by (rule reports_rule, rule patterns_apart, assumption)+

lemma Inspect_user_fires:
  assumes "ac_Enabled (dt_cfg d)"
  shows "reports ''high_freq_user'' (snd (Inspect env ev d)) \<longleftrightarrow>
    ev_UserID ev \<noteq> [] \<and> ac_HighFreqUserLimit (dt_cfg d) > 0
    \<and> int (snd (pw_add (user_key ev) (inspected_at env ev) Minute (dt_userWindow d))) = ac_HighFreqUserLimit (dt_cfg d)"
proof (rule Inspect_fires [OF assms, of env ev])
  fix d1 d2 d3 d4 d5
  assume out: "snd (Inspect env ev d) = snd (inspect_baseline env (inspected_at env ev) ev d)
       @ snd (inspect_user env (inspected_at env ev) ev d1) @ snd (inspect_block env (inspected_at env ev) ev d2)
       @ snd (inspect_cross_tenant env (inspected_at env ev) ev d3) @ snd (inspect_honey env (inspected_at env ev) ev d4)
       @ snd (inspect_hours env (inspected_at env ev) ev d5)"
    and d1: "dt_userWindow d1 = dt_userWindow d" "dt_cfg d1 = dt_cfg d"
  have "reports ''high_freq_user'' (snd (Inspect env ev d))
      \<longleftrightarrow> snd (inspect_user env (inspected_at env ev) ev d1) \<noteq> []"
    unfolding out reports_append reports_rules by simp
  then show ?thesis
    by (simp add: inspect_user_def Let_def split_beta d1)
qed

lemma Inspect_hours_fires:
  assumes "ac_Enabled (dt_cfg d)" and "off_hours (dt_cfg d) (time_Hour (ie_zone env) (inspected_at env ev))"
  shows "snd (Inspect env ev d) \<noteq> [] \<and> ano_Pattern (last (snd (Inspect env ev d))) = ''off_hours_access''
    \<and> ano_Severity (last (snd (Inspect env ev d))) = ''warning''"
proof (rule Inspect_fires [OF assms(1), of env ev])
  fix d1 d2 d3 d4 d5
  assume out: "snd (Inspect env ev d) = snd (inspect_baseline env (inspected_at env ev) ev d)
       @ snd (inspect_user env (inspected_at env ev) ev d1) @ snd (inspect_block env (inspected_at env ev) ev d2)
       @ snd (inspect_cross_tenant env (inspected_at env ev) ev d3) @ snd (inspect_honey env (inspected_at env ev) ev d4)
       @ snd (inspect_hours env (inspected_at env ev) ev d5)"
    and d5: "dt_cfg d5 = dt_cfg d"
  have "snd (inspect_hours env (inspected_at env ev) ev d5) \<noteq> []"
    "ano_Pattern (last (snd (inspect_hours env (inspected_at env ev) ev d5))) = ''off_hours_access''"
    "ano_Severity (last (snd (inspect_hours env (inspected_at env ev) ev d5))) = ''warning''"
    using assms(2) by (simp_all add: inspect_hours_def Let_def d5 anomaly_def)
  then show ?thesis unfolding out by simp
qed

subsection \<open>Runs of the detector\<close>

definition inspect_all :: "(InspectEnv \<times> BastionEvent) list \<Rightarrow> Detector \<Rightarrow> Detector" where
  "inspect_all evs d = fold (\<lambda>(env, ev) d. fst (Inspect env ev d)) evs d"

text \<open>When the events of a user were inspected.\<close>

definition user_stamps :: "(InspectEnv \<times> BastionEvent) list \<Rightarrow> (string \<times> gotime) list" where
  "user_stamps evs = map (\<lambda>(env, ev). (user_key ev, inspected_at env ev)) (filter (\<lambda>(env, ev). ev_UserID ev \<noteq> []) evs)"

definition user_times :: "string \<Rightarrow> (InspectEnv \<times> BastionEvent) list \<Rightarrow> gotime list" where
  "user_times k evs = map snd (filter (\<lambda>p. fst p = k) (user_stamps evs))"

lemma Inspect_cfg [simp]: "dt_cfg (fst (Inspect env ev d)) = dt_cfg d"
  by (simp add: Inspect_def Let_def run_rules_cfg)

lemma inspect_all_cfg [simp]: "dt_cfg (inspect_all evs d) = dt_cfg d"
  by (induction evs arbitrary: d) (auto simp: inspect_all_def)

lemma users_fold:
  "ac_Enabled (dt_cfg d) \<Longrightarrow> ac_HighFreqUserLimit (dt_cfg d) > 0 \<Longrightarrow>
     dt_userWindow (inspect_all evs d)
       = fold (\<lambda>(k, t) pw. fst (pw_add k t Minute pw)) (user_stamps evs) (dt_userWindow d)"
proof (induction evs arbitrary: d)
  case (Cons e evs)
  obtain env ev where e: "e = (env, ev)" by fastforce
  have "inspect_all (e # evs) d = inspect_all evs (fst (Inspect env ev d))"
    by (simp add: inspect_all_def e)
  then show ?case
    using Cons.IH [of "fst (Inspect env ev d)"] Cons.prems
    by (simp add: Inspect_user_window user_stamps_def e)
qed (simp add: inspect_all_def user_stamps_def)

lemma pw_add_count: "snd (pw_add k t w pw) = length (mget0 [] (fst (pw_add k t w pw)) k)"
  by (simp add: pw_add_def Let_def)

lemma user_window_count:
  assumes "ac_Enabled cfg" and "ac_HighFreqUserLimit cfg > 0" and "ev_UserID ev \<noteq> []"
    and sorted: "sorted (user_times (user_key ev) (evs @ [(env, ev)]))"
  shows "snd (pw_add (user_key ev) (inspected_at env ev) Minute (dt_userWindow (inspect_all evs (Detector_New cfg))))
    = length (filter (\<lambda>t. inspected_at env ev - Minute < t) (user_times (user_key ev) (evs @ [(env, ev)])))"
proof -
  let ?k = "user_key ev" and ?t = "inspected_at env ev"
  let ?add = "\<lambda>(k, t) pw. fst (pw_add k t Minute pw)"
  have ts: "user_times ?k (evs @ [(env, ev)]) = user_times ?k evs @ [?t]"
    using assms(3) by (simp add: user_times_def user_stamps_def)
  have win: "dt_userWindow (inspect_all evs (Detector_New cfg)) = fold ?add (user_stamps evs) []"
    using users_fold [of "Detector_New cfg" evs] assms(1,2) by (simp add: Detector_New_def)
  have "fst (pw_add ?k ?t Minute (fold ?add (user_stamps evs) [])) = fold ?add (user_stamps evs @ [(?k, ?t)]) []"
    by simp
  then have "mget0 [] (fst (pw_add ?k ?t Minute (fold ?add (user_stamps evs) []))) ?k
      = mget0 [] (fold (\<lambda>t pw. fst (pw_add ?k t Minute pw)) (user_times ?k evs @ [?t]) []) ?k"
    using pattern.times_fold [of Minute "user_stamps evs @ [(?k, ?t)]" "[]" ?k] by (simp add: user_times_def)
  also have "\<dots> = filter (\<lambda>u. ?t - Minute < u) (user_times ?k evs @ [?t])"
    using pattern.window_exact [of Minute "user_times ?k evs @ [?t]" "[]" ?k] sorted unfolding ts
    by (simp add: Minute_def mget0_def)
  finally show ?thesis unfolding pw_add_count win ts by simp
qed

subsection \<open>How large a deviation a sample can have\<close>

text \<open>
  In a sample of \<open>n\<close> values none is further from the mean than \<open>(n - 1) / sqrt n\<close> sample
  standard deviations.
\<close>

lemma sum_list_square_le:
  fixes ys :: "real list"
  shows "(sum_list ys)\<^sup>2 \<le> of_nat (length ys) * sum_list (map (\<lambda>y. y\<^sup>2) ys)"
proof (cases "ys = []")
  case False
  let ?m = "sum_list ys / of_nat (length ys)" and ?n = "real (length ys)"
  have n: "?n > 0" using False by simp
  have "0 \<le> sum_list (map (\<lambda>y. (y - ?m)\<^sup>2) ys)" by (rule sum_list_nonneg) auto
  also have "sum_list (map (\<lambda>y. (y - m)\<^sup>2) ys)
      = sum_list (map (\<lambda>y. y\<^sup>2) ys) - 2 * m * sum_list ys + of_nat (length ys) * m\<^sup>2" for m
    by (induction ys) (simp_all add: power2_diff algebra_simps)
  also have "sum_list (map (\<lambda>y. y\<^sup>2) ys) - 2 * ?m * sum_list ys + ?n * ?m\<^sup>2
      = sum_list (map (\<lambda>y. y\<^sup>2) ys) - (sum_list ys)\<^sup>2 / ?n"
    using n by (simp add: power2_eq_square field_simps)
  finally have "(sum_list ys)\<^sup>2 / ?n \<le> sum_list (map (\<lambda>y. y\<^sup>2) ys)" by simp
  then show ?thesis using n by (simp add: field_simps)
qed simp

lemma deviation_bound:
  fixes xs :: "real list"
  assumes "x \<in> set xs"
  defines "m \<equiv> sum_list xs / of_nat (length xs)"
  shows "of_nat (length xs) * (x - m)\<^sup>2 \<le> of_nat (length xs - 1) * sum_list (map (\<lambda>v. (v - m)\<^sup>2) xs)"
proof -
  obtain ys zs where xs: "xs = ys @ x # zs" using assms(1) by (meson split_list)
  let ?r = "map (\<lambda>v. v - m) (ys @ zs)" and ?n = "real (length xs)"
  have n: "?n > 0" using xs by simp
  have "sum_list (map (\<lambda>v. v - c) vs) = sum_list vs - of_nat (length vs) * c" for c and vs :: "real list"
    by (induction vs) (simp_all add: algebra_simps)
  then have "sum_list (map (\<lambda>v. v - m) xs) = 0" using n by (simp add: m_def)
  then have r: "sum_list ?r = - (x - m)" by (simp add: xs)
  have "(x - m)\<^sup>2 = (sum_list ?r)\<^sup>2" unfolding r by (simp add: power2_eq_square algebra_simps)
  also have "\<dots> \<le> of_nat (length ?r) * sum_list (map (\<lambda>y. y\<^sup>2) ?r)" by (rule sum_list_square_le)
  finally have "(x - m)\<^sup>2 \<le> of_nat (length xs - 1) * (sum_list (map (\<lambda>v. (v - m)\<^sup>2) xs) - (x - m)\<^sup>2)"
    by (simp add: xs comp_def)
  moreover have "real (length xs - 1) = ?n - 1" using n by (simp add: of_nat_diff xs)
  ultimately show ?thesis by (simp add: algebra_simps)
qed

lemma no_large_deviation:
  assumes x: "x \<in> set xs" and sd: "meanStddev xs = (mean, stddev)" and pos: "stddev > 0"
    and sigma: "0 \<le> sigma" "real (length xs - 1) * real (length xs - 1) \<le> sigma * sigma * real (length xs)"
  shows "(x - mean) / stddev \<le> sigma"
proof -
  let ?n = "real (length xs)" and ?k = "real (length xs - 1)"
  have len: "length xs \<noteq> 0" "length xs \<noteq> 1" using sd pos by (auto simp: meanStddev_def Let_def split: if_splits)
  then have "1 < length xs" by linarith
  then have "0 < length xs" "0 < length xs - 1" by linarith+
  then have n: "?n > 0" "?k > 0" by (simp_all only: of_nat_0_less_iff)
  have mean: "mean = sum_list xs / ?n"
    and var: "stddev = sqrt (sum_list (map (\<lambda>v. (v - mean)\<^sup>2) xs) / ?k)"
    using sd len by (auto simp: meanStddev_def Let_def power2_eq_square)
  have "0 \<le> sum_list (map (\<lambda>v. (v - mean)\<^sup>2) xs)" by (rule sum_list_nonneg) auto
  then have s2: "stddev\<^sup>2 = sum_list (map (\<lambda>v. (v - mean)\<^sup>2) xs) / ?k" unfolding var using n by simp
  have "?n * (x - mean)\<^sup>2 \<le> ?k * sum_list (map (\<lambda>v. (v - mean)\<^sup>2) xs)"
    using deviation_bound [OF x] unfolding mean .
  also have "\<dots> = ?k * ?k * stddev\<^sup>2" using n by (simp add: s2)
  also have "\<dots> \<le> sigma * sigma * ?n * stddev\<^sup>2" using sigma(2) by (rule mult_right_mono) simp
  also have "\<dots> = ?n * (sigma * stddev)\<^sup>2" by (simp add: power2_eq_square)
  finally have "(x - mean)\<^sup>2 \<le> (sigma * stddev)\<^sup>2" using n(1) by (simp only: mult_le_cancel_left_pos)
  moreover have "0 \<le> sigma * stddev" using sigma(1) pos by simp
  ultimately have "x - mean \<le> sigma * stddev" by (rule power2_le_imp_le)
  then show ?thesis using pos by (simp add: field_simps)
qed

lemma minute_map_keys: "fst ` set (minute_map bs) = (\<lambda>b. minute_of (wb_at b)) ` set bs \<and> map_ok (minute_map bs)"
proof -
  have "fst ` set (fold (\<lambda>b m. mput (minute_of (wb_at b)) (mget0 0 m (minute_of (wb_at b)) + wb_count b) m) bs m0)
      = fst ` set m0 \<union> (\<lambda>b. minute_of (wb_at b)) ` set bs
    \<and> map_ok (fold (\<lambda>b m. mput (minute_of (wb_at b)) (mget0 0 m (minute_of (wb_at b)) + wb_count b) m) bs m0)"
    if "map_ok m0" for m0 :: "(int, nat) gomap"
    using that
  proof (induction bs arbitrary: m0)
    case (Cons b bs)
    show ?case
      using Cons.IH [OF map_ok_mput [OF Cons.prems, of "minute_of (wb_at b)" "mget0 0 m0 (minute_of (wb_at b)) + wb_count b"]]
      by (auto simp: dom_update)
  qed simp
  from this [of "[]"] show ?thesis by (simp add: minute_map_def)
qed

lemma length_minute_map: "length (minute_map bs) = card ((\<lambda>b. minute_of (wb_at b)) ` set bs)"
  by (metis minute_map_keys distinct_card length_map list.set_map)

subsection \<open>Properties\<close>

text \<open>
  The high-frequency alarm counts exactly. For a user whose events are inspected in time
  order, the alarm goes off on precisely those events that make the number of the user's events
  in the minute up to it equal to the configured limit.
\<close>

theorem high_frequency_alarm_exact:
  assumes "ac_Enabled cfg" and "ac_HighFreqUserLimit cfg > 0" and "ev_UserID ev \<noteq> []"
    and "sorted (user_times (user_key ev) (evs @ [(env, ev)]))"
  shows "reports ''high_freq_user'' (snd (Inspect env ev (inspect_all evs (Detector_New cfg)))) \<longleftrightarrow>
    int (length (filter (\<lambda>t. inspected_at env ev - Minute < t) (user_times (user_key ev) (evs @ [(env, ev)]))))
      = ac_HighFreqUserLimit cfg"
proof -
  have "dt_cfg (inspect_all evs (Detector_New cfg)) = cfg" by (simp add: Detector_New_def)
  then show ?thesis
    using Inspect_user_fires [of "inspect_all evs (Detector_New cfg)" env ev] user_window_count [OF assms] assms(1-3)
    by simp
qed

text \<open>
  A statistical spike needs traffic in enough different minutes. When the window spans
  \<open>n\<close> distinct minutes and \<open>(n - 1) / sqrt n\<close> is at most the sigma threshold, \<open>record\<close> never
  reports a spike, however large the current rate: with the default threshold of 3 at least
  eleven distinct minutes are needed.
\<close>

theorem spike_needs_enough_minutes:
  assumes "range_order ord" and "0 \<le> bt_sigma bt"
    and "n = card ((\<lambda>b. minute_of (wb_at b)) ` set (mget0 [] (bt_windows (add_bucket (m, et) ts bt)) (m, et)))"
    and "of_nat ((n - 1) * (n - 1)) \<le> bt_sigma bt * bt_sigma bt * of_nat n"
  shows "\<not> snd (bt_record ord now m et ts bt)"
proof -
  let ?w = "mget0 [] (bt_windows (add_bucket (m, et) ts bt)) (m, et)"
  let ?counts = "map (\<lambda>p. real (snd p)) (ord (minute_map ?w))"
  obtain mean sd where ms: "meanStddev ?counts = (mean, sd)" by fastforce
  have sig: "bt_sigma (add_bucket (m, et) ts bt) = bt_sigma bt" by (simp add: add_bucket_def Let_def)
  have len: "length ?counts = n"
    by (simp add: range_order_length [OF assms(1)] length_minute_map assms(3))
  have "minute_of ts \<in> fst ` set (minute_map ?w)"
    using minute_map_keys [of ?w] by (auto simp: add_bucket_def Let_def)
  then obtain c where "mget (minute_map ?w) (minute_of ts) = Some c" by (metis map_of_eq_None_iff not_Some_eq)
  then have "(minute_of ts, c) \<in> set (minute_map ?w)" and c: "mget0 0 (minute_map ?w) (minute_of ts) = c"
    by (simp_all add: map_of_SomeD mget0_def)
  then have cur: "real (mget0 0 (minute_map ?w) (minute_of ts)) \<in> set ?counts"
    unfolding c by (force simp: range_order_set [OF assms(1)])
  have "(of_rat (of_nat ((n - 1) * (n - 1))) :: real) \<le> of_rat (bt_sigma bt * bt_sigma bt * of_nat n)"
    unfolding of_rat_less_eq by (rule assms(4))
  then have bound: "real (length ?counts - 1) * real (length ?counts - 1)
      \<le> of_rat (bt_sigma bt) * of_rat (bt_sigma bt) * real (length ?counts)"
    unfolding len by (simp add: of_rat_mult)
  have "(real (mget0 0 (minute_map ?w) (minute_of ts)) - mean) / sd \<le> of_rat (bt_sigma bt)" if "sd > 0"
    by (rule no_large_deviation [OF cur ms that _ bound]) (use assms(2) in simp)
  then have "\<not> (sd > 0 \<and> (real (mget0 0 (minute_map ?w) (minute_of ts)) - mean) / sd > of_rat (bt_sigma bt))"
    by (meson not_less)
  then show ?thesis
    unfolding bt_record_def Let_def ms split_conv sig by simp
qed

text \<open>The event an anomaly becomes passes the validator and opens no incident.\<close>

lemma OnAnomaly_accepted:
  assumes "env_ok env" and "ano_Severity an = ''warning'' \<or> ano_Severity an = ''critical''"
  shows "Validate (enrich env (OnAnomaly an)) = None \<and> \<not> opens_incident (enrich env (OnAnomaly an))
    \<and> ev_Timestamp (enrich env (OnAnomaly an)) = env_now env"
proof -
  have e: "ev_EventType (enrich env (OnAnomaly an)) = ''anomaly_detected''"
    "ev_Module (enrich env (OnAnomaly an)) = ''tracker''" "ev_Status (enrich env (OnAnomaly an)) = ''error''"
    "ev_Timestamp (enrich env (OnAnomaly an)) = env_now env"
    by (simp_all add: enrich_fields OnAnomaly_def zero_event_def)
  have sev: "ev_Severity (enrich env (OnAnomaly an)) = ano_Severity an"
    using assms(2) by (auto simp: enrich_fields OnAnomaly_def)
  have lits: "\<not> blank ''anomaly_detected''" "\<not> blank ''tracker''" "''error'' \<in> set validStatuses"
    "''warning'' \<in> set validSeverities" "''critical'' \<in> set validSeverities"
    "\<not> HasPrefix ''anomaly_detected'' ''honey_token_''"
    "''anomaly_detected'' \<notin> {''prompt_injection_detected'', ''cross_tenant_attempt''}" by code_simp+
  have "ano_Severity an \<in> set validSeverities" using assms(2) lits(4,5) by metis
  then show ?thesis
    unfolding Validate_None opens_incident_def e sev using lits by blast
qed

text \<open>
  The detector remembers the newest 1000 anomalies. After any run the list holds the last
  1000 of everything reported, in order, and \<open>Recent\<close> returns those of the last 24 hours.
\<close>

theorem detector_keeps_newest_1000:
  assumes "detected_ok d"
  shows "dt_detected (fst (Inspect env ev d)) = keep_last 1000 (dt_detected d @ snd (Inspect env ev d))
    \<and> Detector_Recent now (fst (Inspect env ev d))
      = filter (\<lambda>an. now - 24 * Hour < ano_DetectedAt an) (keep_last 1000 (dt_detected d @ snd (Inspect env ev d)))"
proof -
  have "dt_detected (fst (run_rules (inspect_rules env (inspected_at env ev) ev) d))
      = keep_last 1000 (dt_detected d @ snd (run_rules (inspect_rules env (inspected_at env ev) ev) d))"
    by (rule run_rules_detected [OF _ assms]) (rule inspect_detected)
  then have "dt_detected (fst (Inspect env ev d)) = keep_last 1000 (dt_detected d @ snd (Inspect env ev d))"
    using assms by (simp add: Inspect_def inspected_at_def Let_def keep_last_short)
  then show ?thesis by (simp add: Detector_Recent_def go_simps)
qed

definition demo_anomaly_cfg :: AnomalyConfig where
  "demo_anomaly_cfg = \<lparr>ac_Enabled = True, ac_SigmaThreshold = 3, ac_WindowHours = 1, ac_HighFreqUserLimit = 2,
     ac_RepeatedBlockWindow = ''5m'', ac_RepeatedBlockCount = 3, ac_ActiveHoursStart = 9, ac_ActiveHoursEnd = 9\<rparr>"

definition demo_inspect_env :: InspectEnv where
  "demo_inspect_env = \<lparr>ie_now = unix_epoch, ie_id = (\<lambda>i. ''id''), ie_minutes = (\<lambda>m. m), ie_mods = (\<lambda>m. m),
     ie_zone = (\<lambda>t. 0)\<rparr>"

definition demo_user_event :: "gotime \<Rightarrow> BastionEvent" where
  "demo_user_event t = zero_event\<lparr>ev_UserID := ''u'', ev_TenantID := ''t'', ev_Timestamp := t\<rparr>"

lemma high_frequency_alarm_exact_witness:
  "reports ''high_freq_user'' (snd (Inspect demo_inspect_env (demo_user_event 9)
     (inspect_all [(demo_inspect_env, demo_user_event 5)] (Detector_New demo_anomaly_cfg))))"
proof -
  have "ac_Enabled demo_anomaly_cfg" "ac_HighFreqUserLimit demo_anomaly_cfg > 0" "ev_UserID (demo_user_event 9) \<noteq> []"
    "sorted (user_times (user_key (demo_user_event 9))
       ([(demo_inspect_env, demo_user_event 5)] @ [(demo_inspect_env, demo_user_event 9)]))"
    by code_simp+
  note th = high_frequency_alarm_exact [OF this]
  have "int (length (filter (\<lambda>t. inspected_at demo_inspect_env (demo_user_event 9) - Minute < t)
      (user_times (user_key (demo_user_event 9))
       ([(demo_inspect_env, demo_user_event 5)] @ [(demo_inspect_env, demo_user_event 9)]))))
    = ac_HighFreqUserLimit demo_anomaly_cfg" by code_simp
  then show ?thesis using th by (rule iffD2 [rotated])
qed

lemma spike_needs_enough_minutes_witness:
  "\<not> snd (bt_record (\<lambda>m. m) 7 ''vault'' ''read'' unix_epoch (dt_baseline (Detector_New demo_anomaly_cfg)))"
proof -
  let ?bt = "dt_baseline (Detector_New demo_anomaly_cfg)"
  let ?n = "card ((\<lambda>b. minute_of (wb_at b)) ` set (mget0 [] (bt_windows (add_bucket (''vault'', ''read'') unix_epoch ?bt)) (''vault'', ''read'')))"
  have n: "?n = 1" by (simp add: Detector_New_def add_bucket_def Let_def mget0_def)
  have s: "0 \<le> bt_sigma ?bt" by (simp add: Detector_New_def demo_anomaly_cfg_def)
  show ?thesis
    by (rule spike_needs_enough_minutes [OF range_order_id s refl]) (simp add: n)
qed

lemma detector_keeps_newest_1000_witness:
  "length (dt_detected (fst (Inspect demo_inspect_env zero_event (Detector_New demo_anomaly_cfg)))) \<le> 1000"
proof -
  have "detected_ok (Detector_New demo_anomaly_cfg)" by (simp add: Detector_New_def)
  from detector_keeps_newest_1000 [OF this, of demo_inspect_env zero_event] show ?thesis by simp
qed

end
