(* ===== verification/Monitor.thy ===== *)
theory Monitor
  imports Chan Models
begin

text \<open>
  internal/monitor/monitor.go: observe mode builds one session per trace, gate mode parks
  pipeline stages on checkpoints until an operator decides. Each method of the manager is one
  critical section under its mutex, except that \<open>ObserveEvent\<close> reads the mode first and that
  \<open>WaitForDecision\<close> fetches its channel and receives from it later: those are separate steps.
  Sessions are pointers shared by two maps, here numbers into a heap. \<open>newID\<close> and the clock are
  arguments.
\<close>

definition ModeOff :: string where "ModeOff = ''off''"
definition ModeObserve :: string where "ModeObserve = ''observe''"
definition ModeGate :: string where "ModeGate = ''gate''"

lemmas mode_defs = ModeOff_def ModeObserve_def ModeGate_def

record Step =
  stp_StepID :: string
  stp_StepIndex :: nat
  stp_Module :: string
  stp_EventType :: string
  stp_Timestamp :: gotime
  stp_DurationMs :: int
  stp_Status :: string
  stp_Data :: "(string, goany) gomap"
  stp_Annotation :: string

record Session =
  ss_SessionID :: string
  ss_TraceID :: string
  ss_TenantID :: string
  ss_UserID :: string
  ss_Mode :: string
  ss_StartedAt :: gotime
  ss_UpdatedAt :: gotime
  ss_Status :: string
  ss_Steps :: "Step list"

datatype CheckpointStatus = StatusPending | StatusApproved | StatusRejected | StatusTimedOut

record Checkpoint =
  ck_CheckpointID :: string
  ck_TraceID :: string
  ck_TenantID :: string
  ck_Stage :: string
  ck_RequestData :: "(string, goany) gomap"
  ck_Status :: CheckpointStatus
  ck_CreatedAt :: gotime
  ck_TimeoutAt :: gotime
  ck_DecidedAt :: "gotime option"
  ck_DecidedBy :: string
  ck_Notes :: string

record MonitorConfig =
  mc_Mode :: string
  mc_SessionRetentionHours :: int
  mc_CheckpointTimeoutSec :: int
  mc_AutoApproveOnTimeout :: bool

text \<open>What \<open>broadcastFn\<close> is called with.\<close>

datatype monitor_push =
    PushStep string Step
  | PushCheckpoint Checkpoint
  | PushDecided Checkpoint

record Monitor =
  mon_mode :: string
  mon_cfg :: MonitorConfig
  mon_heap :: "Session list"
  mon_sessions :: "(string, nat) gomap"
  mon_byTrace :: "(string, nat) gomap"
  mon_checkpoints :: "(string, Checkpoint) gomap"
  mon_chans :: "(string, CheckpointStatus chan) gomap"
  mon_pendingCh :: "string list"
  mon_broadcast :: bool

definition Monitor_New :: "MonitorConfig \<Rightarrow> Monitor" where
  "Monitor_New cfg0 =
     (let cfg1 = (if mc_SessionRetentionHours cfg0 = 0 then cfg0\<lparr>mc_SessionRetentionHours := 24\<rparr> else cfg0);
          cfg = (if mc_CheckpointTimeoutSec cfg1 = 0 then cfg1\<lparr>mc_CheckpointTimeoutSec := 300\<rparr> else cfg1)
      in \<lparr>mon_mode = (if mc_Mode cfg = [] then ModeOff else mc_Mode cfg), mon_cfg = cfg, mon_heap = [],
          mon_sessions = [], mon_byTrace = [], mon_checkpoints = [], mon_chans = [], mon_pendingCh = [],
          mon_broadcast = False\<rparr>)"

definition SetBroadcast :: "Monitor \<Rightarrow> Monitor" where
  "SetBroadcast m = m\<lparr>mon_broadcast := True\<rparr>"

definition GetMode :: "Monitor \<Rightarrow> string" where
  "GetMode m = mon_mode m"

definition push :: "Monitor \<Rightarrow> monitor_push \<Rightarrow> monitor_push list" where
  "push m p = (if mon_broadcast m then [p] else [])"

subsection \<open>Observe mode\<close>

definition new_session :: "string \<Rightarrow> string \<Rightarrow> BastionEvent \<Rightarrow> Session" where
  "new_session sid mode ev =
     \<lparr>ss_SessionID = sid, ss_TraceID = ev_TraceID ev, ss_TenantID = ev_TenantID ev, ss_UserID = ev_UserID ev,
      ss_Mode = mode, ss_StartedAt = ev_Timestamp ev, ss_UpdatedAt = ev_Timestamp ev, ss_Status = ''active'',
      ss_Steps = []\<rparr>"

definition step_of :: "string \<Rightarrow> nat \<Rightarrow> BastionEvent \<Rightarrow> Step" where
  "step_of stid i ev =
     \<lparr>stp_StepID = stid, stp_StepIndex = i, stp_Module = ev_Module ev, stp_EventType = ev_EventType ev,
      stp_Timestamp = ev_Timestamp ev, stp_DurationMs = ev_DurationMs ev, stp_Status = ev_Status ev,
      stp_Data = ev_Data ev, stp_Annotation = []\<rparr>"

definition terminal_event :: "BastionEvent \<Rightarrow> bool" where
  "terminal_event ev \<longleftrightarrow> ev_Module ev = ''llm'' \<or> ev_Status ev = ''blocked''"

definition add_step :: "string \<Rightarrow> BastionEvent \<Rightarrow> Session \<Rightarrow> Session" where
  "add_step stid ev s =
     s\<lparr>ss_Steps := ss_Steps s @ [step_of stid (length (ss_Steps s)) ev], ss_UpdatedAt := ev_Timestamp ev,
       ss_Status := (if terminal_event ev then ''completed'' else ss_Status s)\<rparr>"

text \<open>The session of the event's trace, allocated when there is none.\<close>

definition session_for :: "string \<Rightarrow> string \<Rightarrow> BastionEvent \<Rightarrow> Monitor \<Rightarrow> nat \<times> Monitor" where
  "session_for sid mode ev m =
     (case mget (mon_byTrace m) (ev_TraceID ev) of
        Some p \<Rightarrow> (p, m)
      | None \<Rightarrow>
          let p = length (mon_heap m)
          in (p, m\<lparr>mon_heap := mon_heap m @ [new_session sid mode ev],
                   mon_sessions := mput sid p (mon_sessions m),
                   mon_byTrace := mput (ev_TraceID ev) p (mon_byTrace m)\<rparr>))"

text \<open>\<open>ObserveEvent\<close> after it has read \<open>mode\<close> in its first critical section.\<close>

definition ObserveEvent :: "string \<Rightarrow> string \<Rightarrow> string \<Rightarrow> BastionEvent \<Rightarrow> Monitor \<Rightarrow> Monitor \<times> monitor_push list" where
  "ObserveEvent mode sid stid ev m =
     (if mode = ModeOff then (m, [])
      else let (p, m1) = session_for sid mode ev m;
               s = mon_heap m1 ! p;
               s' = add_step stid ev s
           in (m1\<lparr>mon_heap := (mon_heap m1)[p := s']\<rparr>,
               push m1 (PushStep (ss_SessionID s) (last (ss_Steps s')))))"

definition ListSessions :: "((string, nat) gomap \<Rightarrow> (string, nat) gomap) \<Rightarrow> Monitor \<Rightarrow> Session list" where
  "ListSessions ord m = map (\<lambda>(k, p). mon_heap m ! p) (ord (mon_sessions m))"

definition GetSession :: "string \<Rightarrow> Monitor \<Rightarrow> Session option" where
  "GetSession sid m = map_option (\<lambda>p. mon_heap m ! p) (mget (mon_sessions m) sid)"

definition DeleteSession :: "string \<Rightarrow> Monitor \<Rightarrow> Monitor \<times> bool" where
  "DeleteSession sid m =
     (case mget (mon_sessions m) sid of
        None \<Rightarrow> (m, False)
      | Some p \<Rightarrow> (m\<lparr>mon_sessions := mdel sid (mon_sessions m),
                     mon_byTrace := mdel (ss_TraceID (mon_heap m ! p)) (mon_byTrace m)\<rparr>, True))"

fun annotate_loop :: "string \<Rightarrow> string \<Rightarrow> Step list \<Rightarrow> Step list option" where
  "annotate_loop stepID note [] = None"
| "annotate_loop stepID note (st # sts) =
     (if stp_StepID st = stepID then Some (st\<lparr>stp_Annotation := note\<rparr> # sts)
      else map_option (\<lambda>r. st # r) (annotate_loop stepID note sts))"

definition AnnotateStep :: "string \<Rightarrow> string \<Rightarrow> string \<Rightarrow> Monitor \<Rightarrow> Monitor \<times> bool" where
  "AnnotateStep sessionID stepID note m =
     (case mget (mon_sessions m) sessionID of
        None \<Rightarrow> (m, False)
      | Some p \<Rightarrow>
          (case annotate_loop stepID note (ss_Steps (mon_heap m ! p)) of
             None \<Rightarrow> (m, False)
           | Some sts \<Rightarrow> (m\<lparr>mon_heap := (mon_heap m)[p := (mon_heap m ! p)\<lparr>ss_Steps := sts\<rparr>]\<rparr>, True)))"

subsection \<open>Gate mode\<close>

text \<open>The loop of \<open>SetMode\<close> over the pending channels; \<open>None\<close> is a blocked send under the mutex.\<close>

fun release_all :: "string list \<Rightarrow> Monitor \<Rightarrow> Monitor option" where
  "release_all [] m = Some m"
| "release_all (cid # ids) m =
     (case mget (mon_chans m) cid of
        None \<Rightarrow> None
      | Some ch \<Rightarrow>
          (case send_locked StatusRejected ch of
             None \<Rightarrow> None
           | Some ch' \<Rightarrow> release_all ids (m\<lparr>mon_chans := mput cid ch' (mon_chans m),
                                           mon_pendingCh := removeAll cid (mon_pendingCh m)\<rparr>)))"

definition SetMode :: "(string list \<Rightarrow> string list) \<Rightarrow> string \<Rightarrow> Monitor \<Rightarrow> Monitor option" where
  "SetMode ord mode m =
     (let prev = mon_mode m; m1 = m\<lparr>mon_mode := mode\<rparr>
      in if prev = ModeGate \<and> mode \<noteq> ModeGate then release_all (ord (mon_pendingCh m1)) m1 else Some m1)"

definition CreateCheckpoint ::
    "gotime \<Rightarrow> gotime \<Rightarrow> string \<Rightarrow> string \<Rightarrow> string \<Rightarrow> string \<Rightarrow> (string, goany) gomap \<Rightarrow> Monitor
       \<Rightarrow> Checkpoint option \<times> Monitor \<times> monitor_push list" where
  "CreateCheckpoint now now2 cid traceID tenantID stage data m =
     (if mon_mode m \<noteq> ModeGate then (None, m, [])
      else let cp = \<lparr>ck_CheckpointID = cid, ck_TraceID = traceID, ck_TenantID = tenantID, ck_Stage = stage,
                     ck_RequestData = data, ck_Status = StatusPending, ck_CreatedAt = now,
                     ck_TimeoutAt = time_Add now2 (wrap64 (mc_CheckpointTimeoutSec (mon_cfg m) * Second)),
                     ck_DecidedAt = None, ck_DecidedBy = [], ck_Notes = []\<rparr>
           in (Some cp,
               m\<lparr>mon_checkpoints := mput cid cp (mon_checkpoints m),
                 mon_chans := mput cid (make_chan 1) (mon_chans m),
                 mon_pendingCh := List.insert cid (mon_pendingCh m)\<rparr>,
               push m (PushCheckpoint cp)))"

text \<open>\<open>WaitForDecision\<close>: whether there is a channel to wait on, and what a received status means.\<close>

definition wait_begin :: "string \<Rightarrow> Monitor \<Rightarrow> (bool \<times> string) option" where
  "wait_begin cid m = (if cid \<in> set (mon_pendingCh m) then None else Some (False, ''checkpoint not found''))"

definition wait_result :: "MonitorConfig \<Rightarrow> CheckpointStatus \<Rightarrow> bool \<times> string" where
  "wait_result cfg st =
     (if st = StatusApproved then (True, [])
      else if st = StatusTimedOut then
        (if mc_AutoApproveOnTimeout cfg then (True, ''auto-approved on timeout'')
         else (False, ''timed out waiting for operator decision''))
      else (False, ''rejected by operator''))"

text \<open>The end of \<open>Decide\<close> and \<open>enforceTimeout\<close>: hand the status to the channel, if still there.\<close>

definition deliver_decision :: "string \<Rightarrow> CheckpointStatus \<Rightarrow> Monitor \<Rightarrow> Monitor option" where
  "deliver_decision cid st m =
     (if cid \<in> set (mon_pendingCh m) then
        (case mget (mon_chans m) cid of
           None \<Rightarrow> None
         | Some ch \<Rightarrow> map_option (\<lambda>ch'. m\<lparr>mon_chans := mput cid ch' (mon_chans m),
                                        mon_pendingCh := removeAll cid (mon_pendingCh m)\<rparr>)
                       (send_locked st ch))
      else Some m)"

definition decision_status :: "string \<Rightarrow> CheckpointStatus" where
  "decision_status decision = (if decision = ''approve'' then StatusApproved else StatusRejected)"

text \<open>
  \<open>Decide\<close>: the checkpoint, or none when it is unknown or already decided. The outer
  option is \<open>None\<close> when a send would block.
\<close>

definition Decide ::
    "gotime \<Rightarrow> string \<Rightarrow> string \<Rightarrow> string \<Rightarrow> string \<Rightarrow> Monitor \<Rightarrow> (Checkpoint option \<times> Monitor \<times> monitor_push list) option" where
  "Decide now cid decidedBy decision notes m =
     (case mget (mon_checkpoints m) cid of
        None \<Rightarrow> Some (None, m, [])
      | Some cp \<Rightarrow>
          if ck_Status cp \<noteq> StatusPending then Some (None, m, [])
          else let cp' = cp\<lparr>ck_DecidedAt := Some now, ck_DecidedBy := decidedBy, ck_Notes := notes,
                            ck_Status := decision_status decision\<rparr>;
                   m1 = m\<lparr>mon_checkpoints := mput cid cp' (mon_checkpoints m)\<rparr>
               in map_option (\<lambda>m2. (Some cp', m2, push m2 (PushDecided cp')))
                    (deliver_decision (ck_CheckpointID cp) (decision_status decision) m1))"

text \<open>
  \<open>enforceTimeout\<close> first reads how long to sleep (nothing to do for an unknown checkpoint) and
  decides after the sleep.
\<close>

definition timeout_wait :: "gotime \<Rightarrow> string \<Rightarrow> Monitor \<Rightarrow> duration option" where
  "timeout_wait now cid m =
     map_option (\<lambda>cp. max 0 (time_Sub (ck_TimeoutAt cp) now)) (mget (mon_checkpoints m) cid)"

definition enforceTimeout :: "gotime \<Rightarrow> string \<Rightarrow> Monitor \<Rightarrow> (Monitor \<times> monitor_push list) option" where
  "enforceTimeout now cid m =
     (case mget (mon_checkpoints m) cid of
        None \<Rightarrow> Some (m, [])
      | Some cp \<Rightarrow>
          if ck_Status cp \<noteq> StatusPending then Some (m, [])
          else let cp' = cp\<lparr>ck_DecidedAt := Some now, ck_Status := StatusTimedOut\<rparr>;
                   m1 = m\<lparr>mon_checkpoints := mput cid cp' (mon_checkpoints m)\<rparr>
               in map_option (\<lambda>m2. (m2, push m2 (PushDecided cp'))) (deliver_decision cid StatusTimedOut m1))"

definition ListCheckpoints ::
    "((string, Checkpoint) gomap \<Rightarrow> (string, Checkpoint) gomap) \<Rightarrow> bool \<Rightarrow> Monitor \<Rightarrow> Checkpoint list" where
  "ListCheckpoints ord pendingOnly m =
     filter (\<lambda>cp. \<not> (pendingOnly \<and> ck_Status cp \<noteq> StatusPending)) (map snd (ord (mon_checkpoints m)))"

definition GetCheckpoint :: "string \<Rightarrow> Monitor \<Rightarrow> Checkpoint option" where
  "GetCheckpoint cid m = mget (mon_checkpoints m) cid"

definition take_decision :: "string \<Rightarrow> Monitor \<Rightarrow> Monitor" where
  "take_decision cid m =
     (case mget (mon_chans m) cid of
        None \<Rightarrow> m
      | Some ch \<Rightarrow> m\<lparr>mon_chans := mput cid (snd (chan_recv ch)) (mon_chans m)\<rparr>)"

subsection \<open>The steps of gate mode\<close>

text \<open>
  \<open>gate_step leave\<close>: a step of the manager, or \<open>None\<close> for a send that blocks under the mutex
  (the whole manager would stop). Leaving gate mode is only a step when \<open>leave\<close>. A timeout
  comes no earlier than \<open>TimeoutAt\<close>; a receive may come at any time, a new checkpoint takes an
  unused identifier.
\<close>

inductive gate_step :: "bool \<Rightarrow> Monitor \<Rightarrow> Monitor option \<Rightarrow> bool" for leave :: bool where
  create: "mget (mon_checkpoints m) cid = None \<Longrightarrow>
     gate_step leave m (Some (fst (snd (CreateCheckpoint now now2 cid t tn st data m))))"
| decide: "gate_step leave m (map_option (\<lambda>r. fst (snd r)) (Decide now cid by' dec' notes m))"
| timeout: "mget (mon_checkpoints m) cid = Some cp \<Longrightarrow> ck_TimeoutAt cp \<le> now \<Longrightarrow>
     gate_step leave m (map_option fst (enforceTimeout now cid m))"
| setmode: "leave \<or> mode = ModeGate \<or> mon_mode m \<noteq> ModeGate \<Longrightarrow> \<forall>xs. mset (ord xs) = mset xs \<Longrightarrow>
     gate_step leave m (SetMode ord mode m)"
| receive: "gate_step leave m (Some (take_decision cid m))"

abbreviation gate_init :: "Monitor \<Rightarrow> bool" where
  "gate_init m \<equiv> \<exists>cfg. m = Monitor_New cfg"

abbreviation gate_reach :: "bool \<Rightarrow> Monitor \<Rightarrow> bool" where
  "gate_reach leave \<equiv> reachable gate_init (gate_step leave)"

subsection \<open>The invariant of the gate\<close>

text \<open>
  A pending identifier has an untouched channel of its own and a pending checkpoint; whatever
  waits in a channel is the status its checkpoint has, or a rejection from leaving gate mode.
\<close>

definition gate_inv :: "bool \<Rightarrow> Monitor \<Rightarrow> bool" where
  "gate_inv leave m \<longleftrightarrow> distinct (mon_pendingCh m)
     \<and> (\<forall>cid \<in> set (mon_pendingCh m). mget (mon_chans m) cid = Some (make_chan (Suc 0))
          \<and> map_option ck_Status (mget (mon_checkpoints m) cid) = Some StatusPending)
     \<and> (\<forall>cid cp. mget (mon_checkpoints m) cid = Some cp \<longrightarrow> ck_CheckpointID cp = cid
          \<and> (ck_Status cp = StatusPending \<longleftrightarrow> ck_DecidedAt cp = None))
     \<and> (\<forall>cid ch st. mget (mon_chans m) cid = Some ch \<longrightarrow> st \<in> set (ch_buf ch) \<longrightarrow>
          st \<noteq> StatusPending
          \<and> (map_option ck_Status (mget (mon_checkpoints m) cid) = Some st \<or> leave \<and> st = StatusRejected))
     \<and> (\<forall>cid. mget (mon_checkpoints m) cid = None \<longrightarrow> mget (mon_chans m) cid = None)"

lemma gate_invI:
  assumes "distinct (mon_pendingCh m)"
    and "\<And>cid. cid \<in> set (mon_pendingCh m) \<Longrightarrow> mget (mon_chans m) cid = Some (make_chan (Suc 0))"
    and "\<And>cid. cid \<in> set (mon_pendingCh m) \<Longrightarrow> map_option ck_Status (mget (mon_checkpoints m) cid) = Some StatusPending"
    and "\<And>cid cp. mget (mon_checkpoints m) cid = Some cp \<Longrightarrow> ck_CheckpointID cp = cid"
    and "\<And>cid cp. mget (mon_checkpoints m) cid = Some cp \<Longrightarrow> ck_Status cp = StatusPending \<longleftrightarrow> ck_DecidedAt cp = None"
    and "\<And>cid ch st. mget (mon_chans m) cid = Some ch \<Longrightarrow> st \<in> set (ch_buf ch) \<Longrightarrow> st \<noteq> StatusPending"
    and "\<And>cid ch st. mget (mon_chans m) cid = Some ch \<Longrightarrow> st \<in> set (ch_buf ch) \<Longrightarrow>
           map_option ck_Status (mget (mon_checkpoints m) cid) = Some st \<or> leave \<and> st = StatusRejected"
    and "\<And>cid. mget (mon_checkpoints m) cid = None \<Longrightarrow> mget (mon_chans m) cid = None"
  shows "gate_inv leave m"
  using assms unfolding gate_inv_def by blast

lemma gate_invD:
  assumes "gate_inv leave m"
  shows "distinct (mon_pendingCh m)"
    and "cid \<in> set (mon_pendingCh m) \<Longrightarrow> mget (mon_chans m) cid = Some (make_chan (Suc 0))"
    and "cid \<in> set (mon_pendingCh m) \<Longrightarrow> map_option ck_Status (mget (mon_checkpoints m) cid) = Some StatusPending"
    and "mget (mon_checkpoints m) cid = Some cp \<Longrightarrow> ck_CheckpointID cp = cid"
    and "mget (mon_checkpoints m) cid = Some cp \<Longrightarrow> ck_Status cp = StatusPending \<longleftrightarrow> ck_DecidedAt cp = None"
    and "mget (mon_chans m) cid = Some ch \<Longrightarrow> st \<in> set (ch_buf ch) \<Longrightarrow> st \<noteq> StatusPending"
    and "mget (mon_chans m) cid = Some ch \<Longrightarrow> st \<in> set (ch_buf ch) \<Longrightarrow>
           map_option ck_Status (mget (mon_checkpoints m) cid) = Some st \<or> leave \<and> st = StatusRejected"
    and "mget (mon_checkpoints m) cid = None \<Longrightarrow> mget (mon_chans m) cid = None"
  using assms unfolding gate_inv_def by blast+

lemma send_fresh: "send_locked st (make_chan (Suc 0)) = Some ((make_chan (Suc 0))\<lparr>ch_buf := [st]\<rparr>)"
  by (simp add: send_locked_def)

lemma deliver_pending:
  "cid \<in> set (mon_pendingCh m) \<Longrightarrow> mget (mon_chans m) cid = Some (make_chan (Suc 0)) \<Longrightarrow>
     deliver_decision cid st m = Some (m\<lparr>mon_chans := mput cid ((make_chan (Suc 0))\<lparr>ch_buf := [st]\<rparr>) (mon_chans m),
       mon_pendingCh := removeAll cid (mon_pendingCh m)\<rparr>)"
  by (simp add: deliver_decision_def send_fresh)

lemma deliver_absent: "cid \<notin> set (mon_pendingCh m) \<Longrightarrow> deliver_decision cid st m = Some m"
  by (simp add: deliver_decision_def)

text \<open>Recording a final status and handing it over keeps the invariant.\<close>

lemma settle_inv:
  assumes inv: "gate_inv leave m" and cp: "mget (mon_checkpoints m) cid = Some cp"
    and cp': "ck_CheckpointID cp' = cid" "ck_Status cp' = st" "ck_DecidedAt cp' = Some now" and st: "st \<noteq> StatusPending"
    and pend: "ck_Status cp = StatusPending"
  shows "\<exists>m2. deliver_decision cid st (m\<lparr>mon_checkpoints := mput cid cp' (mon_checkpoints m)\<rparr>) = Some m2
    \<and> gate_inv leave m2 \<and> mon_checkpoints m2 = mput cid cp' (mon_checkpoints m)
    \<and> cid \<notin> set (mon_pendingCh m2) \<and> mon_cfg m2 = mon_cfg m \<and> mon_mode m2 = mon_mode m
    \<and> (\<forall>c. c \<noteq> cid \<longrightarrow> mget (mon_chans m2) c = mget (mon_chans m) c)
    \<and> mget (mon_chans m2) cid = (if cid \<in> set (mon_pendingCh m) then Some ((make_chan (Suc 0))\<lparr>ch_buf := [st]\<rparr>)
         else mget (mon_chans m) cid)"
proof (cases "cid \<in> set (mon_pendingCh m)")
  case True
  let ?m1 = "m\<lparr>mon_checkpoints := mput cid cp' (mon_checkpoints m)\<rparr>"
  let ?m2 = "?m1\<lparr>mon_chans := mput cid ((make_chan (Suc 0))\<lparr>ch_buf := [st]\<rparr>) (mon_chans m),
       mon_pendingCh := removeAll cid (mon_pendingCh m)\<rparr>"
  have "deliver_decision cid st ?m1 = Some ?m2"
    using deliver_pending [of cid ?m1 st] gate_invD(2) [OF inv True] True by simp
  moreover have "gate_inv leave ?m2"
    by (rule gate_invI) (use gate_invD [OF inv] cp' st in \<open>auto simp: distinct_removeAll split: if_splits\<close>)
  ultimately show ?thesis using True by simp
next
  case False
  let ?m1 = "m\<lparr>mon_checkpoints := mput cid cp' (mon_checkpoints m)\<rparr>"
  have "leave \<and> s = StatusRejected" if "mget (mon_chans m) cid = Some ch" "s \<in> set (ch_buf ch)" for ch s
    using gate_invD(6,7) [OF inv that] cp pend by auto
  then have "gate_inv leave ?m1"
    by (intro gate_invI) (use gate_invD [OF inv] cp cp' st False in \<open>auto split: if_splits\<close>)
  then show ?thesis using deliver_absent [of cid ?m1 st] False by simp
qed

lemma Decide_inv:
  assumes "gate_inv leave m"
  shows "\<exists>r. Decide now cid by' dec' nts m = Some r \<and> gate_inv leave (fst (snd r))"
proof (cases "mget (mon_checkpoints m) cid")
  case None
  then show ?thesis using assms by (simp add: Decide_def)
next
  case (Some cp)
  show ?thesis
  proof (cases "ck_Status cp = StatusPending")
    case True
    have "decision_status dec' \<noteq> StatusPending" by (simp add: decision_status_def)
    from settle_inv [OF assms Some _ _ _ this True, of "cp\<lparr>ck_DecidedAt := Some now, ck_DecidedBy := by',
        ck_Notes := nts, ck_Status := decision_status dec'\<rparr>" now] gate_invD(4) [OF assms Some]
    show ?thesis using Some True by (auto simp: Decide_def Let_def)
  qed (use assms Some in \<open>simp add: Decide_def\<close>)
qed

lemma enforceTimeout_inv:
  assumes "gate_inv leave m"
  shows "\<exists>r. enforceTimeout now cid m = Some r \<and> gate_inv leave (fst r)"
proof (cases "mget (mon_checkpoints m) cid")
  case None
  then show ?thesis using assms by (simp add: enforceTimeout_def)
next
  case (Some cp)
  show ?thesis
  proof (cases "ck_Status cp = StatusPending")
    case True
    from settle_inv [OF assms Some _ _ _ _ True, of "cp\<lparr>ck_DecidedAt := Some now, ck_Status := StatusTimedOut\<rparr>"
        StatusTimedOut now] gate_invD(4) [OF assms Some]
    show ?thesis using Some True by (auto simp: enforceTimeout_def Let_def)
  qed (use assms Some in \<open>simp add: enforceTimeout_def\<close>)
qed

lemma release_all_result:
  assumes "distinct ids" and "\<forall>cid \<in> set ids. mget (mon_chans m) cid = Some (make_chan (Suc 0))"
  shows "\<exists>m'. release_all ids m = Some m' \<and> mon_checkpoints m' = mon_checkpoints m \<and> mon_mode m' = mon_mode m
    \<and> mon_cfg m' = mon_cfg m \<and> mon_pendingCh m' = filter (\<lambda>c. c \<notin> set ids) (mon_pendingCh m)
    \<and> (\<forall>cid. mget (mon_chans m') cid =
         (if cid \<in> set ids then Some ((make_chan (Suc 0))\<lparr>ch_buf := [StatusRejected]\<rparr>) else mget (mon_chans m) cid))"
  using assms
proof (induction ids arbitrary: m)
  case Nil
  then show ?case by simp
next
  case (Cons i ids)
  let ?m1 = "m\<lparr>mon_chans := mput i ((make_chan (Suc 0))\<lparr>ch_buf := [StatusRejected]\<rparr>) (mon_chans m),
               mon_pendingCh := removeAll i (mon_pendingCh m)\<rparr>"
  have "\<forall>cid \<in> set ids. mget (mon_chans ?m1) cid = Some (make_chan (Suc 0))" using Cons.prems by auto
  with Cons.prems(1) obtain m' where m': "release_all ids ?m1 = Some m'"
    "mon_checkpoints m' = mon_checkpoints m" "mon_mode m' = mon_mode m" "mon_cfg m' = mon_cfg m"
    "mon_pendingCh m' = filter (\<lambda>c. c \<notin> set ids) (removeAll i (mon_pendingCh m))"
    "\<forall>cid. mget (mon_chans m') cid = (if cid \<in> set ids then Some ((make_chan (Suc 0))\<lparr>ch_buf := [StatusRejected]\<rparr>)
       else mget (mon_chans ?m1) cid)"
    using Cons.IH [of ?m1] by auto
  have "release_all (i # ids) m = Some m'" using m'(1) Cons.prems(2) by (simp add: send_fresh)
  moreover have "mon_pendingCh m' = filter (\<lambda>c. c \<notin> set (i # ids)) (mon_pendingCh m)"
    unfolding m'(5) removeAll_filter_not_eq by (auto intro!: filter_cong)
  ultimately show ?case using m'(2-4,6) by auto
qed

lemma SetMode_inv:
  assumes "gate_inv leave m" and "leave \<or> mode = ModeGate \<or> mon_mode m \<noteq> ModeGate"
    and "\<forall>xs. mset (ord xs) = mset xs"
  shows "\<exists>m'. SetMode ord mode m = Some m' \<and> gate_inv leave m' \<and> mon_checkpoints m' = mon_checkpoints m
    \<and> mon_cfg m' = mon_cfg m"
proof (cases "mon_mode m = ModeGate \<and> mode \<noteq> ModeGate")
  case False
  have "gate_inv leave (m\<lparr>mon_mode := mode\<rparr>)" using assms(1) by (simp add: gate_inv_def)
  moreover have "SetMode ord mode m = Some (m\<lparr>mon_mode := mode\<rparr>)" using False by (auto simp: SetMode_def Let_def)
  ultimately show ?thesis by simp
next
  case True
  let ?ids = "ord (mon_pendingCh m)"
  have ids: "set ?ids = set (mon_pendingCh m)" "distinct ?ids"
    using assms(3) gate_invD(1) [OF assms(1)] by (metis set_mset_mset, metis distinct_count_atmost_1 set_mset_mset)
  from release_all_result [OF ids(2), of "m\<lparr>mon_mode := mode\<rparr>"] gate_invD(2) [OF assms(1)] ids(1)
  obtain m' where m': "release_all ?ids (m\<lparr>mon_mode := mode\<rparr>) = Some m'"
      "mon_checkpoints m' = mon_checkpoints m" "mon_cfg m' = mon_cfg m" "mon_pendingCh m' = []"
      "\<forall>cid. mget (mon_chans m') cid = (if cid \<in> set (mon_pendingCh m)
         then Some ((make_chan (Suc 0))\<lparr>ch_buf := [StatusRejected]\<rparr>) else mget (mon_chans m) cid)"
    by (auto simp: filter_empty_conv)
  have "gate_inv leave m'"
  proof (rule gate_invI)
    fix cid ch st
    assume ch: "mget (mon_chans m') cid = Some ch" "st \<in> set (ch_buf ch)"
    have "leave" using True assms(2) by simp
    show "st \<noteq> StatusPending"
      using ch m'(5) gate_invD(6) [OF assms(1), of cid ch st] by (auto split: if_splits)
    show "map_option ck_Status (mget (mon_checkpoints m') cid) = Some st \<or> leave \<and> st = StatusRejected"
      using ch m'(2,5) \<open>leave\<close> gate_invD(7) [OF assms(1), of cid ch st] by (auto split: if_splits)
  next
    fix cid assume none: "mget (mon_checkpoints m') cid = None"
    then have "cid \<notin> set (mon_pendingCh m)" using gate_invD(3) [OF assms(1), of cid] m'(2) by auto
    then show "mget (mon_chans m') cid = None" using none m'(2,5) gate_invD(8) [OF assms(1), of cid] by simp
  qed (use m'(2,4) gate_invD(4,5) [OF assms(1)] in auto)
  then show ?thesis using True m'(1-3) by (simp add: SetMode_def Let_def)
qed

lemma take_decision_inv:
  assumes "gate_inv leave m"
  shows "gate_inv leave (take_decision cid m)"
proof (cases "mget (mon_chans m) cid")
  case None
  then show ?thesis using assms by (simp add: take_decision_def)
next
  case (Some ch)
  have sub: "st \<in> set (ch_buf ch)" if "st \<in> set (ch_buf (snd (chan_recv ch)))" for st
    using that by (cases "ch_buf ch") (auto simp: chan_recv_def)
  have fresh: "snd (chan_recv (make_chan (Suc 0))) = (make_chan (Suc 0) :: CheckpointStatus chan)"
    by (simp add: chan_recv_def)
  show ?thesis
    by (rule gate_invI)
      (use gate_invD [OF assms] Some sub fresh in \<open>auto simp: take_decision_def split: if_splits\<close>)
qed

lemma CreateCheckpoint_inv:
  assumes "gate_inv leave m" and "mget (mon_checkpoints m) cid = None"
  shows "gate_inv leave (fst (snd (CreateCheckpoint now now2 cid t tn st data m)))"
proof (cases "mon_mode m = ModeGate")
  case True
  have "cid \<notin> set (mon_pendingCh m)" using gate_invD(3) [OF assms(1), of cid] assms(2) by auto
  then show ?thesis
    by (intro gate_invI)
      (use gate_invD [OF assms(1)] assms(2) True in \<open>auto simp: CreateCheckpoint_def Let_def distinct_insert split: if_splits\<close>)
qed (use assms in \<open>simp add: CreateCheckpoint_def\<close>)

lemma gate_step_inv:
  assumes "gate_step leave m r" and "gate_inv leave m"
  shows "\<exists>m'. r = Some m' \<and> gate_inv leave m'"
  using assms(1)
proof cases
  case (create cid now now2 t tn st data)
  then show ?thesis using CreateCheckpoint_inv [OF assms(2)] by simp
next
  case (decide now cid by' dec' nts)
  then show ?thesis using Decide_inv [OF assms(2), of now cid by' dec' nts] by auto
next
  case (timeout cid cp now)
  then show ?thesis using enforceTimeout_inv [OF assms(2), of now cid] by auto
next
  case (setmode mode ord)
  then show ?thesis using SetMode_inv [OF assms(2)] by blast
next
  case (receive cid)
  then show ?thesis using take_decision_inv [OF assms(2)] by simp
qed

interpretation gate_sys: safe_system gate_init "gate_step leave" "gate_inv leave" for leave
proof unfold_locales
  show "gate_inv leave m" if "gate_init m" for m
    using that by (auto simp: gate_inv_def Monitor_New_def Let_def)
qed (blast intro: gate_step_inv)

lemmas gate_reach_inv = gate_sys.reach_inv

lemma gate_inv_New: "gate_inv leave (Monitor_New cfg)"
  by (rule gate_sys.init_inv) blast

lemmas gate_next = reachable.step_on [where step = "gate_step leave"] for leave

text \<open>Runs: any number of steps from a state.\<close>

abbreviation gate_run :: "bool \<Rightarrow> Monitor \<Rightarrow> Monitor \<Rightarrow> bool" where
  "gate_run leave \<equiv> runs (gate_step leave)"

lemmas gate_run_inv = gate_sys.run_inv

lemma Decide_other:
  assumes "gate_inv leave m" and "Decide now cid by' dec' nts m = Some r"
    and "mget (mon_checkpoints m) c = Some cp" and "ck_Status cp \<noteq> StatusPending"
  shows "mget (mon_checkpoints (fst (snd r))) c = Some cp"
proof (cases "mget (mon_checkpoints m) cid")
  case None
  then show ?thesis using assms by (auto simp: Decide_def)
next
  case (Some cq)
  show ?thesis
  proof (cases "ck_Status cq = StatusPending")
    case True
    have "decision_status dec' \<noteq> StatusPending" by (simp add: decision_status_def)
    from settle_inv [OF assms(1) Some _ _ _ this True, of "cq\<lparr>ck_DecidedAt := Some now, ck_DecidedBy := by',
        ck_Notes := nts, ck_Status := decision_status dec'\<rparr>" now] gate_invD(4) [OF assms(1) Some]
    show ?thesis using Some True assms(2-4) by (auto simp: Decide_def Let_def)
  qed (use assms Some in \<open>auto simp: Decide_def\<close>)
qed

lemma enforceTimeout_other:
  assumes "gate_inv leave m" and "enforceTimeout now cid m = Some r"
    and "mget (mon_checkpoints m) c = Some cp" and "ck_Status cp \<noteq> StatusPending"
  shows "mget (mon_checkpoints (fst r)) c = Some cp"
proof (cases "mget (mon_checkpoints m) cid")
  case None
  then show ?thesis using assms by (auto simp: enforceTimeout_def)
next
  case (Some cq)
  show ?thesis
  proof (cases "ck_Status cq = StatusPending")
    case True
    from settle_inv [OF assms(1) Some _ _ _ _ True, of "cq\<lparr>ck_DecidedAt := Some now, ck_Status := StatusTimedOut\<rparr>"
        StatusTimedOut now] gate_invD(4) [OF assms(1) Some]
    show ?thesis using Some True assms(2-4) by (auto simp: enforceTimeout_def Let_def)
  qed (use assms Some in \<open>auto simp: enforceTimeout_def\<close>)
qed

lemma gate_step_keeps_decided:
  assumes "gate_step leave m (Some m')" and inv: "gate_inv leave m"
    and "mget (mon_checkpoints m) c = Some cp" and "ck_Status cp \<noteq> StatusPending"
  shows "mget (mon_checkpoints m') c = Some cp"
  using assms(1)
proof cases
  case (create cid now now2 t tn st data)
  then show ?thesis using assms(3) by (auto simp: CreateCheckpoint_def Let_def)
next
  case (decide now cid by' dec' nts)
  then obtain r where "Decide now cid by' dec' nts m = Some r" "m' = fst (snd r)"
    by (cases "Decide now cid by' dec' nts m") auto
  then show ?thesis using Decide_other [OF inv _ assms(3,4)] by blast
next
  case (timeout cid cq now)
  then obtain r where "enforceTimeout now cid m = Some r" "m' = fst r"
    by (cases "enforceTimeout now cid m") auto
  then show ?thesis using enforceTimeout_other [OF inv _ assms(3,4)] by blast
next
  case (setmode mode ord)
  then show ?thesis using SetMode_inv [OF inv setmode(2,3)] assms(3) by auto
next
  case (receive cid)
  then show ?thesis using assms(3) by (simp add: take_decision_def split: option.split)
qed

subsection \<open>Sessions\<close>

text \<open>Observing a list of events, each with the identifiers drawn for it.\<close>

type_synonym observation = "string \<times> string \<times> BastionEvent"

definition observe_all :: "string \<Rightarrow> observation list \<Rightarrow> Monitor \<Rightarrow> Monitor" where
  "observe_all mode obs m = fold (\<lambda>(sid, stid, ev) m. fst (ObserveEvent mode sid stid ev m)) obs m"

definition of_trace :: "string \<Rightarrow> observation list \<Rightarrow> observation list" where
  "of_trace t obs = filter (\<lambda>(sid, stid, ev). ev_TraceID ev = t) obs"

text \<open>The session of a trace, from the observations of that trace alone.\<close>

definition session_spec :: "string \<Rightarrow> string \<Rightarrow> BastionEvent \<Rightarrow> observation list \<Rightarrow> Session" where
  "session_spec sid mode ev0 obs = fold (\<lambda>(_, stid, ev). add_step stid ev) obs (new_session sid mode ev0)"

lemma session_spec_snoc:
  "session_spec sid mode ev0 (obs @ [(i, stid, ev)]) = add_step stid ev (session_spec sid mode ev0 obs)"
  by (simp add: session_spec_def)

lemma session_spec_fields:
  "ss_SessionID (session_spec sid mode ev0 obs) = sid
   \<and> ss_TraceID (session_spec sid mode ev0 obs) = ev_TraceID ev0
   \<and> ss_TenantID (session_spec sid mode ev0 obs) = ev_TenantID ev0
   \<and> ss_UserID (session_spec sid mode ev0 obs) = ev_UserID ev0
   \<and> ss_Steps (session_spec sid mode ev0 obs) = map (\<lambda>(i, _, stid, ev). step_of stid i ev) (enumerate 0 obs)
   \<and> (ss_Status (session_spec sid mode ev0 obs) = ''completed'' \<longleftrightarrow> (\<exists>(i, stid, ev) \<in> set obs. terminal_event ev))
   \<and> (ss_Status (session_spec sid mode ev0 obs) \<in> {''active'', ''completed''})"
proof (induction obs rule: rev_induct)
  case Nil
  show ?case by (simp add: session_spec_def new_session_def)
next
  case (snoc x obs)
  obtain i stid ev where x: "x = (i, stid, ev)" by (metis prod_cases3)
  show ?case
    using snoc by (auto simp: x session_spec_snoc add_step_def enumerate_append_eq)
qed

definition follows_at :: "string \<Rightarrow> observation list \<Rightarrow> Monitor \<Rightarrow> string \<Rightarrow> bool" where
  "follows_at mode obs m t \<longleftrightarrow>
     (case of_trace t obs of
        [] \<Rightarrow> mget (mon_byTrace m) t = None
      | (sid, stid, ev) # rest \<Rightarrow>
          \<exists>p < length (mon_heap m). mget (mon_byTrace m) t = Some p \<and> mget (mon_sessions m) sid = Some p
            \<and> mon_heap m ! p = session_spec sid mode ev ((sid, stid, ev) # rest))"

definition sessions_follow :: "string \<Rightarrow> observation list \<Rightarrow> Monitor \<Rightarrow> bool" where
  "sessions_follow mode obs m \<longleftrightarrow>
     (\<forall>t. follows_at mode obs m t) \<and> dom (mget (mon_sessions m)) \<subseteq> fst ` set obs"

lemma sessions_follow_each: "sessions_follow mode obs m \<Longrightarrow> follows_at mode obs m t"
  by (simp add: sessions_follow_def)

lemma sessions_followI:
  assumes "follows_at mode (obs @ [o']) m k" and "\<And>t. k \<noteq> t \<Longrightarrow> follows_at mode (obs @ [o']) m t"
    and "dom (mget (mon_sessions m)) \<subseteq> fst ` set (obs @ [o'])"
  shows "sessions_follow mode (obs @ [o']) m"
  using assms unfolding sessions_follow_def by metis

lemma of_trace_snoc:
  "of_trace t (obs @ [(sid, stid, ev)]) = of_trace t obs @ (if ev_TraceID ev = t then [(sid, stid, ev)] else [])"
  by (simp add: of_trace_def)

lemma sessions_follow_at:
  assumes "sessions_follow mode obs m" and "of_trace t obs = (sid, stid, ev) # rest"
  obtains p where "p < length (mon_heap m)" and "mget (mon_byTrace m) t = Some p"
    and "mget (mon_sessions m) sid = Some p" and "mon_heap m ! p = session_spec sid mode ev ((sid, stid, ev) # rest)"
  using assms by (force simp: sessions_follow_def follows_at_def dest: spec [of _ t])

lemma sessions_follow_none:
  "sessions_follow mode obs m \<Longrightarrow> of_trace t obs = [] \<Longrightarrow> mget (mon_byTrace m) t = None"
  unfolding sessions_follow_def follows_at_def by (force dest: spec [of _ t])

lemma of_trace_id: "of_trace t obs = (sid, stid, ev) # rest \<Longrightarrow> ev_TraceID ev = t \<and> sid \<in> fst ` set obs"
proof -
  assume h: "of_trace t obs = (sid, stid, ev) # rest"
  have "(sid, stid, ev) \<in> set (of_trace t obs)" unfolding h by simp
  then show "ev_TraceID ev = t \<and> sid \<in> fst ` set obs" by (force simp: of_trace_def)
qed


text \<open>What one observation leaves alone still follows; then the trace it opens or extends.\<close>

lemma follows_at_other:
  assumes f: "follows_at mode obs m t" and other: "ev_TraceID ev \<noteq> t"
    and "mget (mon_byTrace m') t = mget (mon_byTrace m) t"
    and ses: "\<And>a. a \<in> fst ` set obs \<Longrightarrow> mget (mon_sessions m') a = mget (mon_sessions m) a"
    and heap: "\<And>p. p < length (mon_heap m) \<Longrightarrow> ss_TraceID (mon_heap m ! p) = t \<Longrightarrow>
      p < length (mon_heap m') \<and> mon_heap m' ! p = mon_heap m ! p"
  shows "follows_at mode (obs @ [(sid, stid, ev)]) m' t"
proof (cases "of_trace t obs")
  case Nil
  then show ?thesis using assms by (simp add: follows_at_def of_trace_snoc)
next
  case (Cons x rest)
  obtain a b c where x: "x = (a, b, c)" by (metis prod_cases3)
  have tr: "of_trace t obs = (a, b, c) # rest" using Cons x by simp
  obtain p where p: "p < length (mon_heap m)" "mget (mon_byTrace m) t = Some p" "mget (mon_sessions m) a = Some p"
      "mon_heap m ! p = session_spec a mode c ((a, b, c) # rest)"
    using f tr by (auto simp: follows_at_def)
  have "ss_TraceID (mon_heap m ! p) = t" using p(4) session_spec_fields of_trace_id [OF tr] by simp
  then have "\<exists>p < length (mon_heap m'). mget (mon_byTrace m') t = Some p \<and> mget (mon_sessions m') a = Some p
      \<and> mon_heap m' ! p = session_spec a mode c ((a, b, c) # rest)"
    using p heap [OF p(1)] ses [of a] assms(3) of_trace_id [OF tr] by (intro exI [of _ p]) simp
  then show ?thesis using tr other by (simp add: follows_at_def of_trace_snoc)
qed

lemma observe_opens:
  assumes f: "sessions_follow mode obs m" and md: "mode \<noteq> ModeOff" and sid: "sid \<notin> fst ` set obs"
    and new: "of_trace (ev_TraceID ev) obs = []"
  shows "sessions_follow mode (obs @ [(sid, stid, ev)]) (fst (ObserveEvent mode sid stid ev m))"
proof -
  let ?p = "length (mon_heap m)" and ?s = "add_step stid ev (new_session sid mode ev)"
  let ?m' = "m\<lparr>mon_heap := mon_heap m @ [?s], mon_sessions := mput sid ?p (mon_sessions m),
               mon_byTrace := mput (ev_TraceID ev) ?p (mon_byTrace m)\<rparr>"
  have m': "fst (ObserveEvent mode sid stid ev m) = ?m'"
    using sessions_follow_none [OF f new] md
    by (simp add: ObserveEvent_def session_for_def Let_def nth_append list_update_append)
  have "session_spec sid mode ev [(sid, stid, ev)] = ?s" by (simp add: session_spec_def)
  then have "follows_at mode (obs @ [(sid, stid, ev)]) ?m' (ev_TraceID ev)"
    using new by (simp add: follows_at_def of_trace_snoc)
  moreover have "follows_at mode (obs @ [(sid, stid, ev)]) ?m' t" if "ev_TraceID ev \<noteq> t" for t
  proof (rule follows_at_other [OF sessions_follow_each [OF f] that])
    show "mget (mon_byTrace ?m') t = mget (mon_byTrace m) t" using that by simp
    show "mget (mon_sessions ?m') a = mget (mon_sessions m) a" if "a \<in> fst ` set obs" for a
      using that sid by auto
    show "p < length (mon_heap ?m') \<and> mon_heap ?m' ! p = mon_heap m ! p" if "p < length (mon_heap m)" for p
      using that by (simp add: nth_append)
  qed
  moreover have "dom (mget (mon_sessions ?m')) \<subseteq> fst ` set (obs @ [(sid, stid, ev)])"
    using f by (fastforce simp: sessions_follow_def dom_update split: if_splits)
  ultimately show ?thesis unfolding m' by (rule sessions_followI)
qed

lemma observe_extends:
  assumes f: "sessions_follow mode obs m" and md: "mode \<noteq> ModeOff"
    and tr: "of_trace (ev_TraceID ev) obs = (a, b, c) # rest"
  shows "sessions_follow mode (obs @ [(sid, stid, ev)]) (fst (ObserveEvent mode sid stid ev m))"
proof -
  from sessions_follow_at [OF f tr] obtain p where p: "p < length (mon_heap m)"
    "mget (mon_byTrace m) (ev_TraceID ev) = Some p" "mget (mon_sessions m) a = Some p"
    "mon_heap m ! p = session_spec a mode c ((a, b, c) # rest)" .
  let ?m' = "m\<lparr>mon_heap := (mon_heap m)[p := add_step stid ev (mon_heap m ! p)]\<rparr>"
  have m': "fst (ObserveEvent mode sid stid ev m) = ?m'"
    using p(2) md by (simp add: ObserveEvent_def session_for_def Let_def)
  have "add_step stid ev (mon_heap m ! p) = session_spec a mode c ((a, b, c) # rest @ [(sid, stid, ev)])"
    using session_spec_snoc [of a mode c "(a, b, c) # rest" sid stid ev] by (simp add: p(4))
  then have "\<exists>q < length (mon_heap ?m'). mget (mon_byTrace ?m') (ev_TraceID ev) = Some q \<and> mget (mon_sessions ?m') a = Some q
        \<and> mon_heap ?m' ! q = session_spec a mode c ((a, b, c) # rest @ [(sid, stid, ev)])"
    using p(1-3) by (intro exI [of _ p]) simp
  then have "follows_at mode (obs @ [(sid, stid, ev)]) ?m' (ev_TraceID ev)"
    using tr by (simp add: follows_at_def of_trace_snoc)
  moreover have "follows_at mode (obs @ [(sid, stid, ev)]) ?m' t" if "ev_TraceID ev \<noteq> t" for t
  proof (rule follows_at_other [OF sessions_follow_each [OF f] that])
    have "ss_TraceID (mon_heap m ! p) = ev_TraceID ev"
      using p(4) session_spec_fields of_trace_id [OF tr] by simp
    then show "q < length (mon_heap ?m') \<and> mon_heap ?m' ! q = mon_heap m ! q"
      if "q < length (mon_heap m)" "ss_TraceID (mon_heap m ! q) = t" for q
      using that \<open>ev_TraceID ev \<noteq> t\<close> by (cases "q = p") simp_all
  qed simp_all
  moreover have "dom (mget (mon_sessions ?m')) \<subseteq> fst ` set (obs @ [(sid, stid, ev)])"
    using f by (auto simp: sessions_follow_def)
  ultimately show ?thesis unfolding m' by (rule sessions_followI)
qed

lemma observe_follows:
  assumes "sessions_follow mode obs m" and "mode \<noteq> ModeOff" and "sid \<notin> fst ` set obs"
  shows "sessions_follow mode (obs @ [(sid, stid, ev)]) (fst (ObserveEvent mode sid stid ev m))"
proof (cases "of_trace (ev_TraceID ev) obs")
  case (Cons x rest)
  obtain a b c where "x = (a, b, c)" by (metis prod_cases3)
  then show ?thesis using observe_extends [OF assms(1,2)] Cons by simp
qed (rule observe_opens [OF assms])

lemma observe_all_follows:
  "mode \<noteq> ModeOff \<Longrightarrow> distinct (map fst obs) \<Longrightarrow> sessions_follow mode obs (observe_all mode obs (Monitor_New cfg))"
proof (induction obs rule: rev_induct)
  case Nil
  show ?case by (simp add: sessions_follow_def follows_at_def observe_all_def of_trace_def Monitor_New_def Let_def)
next
  case (snoc x obs)
  obtain sid stid ev where x: "x = (sid, stid, ev)" by (metis prod_cases3)
  have "sid \<notin> fst ` set obs" using snoc.prems(2) by (auto simp: x)
  from observe_follows [OF _ snoc.prems(1) this, of "observe_all mode obs (Monitor_New cfg)" stid ev] snoc
  show ?case by (simp add: x observe_all_def)
qed

subsection \<open>Properties\<close>

text \<open>
  C5: no step of gate mode ever blocks while holding the manager's mutex. Creating a checkpoint,
  deciding it, its timeout, switching the mode and receiving a decision can follow each other in
  any order: every send finds room in its channel.
\<close>

theorem gate_never_blocks:
  assumes "gate_reach leave m" and "gate_step leave m r"
  shows "\<exists>m'. r = Some m'"
  using gate_step_inv [OF assms(2) gate_reach_inv [OF assms(1)]] by blast

text \<open>
  C19: a decision is final. Once a checkpoint is approved, rejected or timed out, no later
  operation changes it in any way, in whatever order decisions, timeouts and mode changes come.
\<close>

theorem decided_once:
  assumes "gate_reach leave m" and "gate_run leave m m'"
    and "GetCheckpoint cid m = Some cp" and "ck_Status cp \<noteq> StatusPending"
  shows "GetCheckpoint cid m' = Some cp"
  using assms(2,1,3,4)
proof (induction rule: reachable.induct)
  case (step_on m' m'')
  have "gate_inv leave m'" by (rule gate_run_inv [OF step_on.hyps(1) gate_reach_inv [OF step_on.prems(1)]])
  from gate_step_keeps_decided [OF step_on.hyps(2) this _ step_on.prems(3)] step_on.IH [OF step_on.prems]
  show ?case by (simp add: GetCheckpoint_def)
qed simp

text \<open>
  C20: a waiting stage only proceeds with an approval on record. If what waits in the channel of a
  checkpoint makes \<open>WaitForDecision\<close> return true, the checkpoint is recorded as approved, or as
  timed out with automatic approval configured. Whatever else waits there is the recorded status,
  or the rejection that leaving gate mode sends.
\<close>

theorem proceed_only_when_approved:
  assumes "gate_reach leave m" and "mget (mon_chans m) cid = Some ch" and "fst (chan_recv ch) = Received st"
  shows "\<exists>cp. GetCheckpoint cid m = Some cp
    \<and> (ck_Status cp = st \<or> leave \<and> st = StatusRejected)
    \<and> (fst (wait_result cfg st) \<longrightarrow> ck_Status cp = StatusApproved
         \<or> ck_Status cp = StatusTimedOut \<and> mc_AutoApproveOnTimeout cfg)"
proof -
  have st: "st \<in> set (ch_buf ch)" using assms(3) by (auto simp: chan_recv_def split: list.splits if_splits)
  have inv: "gate_inv leave m" by (rule gate_reach_inv [OF assms(1)])
  from gate_invD(8) [OF inv, of cid] assms(2) obtain cp where cp: "mget (mon_checkpoints m) cid = Some cp"
    by (cases "mget (mon_checkpoints m) cid") auto
  have "ck_Status cp = st \<or> leave \<and> st = StatusRejected"
    using gate_invD(7) [OF inv assms(2) st] cp by simp
  then show ?thesis
    using cp gate_invD(6) [OF inv assms(2) st] by (cases st) (auto simp: GetCheckpoint_def wait_result_def split: if_splits)
qed

text \<open>
  Every waiter is released. For a checkpoint that is still waited on, the timeout step is
  always possible, leaves exactly one value, the timeout, for the waiter and records it; a caller
  that begins to wait only then is told that the checkpoint does not exist.
\<close>

theorem timeout_releases_waiter:
  assumes "gate_reach leave m" and "wait_begin cid m = None"
  shows "\<exists>m' out cp. enforceTimeout now cid m = Some (m', out) \<and> GetCheckpoint cid m' = Some cp
    \<and> ck_Status cp = StatusTimedOut \<and> ck_DecidedAt cp = Some now
    \<and> map_option ch_buf (mget (mon_chans m') cid) = Some [StatusTimedOut]
    \<and> wait_begin cid m' = Some (False, ''checkpoint not found'')"
proof -
  have inv: "gate_inv leave m" by (rule gate_reach_inv [OF assms(1)])
  have pend: "cid \<in> set (mon_pendingCh m)" using assms(2) by (simp add: wait_begin_def split: if_splits)
  from gate_invD(3) [OF inv pend] obtain cp where cp: "mget (mon_checkpoints m) cid = Some cp" "ck_Status cp = StatusPending"
    by auto
  from settle_inv [OF inv cp(1) _ _ _ _ cp(2), of "cp\<lparr>ck_DecidedAt := Some now, ck_Status := StatusTimedOut\<rparr>"
      StatusTimedOut now] gate_invD(4) [OF inv cp(1)] pend
  show ?thesis using cp by (auto simp: enforceTimeout_def Let_def GetCheckpoint_def wait_begin_def)
qed

text \<open>
  C35: switching the mode away from gate and the record of a checkpoint. The waiter of a pending
  checkpoint is handed a rejection, but the checkpoint stays pending: an operator can still
  approve it afterwards, and the approval is recorded although the waiter was rejected.
\<close>

theorem leaving_gate_splits_record:
  assumes "gate_reach True m" and "mon_mode m = ModeGate" and "mode \<noteq> ModeGate"
    and "\<forall>xs. mset (ord xs) = mset xs" and "wait_begin cid m = None"
  shows "\<exists>m1 m2 cp out. SetMode ord mode m = Some m1
    \<and> map_option ch_buf (mget (mon_chans m1) cid) = Some [StatusRejected]
    \<and> Decide now cid who ''approve'' nts m1 = Some (Some cp, m2, out)
    \<and> GetCheckpoint cid m2 = Some cp \<and> ck_Status cp = StatusApproved
    \<and> map_option ch_buf (mget (mon_chans m2) cid) = Some [StatusRejected]"
proof -
  have inv: "gate_inv True m" by (rule gate_reach_inv [OF assms(1)])
  have pend: "cid \<in> set (mon_pendingCh m)" using assms(5) by (simp add: wait_begin_def split: if_splits)
  have ids: "set (ord (mon_pendingCh m)) = set (mon_pendingCh m)" "distinct (ord (mon_pendingCh m))"
    using assms(4) gate_invD(1) [OF inv] by (metis set_mset_mset, metis distinct_count_atmost_1 set_mset_mset)
  from release_all_result [OF ids(2), of "m\<lparr>mon_mode := mode\<rparr>"] gate_invD(2) [OF inv] ids(1)
  obtain m1 where m1: "release_all (ord (mon_pendingCh m)) (m\<lparr>mon_mode := mode\<rparr>) = Some m1"
      "mon_checkpoints m1 = mon_checkpoints m" "mon_pendingCh m1 = []"
      "mget (mon_chans m1) cid = Some ((make_chan (Suc 0))\<lparr>ch_buf := [StatusRejected]\<rparr>)"
    using pend by (auto simp: filter_empty_conv)
  have set: "SetMode ord mode m = Some m1" using m1(1) assms(2,3) by (simp add: SetMode_def Let_def)
  from gate_invD(3) [OF inv pend] obtain cp where cp: "mget (mon_checkpoints m1) cid = Some cp" "ck_Status cp = StatusPending"
    by (auto simp: m1(2))
  show ?thesis using set m1 cp by (simp add: Decide_def Let_def deliver_decision_def decision_status_def GetCheckpoint_def)
qed

text \<open>
  C34: a session is the record of its trace. After any observed events, whatever other traces they
  are interleaved with, the session of a trace carries the identity of the trace's first event and
  one step per event of the trace, in order and numbered from 0; it is completed exactly when one
  of them came from the model or was blocked. A trace without events has no session.
\<close>

theorem session_follows_trace:
  assumes "mode \<noteq> ModeOff" and "distinct (map fst obs)"
    and "of_trace t obs = (sid, stid, ev) # rest"
  shows "\<exists>s. GetSession sid (observe_all mode obs (Monitor_New cfg)) = Some s
    \<and> ss_TraceID s = t \<and> ss_TenantID s = ev_TenantID ev \<and> ss_UserID s = ev_UserID ev
    \<and> ss_Steps s = map (\<lambda>(i, _, stid, ev). step_of stid i ev) (enumerate 0 (of_trace t obs))
    \<and> ss_Status s = (if \<exists>(i, stid, ev) \<in> set (of_trace t obs). terminal_event ev then ''completed'' else ''active'')"
proof -
  from sessions_follow_at [OF observe_all_follows [OF assms(1,2)] assms(3)]
  obtain p where p: "p < length (mon_heap (observe_all mode obs (Monitor_New cfg)))"
    "mget (mon_sessions (observe_all mode obs (Monitor_New cfg))) sid = Some p"
    "mon_heap (observe_all mode obs (Monitor_New cfg)) ! p = session_spec sid mode ev ((sid, stid, ev) # rest)" by blast
  have g: "GetSession sid (observe_all mode obs (Monitor_New cfg)) = Some (session_spec sid mode ev ((sid, stid, ev) # rest))"
    using p(2,3) by (simp add: GetSession_def)
  note fld = session_spec_fields [of sid mode ev "of_trace t obs", unfolded assms(3)]
  show ?thesis
    unfolding g assms(3) option.inject by (intro exI conjI) (use fld of_trace_id [OF assms(3)] in \<open>auto split: if_splits\<close>)
qed


definition demo_monitor :: Monitor where
  "demo_monitor = Monitor_New \<lparr>mc_Mode = ModeGate, mc_SessionRetentionHours = 0, mc_CheckpointTimeoutSec = 0,
     mc_AutoApproveOnTimeout = False\<rparr>"

text \<open>A gate with one waiting stage, and after its approval.\<close>

definition demo_waiting :: Monitor where
  "demo_waiting = fst (snd (CreateCheckpoint 5 6 ''c'' ''t'' ''acme'' ''vault'' [] demo_monitor))"

definition demo_approved :: Monitor where
  "demo_approved = the (map_option (\<lambda>r. fst (snd r)) (Decide 8 ''c'' ''op'' ''approve'' [] demo_waiting))"

lemma demo_waiting_reach: "gate_reach leave demo_waiting"
proof -
  have "gate_reach leave demo_monitor" unfolding demo_monitor_def by (rule reachable.begin_here) blast
  then show ?thesis
    unfolding demo_waiting_def
    by (rule gate_next [OF _ gate_step.create]) (simp add: demo_monitor_def Monitor_New_def Let_def)
qed

lemma demo_approved_step: "gate_step leave demo_waiting (Some demo_approved)"
proof -
  have "map_option (\<lambda>r. fst (snd r)) (Decide 8 ''c'' ''op'' ''approve'' [] demo_waiting) = Some demo_approved"
    unfolding demo_approved_def by code_simp
  then show ?thesis by (metis gate_step.decide)
qed

lemma gate_never_blocks_witness:
  "\<exists>m'. map_option (\<lambda>r. fst (snd r)) (Decide 9 ''c'' ''op'' ''reject'' [] demo_waiting) = Some m'"
  by (rule gate_never_blocks [OF demo_waiting_reach gate_step.decide])

lemma decided_once_witness:
  "map_option ck_Status (GetCheckpoint ''c'' (fst (the (enforceTimeout (10 ^ 18) ''c'' demo_approved)))) = Some StatusApproved"
proof -
  let ?cp = "the (GetCheckpoint ''c'' demo_approved)"
  have cp: "GetCheckpoint ''c'' demo_approved = Some ?cp" "ck_Status ?cp = StatusApproved" "ck_TimeoutAt ?cp \<le> 10 ^ 18"
    by code_simp+
  let ?m' = "fst (the (enforceTimeout (10 ^ 18) ''c'' demo_approved))"
  have m': "map_option fst (enforceTimeout (10 ^ 18) ''c'' demo_approved) = Some ?m'" by code_simp
  have "gate_step True demo_approved (map_option fst (enforceTimeout (10 ^ 18) ''c'' demo_approved))"
    by (rule gate_step.timeout [OF cp(1) [unfolded GetCheckpoint_def] cp(3) [unfolded GetCheckpoint_def]])
  then have st: "gate_step True demo_approved (Some ?m')" unfolding m' .
  have run: "gate_run True demo_approved ?m'" by (rule gate_next [OF runs_refl st])
  have reach: "gate_reach True demo_approved" by (rule gate_next [OF demo_waiting_reach demo_approved_step])
  have "GetCheckpoint ''c'' ?m' = Some ?cp" by (rule decided_once [OF reach run cp(1)]) (simp add: cp(2))
  then show ?thesis by (simp add: cp(2))
qed

lemma proceed_only_when_approved_witness:
  "\<exists>cp. GetCheckpoint ''c'' demo_approved = Some cp \<and> ck_Status cp = StatusApproved"
proof -
  let ?ch = "the (mget (mon_chans demo_approved) ''c'')"
  have ch: "mget (mon_chans demo_approved) ''c'' = Some ?ch" "fst (chan_recv ?ch) = Received StatusApproved" by code_simp+
  have reach: "gate_reach False demo_approved" by (rule gate_next [OF demo_waiting_reach demo_approved_step])
  from proceed_only_when_approved [OF reach ch] show ?thesis by blast
qed

lemma timeout_releases_waiter_witness:
  "\<exists>m' out cp. enforceTimeout (10 ^ 18) ''c'' demo_waiting = Some (m', out) \<and> GetCheckpoint ''c'' m' = Some cp
    \<and> ck_Status cp = StatusTimedOut"
proof -
  have "wait_begin ''c'' demo_waiting = None" by code_simp
  from timeout_releases_waiter [OF demo_waiting_reach this, of "10 ^ 18"] show ?thesis by blast
qed

lemma leaving_gate_splits_record_witness:
  "\<exists>m1 m2 cp out. SetMode (\<lambda>xs. xs) ModeOff demo_waiting = Some m1
    \<and> Decide 9 ''c'' ''op'' ''approve'' [] m1 = Some (Some cp, m2, out) \<and> ck_Status cp = StatusApproved
    \<and> map_option ch_buf (mget (mon_chans m2) ''c'') = Some [StatusRejected]"
proof -
  have "mon_mode demo_waiting = ModeGate" "ModeOff \<noteq> ModeGate" "wait_begin ''c'' demo_waiting = None" by code_simp+
  from leaving_gate_splits_record [OF demo_waiting_reach this(1,2) _ this(3), of "\<lambda>xs. xs" 9 "''op''" "[]"]
  show ?thesis by auto
qed

lemma session_follows_trace_witness:
  "\<exists>s. GetSession ''s1'' (observe_all ModeObserve [(''s1'', ''a'', zero_event), (''s2'', ''b'', zero_event)] demo_monitor) = Some s
     \<and> length (ss_Steps s) = 2"
proof -
  let ?obs = "[(''s1'', ''a'', zero_event), (''s2'', ''b'', zero_event)]"
  have h: "ModeObserve \<noteq> ModeOff" "distinct (map fst ?obs)" by code_simp+
  have tr: "of_trace [] ?obs = (''s1'', ''a'', zero_event) # [(''s2'', ''b'', zero_event)]"
    by (simp add: of_trace_def zero_event_def)
  show ?thesis unfolding demo_monitor_def
    using session_follows_trace [OF h tr, of "\<lparr>mc_Mode = ModeGate, mc_SessionRetentionHours = 0,
      mc_CheckpointTimeoutSec = 0, mc_AutoApproveOnTimeout = False\<rparr>"] by (auto simp: tr)
qed

end
