(* ===== verification/Http.thy ===== *)
theory Http
  imports GoTime
begin

text \<open>
  What the REST handlers share (the helpers at the end of internal/api/rest/handlers.go): the
  request as the handlers read it, the reply they write, \<open>intParam\<close> and the decoding of a body.
  A reply is either a JSON body with its status, an error message with its status, or
  a status without body. The JSON reader is a parameter: a body is either its error text or what
  it was decoded to.
\<close>

datatype 'b reply = Reply nat 'b | ErrorReply nat string | NoContent

fun reply_status :: "'b reply \<Rightarrow> nat" where
  "reply_status (Reply n b) = n"
| "reply_status (ErrorReply n m) = n"
| "reply_status NoContent = 204"

definition ok_reply :: "'b reply \<Rightarrow> bool" where
  "ok_reply r \<longleftrightarrow> 200 \<le> reply_status r \<and> reply_status r < 300"

definition writeJSON :: "nat \<Rightarrow> 'b \<Rightarrow> 'b reply" where
  "writeJSON status body = Reply status body"

definition writeError :: "nat \<Rightarrow> string \<Rightarrow> 'b reply" where
  "writeError status msg = ErrorReply status msg"

lemmas http_simps = writeJSON_def writeError_def ok_reply_def

type_synonym 'a decoded = "string + 'a"

definition decodeJSON :: "'a decoded \<Rightarrow> ('a \<Rightarrow> 's \<Rightarrow> 'b reply \<times> 's) \<Rightarrow> 's \<Rightarrow> 'b reply \<times> 's" where
  "decodeJSON body k s =
     (case body of Inl err \<Rightarrow> (writeError 400 (''invalid JSON: '' @ err), s) | Inr req \<Rightarrow> k req s)"

lemma decodeJSON_simps [simp]:
  "decodeJSON (Inl err) k s = (ErrorReply 400 (''invalid JSON: '' @ err), s)"
  "decodeJSON (Inr req) k s = k req s"
  by (simp_all add: decodeJSON_def writeError_def)

record request =
  rq_query :: "(string, string) gomap"
  rq_param :: "string \<Rightarrow> string"
  rq_remote :: string

definition query_get :: "request \<Rightarrow> string \<Rightarrow> string" where
  "query_get r key = mget0 [] (rq_query r) key"

text \<open>\<open>strconv.Atoi\<close>: an optional sign and decimal digits, in the range of a 64-bit integer.\<close>

definition atoi_digits :: "string \<Rightarrow> int option" where
  "atoi_digits s = (if s \<noteq> [] \<and> list_all is_digit s then Some (int (undec s)) else None)"

definition Atoi :: "string \<Rightarrow> int option" where
  "Atoi s =
     (let v = (case s of
          [] \<Rightarrow> None
        | c # r \<Rightarrow> (if c = CHR ''-'' then map_option uminus (atoi_digits r)
                    else if c = CHR ''+'' then atoi_digits r else atoi_digits s))
      in case v of None \<Rightarrow> None | Some n \<Rightarrow> if - (2 ^ 63) \<le> n \<and> n < 2 ^ 63 then Some n else None)"

definition intParam :: "request \<Rightarrow> string \<Rightarrow> int \<Rightarrow> int" where
  "intParam r key def =
     (let s = query_get r key in
      if s = [] then def
      else case Atoi s of None \<Rightarrow> def | Some n \<Rightarrow> if n \<le> 0 then def else n)"

lemma Atoi_range: "Atoi s = Some n \<Longrightarrow> - (2 ^ 63) \<le> n \<and> n < 2 ^ 63"
  by (auto simp: Atoi_def Let_def split: option.splits if_splits)

lemma intParam_pos: "0 < def \<Longrightarrow> 0 < intParam r key def"
  by (auto simp: intParam_def Let_def split: option.split)

lemma is_digit_char_of: "n < 10 \<Longrightarrow> is_digit (char_of (48 + n :: nat))"
proof -
  assume n: "n < 10"
  have "(of_char (char_of (48 + n) :: char) :: nat) = 48 + n" using n by simp
  then have "(of_char (char_of (48 + n) :: char) :: int) = int (48 + n)" by (metis of_nat_of_char)
  then show ?thesis using n by (simp add: is_digit_def)
qed

lemma dec_is_digits: "dec n \<noteq> [] \<and> list_all is_digit (dec n)"
proof (induction n rule: dec.induct)
  case (1 n)
  show ?case
  proof (cases "n < 10")
    case True
    then show ?thesis by (subst (1 2) dec.simps) (simp add: is_digit_char_of)
  next
    case False
    have "is_digit (char_of (48 + n mod 10))" by (rule is_digit_char_of) simp
    with 1 False show ?thesis by (subst (1 2) dec.simps) simp
  qed
qed

lemma Atoi_dec: "n < 2 ^ 63 \<Longrightarrow> Atoi (dec n) = Some (int n)"
proof -
  assume n: "n < 2 ^ 63"
  obtain c r where d: "dec n = c # r" by (metis dec_is_digits neq_Nil_conv)
  have "is_digit c" using dec_is_digits [of n] by (simp add: d)
  then have c: "c \<noteq> CHR ''-''" "c \<noteq> CHR ''+''" by (auto simp: is_digit_def)
  have "atoi_digits (c # r) = Some (int n)" unfolding d [symmetric] by (simp add: atoi_digits_def dec_is_digits)
  moreover have "int n < 2 ^ 63" using n by (metis of_nat_less_iff of_nat_numeral of_nat_power)
  ultimately show ?thesis using c by (simp add: Atoi_def d Let_def)
qed

text \<open>A written limit is read back.\<close>

lemma intParam_dec: "0 < n \<Longrightarrow> n < 2 ^ 63 \<Longrightarrow> query_get r key = dec n \<Longrightarrow> intParam r key def = int n"
  by (simp add: intParam_def Let_def Atoi_dec dec_is_digits)

end
