(* ===== verification/Users.thy ===== *)
theory Users
  imports Http Validator "HOL-Library.List_Lexorder" "HOL-Library.Char_ord"
begin

text \<open>
  internal/users/users.go and internal/api/rest/users_handlers.go: the store of users and the
  administrators' endpoints. bcrypt is a parameter: \<open>gen\<close> is one run of
  \<open>GenerateFromPassword\<close> (an error or a hash), \<open>cmp h p\<close> says whether
  \<open>CompareHashAndPassword\<close> accepts. Each method of the manager is one critical section.
\<close>

record UserConfig =
  uc_Name :: string
  uc_Password :: string
  uc_Role :: string

record User =
  us_Name :: string
  us_Role :: string
  us_CreatedAt :: gotime
  us_UpdatedAt :: gotime

record user_record =
  ur_name :: string
  ur_role :: string
  ur_secret :: string
  ur_hashed :: bool
  ur_createdAt :: gotime
  ur_updatedAt :: gotime

datatype users_error =
    ErrNotFound | ErrExists | ErrInvalidRole | ErrEmptyName | ErrEmptyPassword | ErrLastAdmin | ErrHash string

fun users_error_text :: "users_error \<Rightarrow> string" where
  "users_error_text ErrNotFound = ''user not found''"
| "users_error_text ErrExists = ''user already exists''"
| "users_error_text ErrInvalidRole = ''invalid role: must be admin, operator or viewer''"
| "users_error_text ErrEmptyName = ''user name must not be empty''"
| "users_error_text ErrEmptyPassword = ''password must not be empty''"
| "users_error_text ErrLastAdmin = ''cannot remove or demote the last admin''"
| "users_error_text (ErrHash s) = s"

type_synonym Users = "(string, user_record) gomap"

definition validRole :: "string \<Rightarrow> bool" where
  "validRole role \<longleftrightarrow> role = ''admin'' \<or> role = ''operator'' \<or> role = ''viewer''"

definition toUser :: "user_record \<Rightarrow> User" where
  "toUser r = \<lparr>us_Name = ur_name r, us_Role = ur_role r, us_CreatedAt = ur_createdAt r, us_UpdatedAt = ur_updatedAt r\<rparr>"

definition seed_user :: "gotime \<Rightarrow> UserConfig \<Rightarrow> Users \<Rightarrow> Users" where
  "seed_user now u m =
     (if uc_Name u = [] then m
      else mput (uc_Name u) \<lparr>ur_name = uc_Name u, ur_role = uc_Role u, ur_secret = uc_Password u,
             ur_hashed = HasPrefix (uc_Password u) ''$2'', ur_createdAt = now, ur_updatedAt = now\<rparr> m)"

definition Users_New :: "gotime \<Rightarrow> UserConfig list \<Rightarrow> Users" where
  "Users_New now seed = fold (seed_user now) seed []"

definition Users_List :: "(Users \<Rightarrow> Users) \<Rightarrow> Users \<Rightarrow> User list" where
  "Users_List ord m = sort_key us_Name (map (\<lambda>(k, r). toUser r) (ord m))"

definition Users_Get :: "string \<Rightarrow> Users \<Rightarrow> users_error + User" where
  "Users_Get name m = (case mget m name of None \<Rightarrow> Inl ErrNotFound | Some r \<Rightarrow> Inr (toUser r))"

definition Users_Verify :: "(string \<Rightarrow> string \<Rightarrow> bool) \<Rightarrow> string \<Rightarrow> string \<Rightarrow> Users \<Rightarrow> string \<times> bool" where
  "Users_Verify cmp name password m =
     (case mget m name of
        None \<Rightarrow> ([], False)
      | Some r \<Rightarrow>
          if ur_hashed r then (if cmp (ur_secret r) password then (ur_role r, True) else ([], False))
          else if ur_secret r = password then (ur_role r, True) else ([], False))"

definition adminCount :: "Users \<Rightarrow> nat" where
  "adminCount m = length (filter (\<lambda>(k, r). ur_role r = ''admin'') m)"

definition Users_Create ::
    "(string \<Rightarrow> string + string) \<Rightarrow> gotime \<Rightarrow> string \<Rightarrow> string \<Rightarrow> string \<Rightarrow> Users \<Rightarrow> (users_error + User) \<times> Users" where
  "Users_Create gen now name password role m =
     (if blank name then (Inl ErrEmptyName, m)
      else if password = [] then (Inl ErrEmptyPassword, m)
      else if \<not> validRole role then (Inl ErrInvalidRole, m)
      else case gen password of
             Inl err \<Rightarrow> (Inl (ErrHash err), m)
           | Inr hash \<Rightarrow>
               if mget m name \<noteq> None then (Inl ErrExists, m)
               else let r = \<lparr>ur_name = name, ur_role = role, ur_secret = hash, ur_hashed = True,
                             ur_createdAt = now, ur_updatedAt = now\<rparr>
                    in (Inr (toUser r), mput name r m))"

definition UpdateRole :: "gotime \<Rightarrow> string \<Rightarrow> string \<Rightarrow> Users \<Rightarrow> (users_error + User) \<times> Users" where
  "UpdateRole now name role m =
     (if \<not> validRole role then (Inl ErrInvalidRole, m)
      else case mget m name of
             None \<Rightarrow> (Inl ErrNotFound, m)
           | Some r \<Rightarrow>
               if ur_role r = ''admin'' \<and> role \<noteq> ''admin'' \<and> adminCount m \<le> 1 then (Inl ErrLastAdmin, m)
               else let r' = r\<lparr>ur_role := role, ur_updatedAt := now\<rparr> in (Inr (toUser r'), mput name r' m))"

definition SetPassword ::
    "(string \<Rightarrow> string + string) \<Rightarrow> gotime \<Rightarrow> string \<Rightarrow> string \<Rightarrow> Users \<Rightarrow> users_error option \<times> Users" where
  "SetPassword gen now name password m =
     (if password = [] then (Some ErrEmptyPassword, m)
      else case gen password of
             Inl err \<Rightarrow> (Some (ErrHash err), m)
           | Inr hash \<Rightarrow>
               (case mget m name of
                  None \<Rightarrow> (Some ErrNotFound, m)
                | Some r \<Rightarrow> (None, mput name (r\<lparr>ur_secret := hash, ur_hashed := True, ur_updatedAt := now\<rparr>) m)))"

definition Users_Delete :: "string \<Rightarrow> Users \<Rightarrow> users_error option \<times> Users" where
  "Users_Delete name m =
     (case mget m name of
        None \<Rightarrow> (Some ErrNotFound, m)
      | Some r \<Rightarrow>
          if ur_role r = ''admin'' \<and> adminCount m \<le> 1 then (Some ErrLastAdmin, m)
          else (None, mdel name m))"

subsection \<open>The endpoints\<close>

fun userErrorStatus :: "users_error \<Rightarrow> nat" where
  "userErrorStatus ErrNotFound = 404"
| "userErrorStatus ErrExists = 409"
| "userErrorStatus ErrLastAdmin = 409"
| "userErrorStatus ErrInvalidRole = 400"
| "userErrorStatus ErrEmptyName = 400"
| "userErrorStatus ErrEmptyPassword = 400"
| "userErrorStatus (ErrHash s) = 500"

definition user_failure :: "users_error \<Rightarrow> 'b reply" where
  "user_failure err = writeError (userErrorStatus err) (users_error_text err)"

definition ListUsers :: "(Users \<Rightarrow> Users) \<Rightarrow> Users \<Rightarrow> User list reply" where
  "ListUsers ord m = writeJSON 200 (Users_List ord m)"

definition GetUser :: "request \<Rightarrow> Users \<Rightarrow> User reply" where
  "GetUser rq m = (case Users_Get (rq_param rq ''name'') m of Inl err \<Rightarrow> user_failure err | Inr u \<Rightarrow> writeJSON 200 u)"

record CreateUserRequest =
  cur_Name :: string
  cur_Password :: string
  cur_Role :: string

definition CreateUser ::
    "(string \<Rightarrow> string + string) \<Rightarrow> gotime \<Rightarrow> CreateUserRequest decoded \<Rightarrow> Users \<Rightarrow> User reply \<times> Users" where
  "CreateUser gen now body = decodeJSON body (\<lambda>req m.
     (case Users_Create gen now (cur_Name req) (cur_Password req) (cur_Role req) m of
        (Inl err, m') \<Rightarrow> (user_failure err, m')
      | (Inr u, m') \<Rightarrow> (writeJSON 201 u, m')))"

record UpdateUserRequest =
  uur_Role :: string
  uur_Password :: string

text \<open>
  \<open>UpdateUser\<close> calls the manager three times: the password, the role, and a read for the reply.
  An error of any of them ends the request where it is.
\<close>

definition update_password ::
    "(string \<Rightarrow> string + string) \<Rightarrow> gotime \<Rightarrow> string \<Rightarrow> UpdateUserRequest \<Rightarrow> Users \<Rightarrow> users_error option \<times> Users" where
  "update_password gen now name req m =
     (if uur_Password req \<noteq> [] then SetPassword gen now name (uur_Password req) m else (None, m))"

definition update_role :: "gotime \<Rightarrow> string \<Rightarrow> UpdateUserRequest \<Rightarrow> Users \<Rightarrow> users_error option \<times> Users" where
  "update_role now name req m =
     (if uur_Role req \<noteq> []
      then (case UpdateRole now name (uur_Role req) m of
              (Inl err, m') \<Rightarrow> (Some err, m')
            | (Inr u, m') \<Rightarrow> (None, m'))
      else (None, m))"

definition UpdateUser ::
    "(string \<Rightarrow> string + string) \<Rightarrow> gotime \<Rightarrow> gotime \<Rightarrow> request \<Rightarrow> UpdateUserRequest decoded \<Rightarrow> Users \<Rightarrow> User reply \<times> Users" where
  "UpdateUser gen now now2 rq body = decodeJSON body (\<lambda>req m.
     (let name = rq_param rq ''name'' in
      if uur_Role req = [] \<and> uur_Password req = []
      then (writeError 400 ''nothing to update: provide role and/or password'', m)
      else case update_password gen now name req m of
             (Some err, m1) \<Rightarrow> (user_failure err, m1)
           | (None, m1) \<Rightarrow>
               (case update_role now2 name req m1 of
                  (Some err, m2) \<Rightarrow> (user_failure err, m2)
                | (None, m2) \<Rightarrow>
                    (case Users_Get name m2 of
                       Inl err \<Rightarrow> (user_failure err, m2)
                     | Inr u \<Rightarrow> (writeJSON 200 u, m2)))))"

definition DeleteUser :: "request \<Rightarrow> Users \<Rightarrow> unit reply \<times> Users" where
  "DeleteUser rq m =
     (case Users_Delete (rq_param rq ''name'') m of
        (Some err, m') \<Rightarrow> (user_failure err, m')
      | (None, m') \<Rightarrow> (NoContent, m'))"

subsection \<open>The invariant of the store\<close>

definition users_ok :: "Users \<Rightarrow> bool" where
  "users_ok m \<longleftrightarrow> map_ok m \<and> (\<forall>k r. mget m k = Some r \<longrightarrow> ur_name r = k)"

definition admins :: "Users \<Rightarrow> string set" where
  "admins m = {k. \<exists>r. mget m k = Some r \<and> ur_role r = ''admin''}"

lemma finite_admins: "finite (admins m)"
proof (rule finite_subset)
  show "admins m \<subseteq> fst ` set m" by (force simp: admins_def dest: map_of_SomeD)
qed simp

lemma adminCount_card: "map_ok m \<Longrightarrow> adminCount m = card (admins m)"
proof -
  assume ok: "map_ok m"
  let ?l = "filter (\<lambda>(k, r). ur_role r = ''admin'') m"
  have d: "distinct (map fst ?l)" using ok by (simp add: distinct_map_filter)
  have "set (map fst ?l) = admins m"
    by (force simp: admins_def set_gomap [OF ok, symmetric])
  then show ?thesis using distinct_card [OF d] by (simp add: adminCount_def)
qed

lemma admins_mput:
  "admins (mput k r m) = (if ur_role r = ''admin'' then insert k (admins m) else admins m - {k})"
  by (auto simp: admins_def)

lemma admins_mdel: "admins (mdel k m) = admins m - {k}"
  by (auto simp: admins_def)

lemma admin_member: "mget m k = Some r \<Longrightarrow> ur_role r = ''admin'' \<longleftrightarrow> k \<in> admins m"
  by (simp add: admins_def)

lemma users_ok_mput: "users_ok m \<Longrightarrow> ur_name r = k \<Longrightarrow> users_ok (mput k r m)"
  by (auto simp: users_ok_def split: if_splits)

lemma users_ok_mdel: "users_ok m \<Longrightarrow> users_ok (mdel k m)"
  unfolding users_ok_def by (intro conjI map_ok_mdel) simp_all

lemma users_ok_name: "users_ok m \<Longrightarrow> mget m k = Some r \<Longrightarrow> ur_name r = k"
  unfolding users_ok_def by blast

lemma users_ok_New: "users_ok (Users_New now seed)"
proof -
  have "users_ok (fold (seed_user now) seed m)" if "users_ok m" for m
    using that
  proof (induction seed arbitrary: m)
    case (Cons u seed)
    have "users_ok (seed_user now u m)"
      using Cons.prems by (cases "uc_Name u = []") (auto simp: seed_user_def intro!: users_ok_mput)
    then show ?case by (simp add: Cons.IH)
  qed simp
  moreover have "users_ok []" by (simp add: users_ok_def)
  ultimately show ?thesis unfolding Users_New_def by blast
qed

text \<open>What the manager can be asked to do, with the result of the hashing of a call.\<close>

datatype user_op =
    OpCreate "string \<Rightarrow> string + string" gotime string string string
  | OpUpdateRole gotime string string
  | OpSetPassword "string \<Rightarrow> string + string" gotime string string
  | OpDelete string

fun user_step :: "user_op \<Rightarrow> Users \<Rightarrow> Users" where
  "user_step (OpCreate gen now name password role) m = snd (Users_Create gen now name password role m)"
| "user_step (OpUpdateRole now name role) m = snd (UpdateRole now name role m)"
| "user_step (OpSetPassword gen now name password) m = snd (SetPassword gen now name password m)"
| "user_step (OpDelete name) m = snd (Users_Delete name m)"

lemma user_step_ok: "users_ok m \<Longrightarrow> users_ok (user_step op m)"
  by (cases op)
    (auto simp: Users_Create_def UpdateRole_def SetPassword_def Users_Delete_def Let_def
       intro!: users_ok_mput users_ok_mdel dest: users_ok_name split: option.split sum.split)

text \<open>Taking one administrator away from at least two leaves one.\<close>

lemma other_admin: "\<not> card A \<le> 1 \<Longrightarrow> A - {k} \<noteq> {}"
  by (metis Diff_eq_empty_iff One_nat_def card_mono finite.emptyI finite_insert is_singletonI is_singleton_altdef)

lemma user_step_admin:
  assumes ok: "users_ok m" and ad: "admins m \<noteq> {}"
  shows "admins (user_step op m) \<noteq> {}"
proof (cases op)
  case (OpCreate gen now name password role)
  show ?thesis
  proof (cases "mget m name")
    case None
    then have "name \<notin> admins m" by (simp add: admins_def)
    then show ?thesis using ad
      by (auto simp: OpCreate Users_Create_def Let_def admins_mput split: sum.split)
  qed (use ad in \<open>auto simp: OpCreate Users_Create_def split: sum.split\<close>)
next
  case (OpUpdateRole now name role)
  show ?thesis
  proof (cases "mget m name")
    case None
    then show ?thesis using ad by (simp add: OpUpdateRole UpdateRole_def)
  next
    case (Some r)
    have "admins m - {name} \<noteq> {}" if "\<not> adminCount m \<le> 1"
      using other_admin that adminCount_card ok unfolding users_ok_def by metis
    then show ?thesis using ad Some admin_member [OF Some]
      by (auto simp: OpUpdateRole UpdateRole_def Let_def admins_mput)
  qed
next
  case (OpSetPassword gen now name password)
  then show ?thesis using ad
    by (auto simp: SetPassword_def admins_mput admin_member insert_absorb split: sum.split option.split)
next
  case (OpDelete name)
  show ?thesis
  proof (cases "mget m name")
    case None
    then show ?thesis using ad by (simp add: OpDelete Users_Delete_def)
  next
    case (Some r)
    have "admins m - {name} \<noteq> {}" if "\<not> adminCount m \<le> 1"
      using other_admin that adminCount_card ok unfolding users_ok_def by metis
    then show ?thesis using ad Some admin_member [OF Some]
      by (auto simp: OpDelete Users_Delete_def admins_mdel)
  qed
qed

lemma user_run: "users_ok m \<Longrightarrow> users_ok (fold user_step ops m) \<and> (admins m \<noteq> {} \<longrightarrow> admins (fold user_step ops m) \<noteq> {})"
proof (induction ops arbitrary: m)
  case (Cons op ops)
  from Cons.IH [OF user_step_ok [OF Cons.prems]] user_step_admin [OF Cons.prems] show ?case by simp
qed simp

text \<open>The operations that replace or remove the credential of a user.\<close>

fun touches_credential :: "string \<Rightarrow> user_op \<Rightarrow> bool" where
  "touches_credential n (OpSetPassword gen now name password) = (name = n)"
| "touches_credential n (OpDelete name) = (name = n)"
| "touches_credential n _ = False"

lemma user_step_credential:
  assumes "mget m n = Some r" and "\<not> touches_credential n op"
  shows "\<exists>r'. mget (user_step op m) n = Some r' \<and> ur_secret r' = ur_secret r \<and> ur_hashed r' = ur_hashed r"
  using assms
  by (cases op)
    (auto simp: Users_Create_def UpdateRole_def SetPassword_def Users_Delete_def Let_def split: option.split sum.split)

lemma user_run_credential:
  "mget m n = Some r \<Longrightarrow> list_all (\<lambda>op. \<not> touches_credential n op) ops \<Longrightarrow>
     \<exists>r'. mget (fold user_step ops m) n = Some r' \<and> ur_secret r' = ur_secret r \<and> ur_hashed r' = ur_hashed r"
proof (induction ops arbitrary: m r)
  case (Cons op ops)
  then obtain r1 where "mget (user_step op m) n = Some r1" "ur_secret r1 = ur_secret r" "ur_hashed r1 = ur_hashed r"
    using user_step_credential [of m n r op] by auto
  with Cons.IH [of "user_step op m" r1] Cons.prems(2) show ?case by auto
qed simp

text \<open>Once every credential is a hash it stays so, since only hashes are ever written.\<close>

definition all_hashed :: "Users \<Rightarrow> bool" where
  "all_hashed m \<longleftrightarrow> (\<forall>k r. mget m k = Some r \<longrightarrow> ur_hashed r)"

lemma user_step_hashed: "all_hashed m \<Longrightarrow> all_hashed (user_step op m)"
  unfolding all_hashed_def
  by (cases op)
    (auto simp: Users_Create_def UpdateRole_def SetPassword_def Users_Delete_def Let_def
       split: option.splits sum.splits if_splits)

lemma user_run_hashed: "all_hashed m \<Longrightarrow> all_hashed (fold user_step ops m)"
  by (induction ops arbitrary: m) (auto dest: user_step_hashed)

lemma all_hashed_New:
  assumes "list_all (\<lambda>u. HasPrefix (uc_Password u) ''$2'') seed"
  shows "all_hashed (Users_New now seed)"
proof -
  have "all_hashed (fold (seed_user now) seed m)" if "all_hashed m" for m
    using that assms
  proof (induction seed arbitrary: m)
    case (Cons u seed)
    have "all_hashed (seed_user now u m)"
      using Cons.prems by (auto simp: seed_user_def all_hashed_def split: if_splits)
    then show ?case using Cons by simp
  qed simp
  from this [of "[]"] show ?thesis by (simp add: Users_New_def all_hashed_def)
qed

subsection \<open>Properties\<close>

text \<open>
  C21: nobody can lock the administrators out. Starting with at least one administrator, after any
  sequence of user operations (creations, role changes, password changes, deletions, in any
  interleaving of requests) there still is one.
\<close>

theorem admin_never_lost:
  assumes "users_ok m" and "adminCount m \<ge> 1"
  shows "adminCount (fold user_step ops m) \<ge> 1"
proof -
  have "admins m \<noteq> {}" using assms adminCount_card [of m] by (auto simp: users_ok_def)
  with user_run [OF assms(1), of ops] have "users_ok (fold user_step ops m)" "admins (fold user_step ops m) \<noteq> {}"
    by simp_all
  then have "map_ok (fold user_step ops m)" "0 < card (admins (fold user_step ops m))"
    by (simp_all add: users_ok_def card_gt_0_iff finite_admins)
  then show ?thesis by (simp add: adminCount_card)
qed

text \<open>
  A password stays until it is replaced. After a password change, and any further operations
  that do not set or delete this user's credential, the user is verified with exactly the
  passwords that match the stored hash; the old password no longer counts.
\<close>

theorem password_sticks:
  assumes "SetPassword gen now name password m = (None, m')" and "gen password = Inr hash"
    and "list_all (\<lambda>op. \<not> touches_credential name op) ops"
  shows "snd (Users_Verify cmp name p (fold user_step ops m')) = cmp hash p"
proof -
  from assms(1,2) obtain r where "mget m name = Some r"
    "m' = mput name (r\<lparr>ur_secret := hash, ur_hashed := True, ur_updatedAt := now\<rparr>) m"
    by (auto simp: SetPassword_def split: if_splits option.splits)
  then have "mget m' name = Some (r\<lparr>ur_secret := hash, ur_hashed := True, ur_updatedAt := now\<rparr>)" by simp
  from user_run_credential [OF this assms(3)] show ?thesis by (auto simp: Users_Verify_def split: if_splits)
qed

text \<open>
  An update of a user is not all or nothing. When the new password is fine but the role is
  refused (unknown, or it would demote the last administrator), the request is answered with an
  error and the role is unchanged, yet the password has been replaced.
\<close>

theorem update_user_partial:
  assumes "mget m (rq_param rq ''name'') = Some r" and "gen (uur_Password req) = Inr hash"
    and "uur_Password req \<noteq> []" and "uur_Role req \<noteq> []"
    and "\<not> validRole (uur_Role req) \<or> ur_role r = ''admin'' \<and> uur_Role req \<noteq> ''admin'' \<and> adminCount m \<le> 1"
    and "users_ok m"
  shows "\<exists>m'. UpdateUser gen now now2 rq (Inr req) m
      = (user_failure (if validRole (uur_Role req) then ErrLastAdmin else ErrInvalidRole), m')
    \<and> \<not> ok_reply (fst (UpdateUser gen now now2 rq (Inr req) m))
    \<and> map_option ur_role (mget m' (rq_param rq ''name'')) = Some (ur_role r)
    \<and> snd (Users_Verify cmp (rq_param rq ''name'') p m') = cmp hash p"
proof -
  let ?n = "rq_param rq ''name''"
  let ?r = "r\<lparr>ur_secret := hash, ur_hashed := True, ur_updatedAt := now\<rparr>"
  let ?m = "mput ?n ?r m"
  have pw: "update_password gen now ?n req m = (None, ?m)"
    using assms(1-3) by (simp add: update_password_def SetPassword_def)
  have "admins ?m = admins m" using admin_member [OF assms(1)] by (auto simp: admins_mput)
  then have "adminCount ?m = adminCount m" using assms(6) by (simp add: adminCount_card users_ok_def)
  then have rl: "update_role now2 ?n req ?m = (Some (if validRole (uur_Role req) then ErrLastAdmin else ErrInvalidRole), ?m)"
    using assms(4,5) by (auto simp: update_role_def UpdateRole_def)
  have up: "UpdateUser gen now now2 rq (Inr req) m
      = (user_failure (if validRole (uur_Role req) then ErrLastAdmin else ErrInvalidRole), ?m)"
    using assms(3) by (simp add: UpdateUser_def Let_def pw rl)
  show ?thesis unfolding up by (intro exI [of _ ?m]) (simp add: user_failure_def http_simps Users_Verify_def)
qed

definition demo_users :: Users where
  "demo_users = Users_New 5 [\<lparr>uc_Name = ''root'', uc_Password = ''pw'', uc_Role = ''admin''\<rparr>,
     \<lparr>uc_Name = ''bob'', uc_Password = ''$2a'', uc_Role = ''viewer''\<rparr>]"

text \<open>A stand-in for bcrypt.\<close>

definition demo_gen :: "string \<Rightarrow> string + string" where
  "demo_gen p = Inr (''$2'' @ p)"

definition demo_cmp :: "string \<Rightarrow> string \<Rightarrow> bool" where
  "demo_cmp h p \<longleftrightarrow> h = ''$2'' @ p"

lemma admin_never_lost_witness:
  "adminCount (fold user_step [OpDelete ''root'', OpUpdateRole 6 ''root'' ''viewer''] demo_users) \<ge> 1"
  by (rule admin_never_lost) (simp_all add: demo_users_def users_ok_New, code_simp)

lemma password_sticks_witness:
  "snd (Users_Verify demo_cmp ''bob'' ''new'' (fold user_step [OpUpdateRole 7 ''bob'' ''operator'']
     (snd (SetPassword demo_gen 6 ''bob'' ''new'' demo_users))))"
proof -
  have s: "SetPassword demo_gen 6 ''bob'' ''new'' demo_users
      = (None, snd (SetPassword demo_gen 6 ''bob'' ''new'' demo_users))" by code_simp
  have g: "demo_gen ''new'' = Inr (''$2'' @ ''new'')" by (simp add: demo_gen_def)
  have "list_all (\<lambda>op. \<not> touches_credential ''bob'' op) [OpUpdateRole 7 ''bob'' ''operator'']" by simp
  from password_sticks [OF s g this, of demo_cmp "''new''"] show ?thesis by (simp add: demo_cmp_def)
qed

lemma update_user_partial_witness:
  "snd (Users_Verify demo_cmp ''root'' ''x'' (snd (UpdateUser demo_gen 6 7
     \<lparr>rq_query = [], rq_param = (\<lambda>_. ''root''), rq_remote = []\<rparr>
     (Inr \<lparr>uur_Role = ''viewer'', uur_Password = ''x''\<rparr>) demo_users)))"
proof -
  let ?rq = "\<lparr>rq_query = [], rq_param = (\<lambda>_. ''root''), rq_remote = []\<rparr>"
  let ?req = "\<lparr>uur_Role = ''viewer'', uur_Password = ''x''\<rparr>"
  let ?r = "the (mget demo_users ''root'')"
  have h: "mget demo_users (rq_param ?rq ''name'') = Some ?r"
    "ur_role ?r = ''admin'' \<and> uur_Role ?req \<noteq> ''admin'' \<and> adminCount demo_users \<le> 1"
    "demo_gen (uur_Password ?req) = Inr ''$2x''" "uur_Password ?req \<noteq> []" "uur_Role ?req \<noteq> []" by code_simp+
  have "users_ok demo_users" by (simp add: demo_users_def users_ok_New)
  from update_user_partial [where m = demo_users and rq = ?rq and req = ?req and gen = demo_gen and now = 6
      and ?now2.0 = 7 and cmp = demo_cmp and p = "''x''", OF h(1,3,4,5) disjI2 [OF h(2)] this]
  show ?thesis by (auto simp: demo_cmp_def)
qed

end
