(* ===== verification/Auth.thy ===== *)
theory Auth
  imports Users Store
begin

text \<open>
  internal/auth/auth.go, the access control of internal/api/rest/middleware.go and server.go, and
  the login endpoints of internal/api/rest/handlers.go. The JWT library is a parameter: what
  \<open>SignedString\<close>, \<open>NewNumericDate\<close> and \<open>ParseWithClaims\<close> do. The route table is that of
  \<open>routes()\<close>; which entry a path selects is the router's business, the model starts from the
  selected entry.
\<close>

record Claims =
  cl_UserID :: string
  cl_Role :: string
  cl_ExpiresAt :: gotime
  cl_IssuedAt :: gotime
  cl_Subject :: string

text \<open>
  The library: signing under HS256, whether a token's method is of the HMAC family, rounding to
  a numeric date, and parsing at a time with the key the caller supplies (none when the caller
  refuses the method), which yields an error or the claims and the valid flag.
\<close>

record jwt_lib =
  jl_sign :: "Claims \<Rightarrow> string \<Rightarrow> string + string"
  jl_hmac :: "string \<Rightarrow> bool"
  jl_date :: "gotime \<Rightarrow> gotime"
  jl_parse :: "gotime \<Rightarrow> string \<Rightarrow> string option \<Rightarrow> string + (Claims \<times> bool)"

definition DefaultExpiry :: duration where "DefaultExpiry = 24 * Hour"

definition GenerateToken :: "jwt_lib \<Rightarrow> gotime \<Rightarrow> gotime \<Rightarrow> string \<Rightarrow> string \<Rightarrow> string \<Rightarrow> duration \<Rightarrow> string + string" where
  "GenerateToken lib now now2 userID role secret expiry0 =
     (let expiry = (if expiry0 \<le> 0 then DefaultExpiry else expiry0);
          claims = \<lparr>cl_UserID = userID, cl_Role = role, cl_ExpiresAt = jl_date lib (time_Add now expiry),
                    cl_IssuedAt = jl_date lib now2, cl_Subject = userID\<rparr>
      in jl_sign lib claims secret)"

definition ValidateToken :: "jwt_lib \<Rightarrow> gotime \<Rightarrow> string \<Rightarrow> string \<Rightarrow> string + Claims" where
  "ValidateToken lib now tok secret =
     (case jl_parse lib now tok (if jl_hmac lib tok then Some secret else None) of
        Inl err \<Rightarrow> Inl err
      | Inr (claims, valid) \<Rightarrow> if valid then Inr claims else Inl ''invalid token'')"

definition RoleLevel :: "string \<Rightarrow> nat" where
  "RoleLevel role =
     (if role = ''admin'' then 3 else if role = ''operator'' then 2 else if role = ''viewer'' then 1 else 0)"

definition RefreshToken ::
    "jwt_lib \<Rightarrow> gotime \<Rightarrow> gotime \<Rightarrow> gotime \<Rightarrow> string \<Rightarrow> string \<Rightarrow> duration \<Rightarrow> string + (string \<times> Claims)" where
  "RefreshToken lib now now2 now3 tok secret expiry0 =
     (case ValidateToken lib now tok secret of
        Inl err \<Rightarrow> Inl err
      | Inr claims \<Rightarrow>
          let expiry = (if expiry0 \<le> 0 then DefaultExpiry else expiry0)
          in (case GenerateToken lib now2 now3 (cl_UserID claims) (cl_Role claims) secret expiry of
                Inl err \<Rightarrow> Inl err
              | Inr new \<Rightarrow> Inr (new, claims)))"

subsection \<open>Middleware\<close>

text \<open>
  The context of a request: values under keys of two Go types, \<open>contextKey\<close> of middleware.go and \<open>ctxKey\<close> of
  handlers.go; keys of different types are different keys. What net/http and chi keep there has keys of their
  own and is left out, so a request arrives with none.
\<close>

datatype context_key = contextKey string | ctxKey string

datatype context_value = ClaimsValue Claims | StringValue string

type_synonym go_context = "(context_key, context_value) gomap"

definition claimsKey :: context_key where "claimsKey = contextKey ''claims''"

definition ctxKeyUsername :: context_key where "ctxKeyUsername = ctxKey ''username''"

definition WithValue :: "go_context \<Rightarrow> context_key \<Rightarrow> context_value \<Rightarrow> go_context" where
  "WithValue ctx k v = mput k v ctx"

text \<open>\<open>Value(k).(T)\<close> for the two types that are asserted; the zero value when there is none of that type.\<close>

definition claims_of :: "go_context \<Rightarrow> Claims option" where
  "claims_of ctx = (case mget ctx claimsKey of Some (ClaimsValue c) \<Rightarrow> Some c | _ \<Rightarrow> None)"

definition username_of :: "go_context \<Rightarrow> string" where
  "username_of ctx = (case mget ctx ctxKeyUsername of Some (StringValue s) \<Rightarrow> s | _ \<Rightarrow> [])"

text \<open>What becomes of a request on its way to a handler, which runs with the context.\<close>

datatype outcome =
    Denied nat string
  | Preflight
  | Invoke go_context

definition jwtMiddleware :: "jwt_lib \<Rightarrow> gotime \<Rightarrow> string \<Rightarrow> string \<Rightarrow> (go_context \<Rightarrow> outcome) \<Rightarrow> go_context \<Rightarrow> outcome" where
  "jwtMiddleware lib now secret hdr next_handler ctx =
     (case CutPrefix hdr ''Bearer '' of
        None \<Rightarrow> Denied 401 ''missing Bearer token''
      | Some tok \<Rightarrow>
          (case ValidateToken lib now tok secret of
             Inl err \<Rightarrow> Denied 401 (''invalid token: '' @ err)
           | Inr claims \<Rightarrow> next_handler (WithValue ctx claimsKey (ClaimsValue claims))))"

definition requireMinRole :: "string \<Rightarrow> (go_context \<Rightarrow> outcome) \<Rightarrow> go_context \<Rightarrow> outcome" where
  "requireMinRole minRole next_handler ctx =
     (case claims_of ctx of
        None \<Rightarrow> Denied 403 ''no auth context''
      | Some claims \<Rightarrow>
          if RoleLevel (cl_Role claims) < RoleLevel minRole
          then Denied 403 (''role '' @ [CHR 0x27] @ cl_Role claims @ [CHR 0x27]
                 @ '' is insufficient; need at least '' @ [CHR 0x27] @ minRole @ [CHR 0x27])
          else next_handler ctx)"

text \<open>CORS: the headers that are set, and whether the request ends as a preflight.\<close>

definition corsMiddleware :: "string list \<Rightarrow> string \<Rightarrow> string \<Rightarrow> outcome \<Rightarrow> (string \<times> string) list \<times> outcome" where
  "corsMiddleware allowed origin meth next_outcome =
     (let allowAny = ''*'' \<in> set allowed in
      if origin \<noteq> [] \<and> (allowAny \<or> origin \<in> set allowed)
      then ((if allowAny then [(''Access-Control-Allow-Origin'', ''*'')]
             else [(''Access-Control-Allow-Origin'', origin), (''Vary'', ''Origin'')])
            @ [(''Access-Control-Allow-Methods'', ''GET, POST, DELETE, OPTIONS''),
               (''Access-Control-Allow-Headers'', ''Content-Type, Authorization'')],
            if meth = ''OPTIONS'' then Preflight else next_outcome)
      else ([], next_outcome))"

definition clientIPMiddleware :: "(request \<Rightarrow> request) \<Rightarrow> bool \<Rightarrow> request \<Rightarrow> request" where
  "clientIPMiddleware realip trustProxy r = (if trustProxy then realip r else r)"

subsection \<open>The route table\<close>

record AuthConfig =
  au_Enabled :: bool
  au_JWTSecret :: string
  au_JWTExpiry :: string
  au_RefreshExpiry :: string
  au_RequireBcrypt :: bool
  au_Users :: "UserConfig list"

datatype guard = Public | AnyToken | OperatorOrOpen | AdminOrOpen

record route =
  rt_method :: string
  rt_path :: string
  rt_guard :: guard

definition GET :: "string \<Rightarrow> guard \<Rightarrow> route" where "GET p g = \<lparr>rt_method = ''GET'', rt_path = p, rt_guard = g\<rparr>"
definition POST :: "string \<Rightarrow> guard \<Rightarrow> route" where "POST p g = \<lparr>rt_method = ''POST'', rt_path = p, rt_guard = g\<rparr>"
definition PATCH :: "string \<Rightarrow> guard \<Rightarrow> route" where "PATCH p g = \<lparr>rt_method = ''PATCH'', rt_path = p, rt_guard = g\<rparr>"
definition DELETE :: "string \<Rightarrow> guard \<Rightarrow> route" where "DELETE p g = \<lparr>rt_method = ''DELETE'', rt_path = p, rt_guard = g\<rparr>"

definition public_routes :: "route list" where
  "public_routes =
     [GET ''/v1/health'' Public, GET ''/v1/health/live'' Public, GET ''/v1/health/ready'' Public,
      \<lparr>rt_method = ''*'', rt_path = ''/v1/metrics'', rt_guard = Public\<rparr>, POST ''/v1/auth/login'' Public,
      GET ''/ws/events'' Public, \<lparr>rt_method = ''*'', rt_path = ''/*'', rt_guard = Public\<rparr>]"

definition protected_routes :: "route list" where
  "protected_routes =
     [GET ''/v1/events'' AnyToken,
      GET ''/v1/events/search'' AnyToken,
      GET ''/v1/events/{event_id}'' AnyToken,
      POST ''/v1/events'' OperatorOrOpen,
      POST ''/v1/events/batch'' OperatorOrOpen,
      GET ''/v1/traces'' AnyToken,
      GET ''/v1/traces/{trace_id}'' AnyToken,
      GET ''/v1/traces/{trace_id}/timeline'' AnyToken,
      GET ''/v1/lineage/{trace_id}'' AnyToken,
      GET ''/v1/lineage/{trace_id}/sources'' AnyToken,
      GET ''/v1/lineage/user/{user_id}'' AnyToken,
      GET ''/v1/lineage/data/{data_ref}'' AnyToken,
      GET ''/v1/lineage/audit'' AnyToken,
      POST ''/v1/auth/refresh'' AnyToken,
      GET ''/v1/dashboard/summary'' AnyToken,
      GET ''/v1/dashboard/pipeline-health'' AnyToken,
      GET ''/v1/dashboard/recent-activity'' AnyToken,
      GET ''/v1/dashboard/tenant/{tenant_id}'' OperatorOrOpen,
      GET ''/v1/events/page'' AnyToken,
      GET ''/v1/events/export'' AdminOrOpen,
      GET ''/v1/auth/login-audit'' AdminOrOpen,
      GET ''/v1/users'' AdminOrOpen,
      POST ''/v1/users'' AdminOrOpen,
      GET ''/v1/users/{name}'' AdminOrOpen,
      PATCH ''/v1/users/{name}'' AdminOrOpen,
      DELETE ''/v1/users/{name}'' AdminOrOpen,
      GET ''/v1/anomaly/baselines'' AnyToken,
      GET ''/v1/anomaly/events'' AnyToken,
      GET ''/v1/topology'' AnyToken,
      GET ''/v1/topology/health'' AnyToken,
      GET ''/v1/pipelines/stats'' AnyToken,
      GET ''/v1/security/events'' AnyToken,
      GET ''/v1/security/incidents'' AnyToken,
      POST ''/v1/security/incidents/{id}/resolve'' OperatorOrOpen,
      GET ''/v1/alerts'' AnyToken,
      POST ''/v1/alerts/{id}/acknowledge'' OperatorOrOpen,
      GET ''/v1/honey-tokens'' AnyToken,
      POST ''/v1/honey-tokens'' OperatorOrOpen,
      DELETE ''/v1/honey-tokens/{id}'' OperatorOrOpen,
      GET ''/v1/honey-tokens/triggers'' AnyToken,
      GET ''/v1/honey-tokens/{id}/triggers'' AnyToken,
      POST ''/v1/alerts/{id}/resolve'' OperatorOrOpen,
      GET ''/v1/demo/scenarios'' AnyToken,
      GET ''/v1/demo/scenarios/{name}'' AnyToken,
      POST ''/v1/demo/replay'' OperatorOrOpen,
      POST ''/v1/demo/inject'' OperatorOrOpen,
      GET ''/v1/demo/active'' AnyToken,
      POST ''/v1/demo/stop'' OperatorOrOpen,
      POST ''/v1/demo/record/start'' OperatorOrOpen,
      POST ''/v1/demo/record/stop'' OperatorOrOpen,
      GET ''/v1/demo/record/status'' AnyToken,
      POST ''/v1/config/reload'' AdminOrOpen,
      GET ''/v1/runbooks'' AnyToken,
      GET ''/v1/runbooks/{id}'' AnyToken,
      GET ''/v1/dead-letter'' OperatorOrOpen,
      GET ''/v1/audit/verify'' OperatorOrOpen,
      GET ''/v1/monitor/mode'' AnyToken,
      POST ''/v1/monitor/mode'' OperatorOrOpen,
      GET ''/v1/monitor/sessions'' AnyToken,
      GET ''/v1/monitor/sessions/{session_id}'' AnyToken,
      DELETE ''/v1/monitor/sessions/{session_id}'' OperatorOrOpen,
      POST ''/v1/monitor/sessions/{session_id}/steps/{step_id}/annotate'' OperatorOrOpen,
      GET ''/v1/monitor/checkpoints'' AnyToken,
      GET ''/v1/monitor/checkpoints/{checkpoint_id}'' AnyToken,
      POST ''/v1/monitor/checkpoints/{checkpoint_id}/decide'' OperatorOrOpen,
      POST ''/v1/monitor/checkpoints'' OperatorOrOpen]"

definition all_routes :: "route list" where
  "all_routes = public_routes @ protected_routes"

text \<open>\<open>authCfg\<close> may be nil; with auth off every guard is open.\<close>

definition auth_on :: "AuthConfig option \<Rightarrow> bool" where
  "auth_on cfg = (case cfg of None \<Rightarrow> False | Some c \<Rightarrow> au_Enabled c)"

definition operatorOrOpen :: "AuthConfig option \<Rightarrow> (go_context \<Rightarrow> outcome) \<Rightarrow> go_context \<Rightarrow> outcome" where
  "operatorOrOpen cfg next_handler = (if \<not> auth_on cfg then next_handler else requireMinRole ''operator'' next_handler)"

definition adminOrOpen :: "AuthConfig option \<Rightarrow> (go_context \<Rightarrow> outcome) \<Rightarrow> go_context \<Rightarrow> outcome" where
  "adminOrOpen cfg next_handler = (if \<not> auth_on cfg then next_handler else requireMinRole ''admin'' next_handler)"

definition jwt_group :: "jwt_lib \<Rightarrow> gotime \<Rightarrow> AuthConfig option \<Rightarrow> string \<Rightarrow> (go_context \<Rightarrow> outcome) \<Rightarrow> go_context \<Rightarrow> outcome" where
  "jwt_group lib now cfg hdr next_handler =
     (case cfg of
        Some c \<Rightarrow> if au_Enabled c then jwtMiddleware lib now (au_JWTSecret c) hdr next_handler else next_handler
      | None \<Rightarrow> next_handler)"

fun guarded :: "jwt_lib \<Rightarrow> gotime \<Rightarrow> AuthConfig option \<Rightarrow> guard \<Rightarrow> string \<Rightarrow> outcome" where
  "guarded lib now cfg Public hdr = Invoke []"
| "guarded lib now cfg AnyToken hdr = jwt_group lib now cfg hdr Invoke []"
| "guarded lib now cfg OperatorOrOpen hdr = jwt_group lib now cfg hdr (operatorOrOpen cfg Invoke) []"
| "guarded lib now cfg AdminOrOpen hdr = jwt_group lib now cfg hdr (adminOrOpen cfg Invoke) []"

definition serve ::
    "jwt_lib \<Rightarrow> gotime \<Rightarrow> AuthConfig option \<Rightarrow> string list \<Rightarrow> string \<Rightarrow> string \<Rightarrow> string \<Rightarrow> route \<Rightarrow> (string \<times> string) list \<times> outcome" where
  "serve lib now cfg allowed origin meth hdr rt =
     corsMiddleware allowed origin meth (guarded lib now cfg (rt_guard rt) hdr)"

subsection \<open>The login endpoints\<close>

record LoginRequest =
  lr_Username :: string
  lr_Password :: string

record LoginResponse =
  lp_Token :: string
  lp_ExpiresIn :: string
  lp_Role :: string

definition loginAuditRecord :: "gotime \<Rightarrow> string \<Rightarrow> string \<Rightarrow> string \<Rightarrow> bool \<Rightarrow> string \<Rightarrow> Store \<Rightarrow> Store" where
  "loginAuditRecord now username role sourceIP success reason s =
     RecordLogin \<lparr>la_Timestamp = now, la_Username = username, la_Role = role, la_SourceIP = sourceIP,
       la_Success = success, la_Reason = reason\<rparr> s"

definition login_expiry :: "AuthConfig \<Rightarrow> duration" where
  "login_expiry cfg = (case ParseDuration (au_JWTExpiry cfg) of None \<Rightarrow> DefaultExpiry | Some d \<Rightarrow> d)"

text \<open>The clock is read up to three times: for the two claims of the token and for the audit record.\<close>

definition Login ::
    "jwt_lib \<Rightarrow> (string \<Rightarrow> string \<Rightarrow> bool) \<Rightarrow> (nat \<Rightarrow> gotime) \<Rightarrow> AuthConfig option \<Rightarrow> Users \<Rightarrow> request
       \<Rightarrow> LoginRequest decoded \<Rightarrow> Store \<Rightarrow> LoginResponse reply \<times> Store" where
  "Login lib cmp clk authCfg us rq body = decodeJSON body (\<lambda>req s.
     (case authCfg of
        None \<Rightarrow> (writeError 404 ''auth not enabled'', s)
      | Some cfg \<Rightarrow>
          if \<not> au_Enabled cfg then (writeError 404 ''auth not enabled'', s)
          else let (role, ok) = Users_Verify cmp (lr_Username req) (lr_Password req) us
               in if \<not> ok
                  then (writeError 401 ''invalid credentials'',
                        loginAuditRecord (clk 2) (lr_Username req) [] (rq_remote rq) False ''invalid credentials'' s)
                  else let expiry = login_expiry cfg
                       in (case GenerateToken lib (clk 0) (clk 1) (lr_Username req) role (au_JWTSecret cfg) expiry of
                             Inl err \<Rightarrow> (writeError 500 ''token generation failed'', s)
                           | Inr token \<Rightarrow>
                               (writeJSON 200 \<lparr>lp_Token = token, lp_ExpiresIn = duration_text expiry, lp_Role = role\<rparr>,
                                loginAuditRecord (clk 2) (lr_Username req) role (rq_remote rq) True [] s))))"

definition refresh_expiry :: "AuthConfig \<Rightarrow> duration" where
  "refresh_expiry cfg =
     (let d1 = (case ParseDuration (au_RefreshExpiry cfg) of Some d \<Rightarrow> if d \<le> 0 then None else Some d | None \<Rightarrow> None);
          d2 = (case d1 of Some d \<Rightarrow> d
                | None \<Rightarrow> (case ParseDuration (au_JWTExpiry cfg) of Some d \<Rightarrow> d | None \<Rightarrow> 0))
      in if d2 \<le> 0 then DefaultExpiry else d2)"

definition RefreshToken_handler ::
    "jwt_lib \<Rightarrow> (nat \<Rightarrow> gotime) \<Rightarrow> AuthConfig option \<Rightarrow> request \<Rightarrow> string decoded \<Rightarrow> Store \<Rightarrow> LoginResponse reply \<times> Store" where
  "RefreshToken_handler lib clk authCfg rq body = decodeJSON body (\<lambda>tok s.
     (case authCfg of
        None \<Rightarrow> (writeError 404 ''auth not enabled'', s)
      | Some cfg \<Rightarrow>
          if \<not> au_Enabled cfg then (writeError 404 ''auth not enabled'', s)
          else let expiry = refresh_expiry cfg
               in (case RefreshToken lib (clk 0) (clk 1) (clk 2) tok (au_JWTSecret cfg) expiry of
                     Inl err \<Rightarrow> (writeError 401 ''invalid or expired token'',
                       RecordLogin \<lparr>la_Timestamp = clk 3, la_Username = ''unknown'', la_Role = [],
                         la_SourceIP = rq_remote rq, la_Success = False, la_Reason = ''refresh: '' @ err\<rparr> s)
                   | Inr (token, claims) \<Rightarrow>
                       (writeJSON 200 \<lparr>lp_Token = token, lp_ExpiresIn = duration_text expiry, lp_Role = cl_Role claims\<rparr>, s))))"

definition LoginAudit :: "request \<Rightarrow> Store \<Rightarrow> LoginAuditEvent list reply" where
  "LoginAudit rq s = writeJSON 200 (RecentLogins s (intParam rq ''limit'' 100))"

subsection \<open>Who gets in\<close>

fun guard_level :: "guard \<Rightarrow> nat" where
  "guard_level Public = 0"
| "guard_level AnyToken = 0"
| "guard_level OperatorOrOpen = 2"
| "guard_level AdminOrOpen = 3"

definition bearer :: "string \<Rightarrow> string" where
  "bearer tok = ''Bearer '' @ tok"

lemma cut_bearer: "CutPrefix hdr ''Bearer '' = Some tok \<longleftrightarrow> hdr = bearer tok"
  unfolding CutPrefix_Some bearer_def ..

text \<open>What the middleware leaves in the context: the claims, and no user name.\<close>

definition claims_context :: "Claims \<Rightarrow> go_context" where
  "claims_context claims = WithValue [] claimsKey (ClaimsValue claims)"

lemma claims_context_simps [simp]: "claims_of (claims_context claims) = Some claims" "username_of (claims_context claims) = []"
  "username_of [] = []"
  by (simp_all add: claims_context_def claims_of_def username_of_def WithValue_def claimsKey_def ctxKeyUsername_def)

lemma jwt_group_on:
  "au_Enabled c \<Longrightarrow> jwt_group lib now (Some c) hdr next_handler [] = Invoke ctx \<longleftrightarrow>
     (\<exists>tok claims. hdr = bearer tok \<and> ValidateToken lib now tok (au_JWTSecret c) = Inr claims
        \<and> next_handler (claims_context claims) = Invoke ctx)"
  unfolding jwt_group_def jwtMiddleware_def claims_context_def
  by (cases "CutPrefix hdr ''Bearer ''") (auto simp: cut_bearer [symmetric] split: sum.split)

lemma requireMinRole_Invoke:
  "requireMinRole r Invoke (claims_context claims) = Invoke ctx
     \<longleftrightarrow> RoleLevel r \<le> RoleLevel (cl_Role claims) \<and> ctx = claims_context claims"
  by (auto simp: requireMinRole_def)

lemma role_levels: "RoleLevel ''admin'' = 3" "RoleLevel ''operator'' = 2" "RoleLevel ''viewer'' = 1"
  by (simp_all add: RoleLevel_def)

lemma guarded_on:
  assumes "au_Enabled c" and "g \<noteq> Public"
  shows "guarded lib now (Some c) g hdr = Invoke ctx \<longleftrightarrow>
    (\<exists>tok claims. hdr = bearer tok \<and> ValidateToken lib now tok (au_JWTSecret c) = Inr claims
       \<and> ctx = claims_context claims \<and> guard_level g \<le> RoleLevel (cl_Role claims))"
  using assms
  by (cases g)
    (auto simp: jwt_group_on auth_on_def operatorOrOpen_def adminOrOpen_def requireMinRole_Invoke role_levels)

text \<open>Whatever the settings and the token, the handler finds no user name in its context.\<close>

lemma guarded_username:
  assumes "guarded lib now cfg g hdr = Invoke ctx"
  shows "username_of ctx = []"
proof (cases "auth_on cfg \<and> g \<noteq> Public")
  case True
  then obtain c where "cfg = Some c" "au_Enabled c" by (auto simp: auth_on_def split: option.splits)
  then show ?thesis using assms True guarded_on [of c g lib now hdr ctx] by auto
next
  case False
  then have "ctx = []" using assms
    by (cases g) (auto simp: jwt_group_def auth_on_def operatorOrOpen_def adminOrOpen_def split: option.splits if_splits)
  then show ?thesis by simp
qed

lemma serve_Invoke:
  "snd (serve lib now cfg allowed origin meth hdr rt) = Invoke ctx \<longleftrightarrow>
     guarded lib now cfg (rt_guard rt) hdr = Invoke ctx
     \<and> \<not> (meth = ''OPTIONS'' \<and> origin \<noteq> [] \<and> (''*'' \<in> set allowed \<or> origin \<in> set allowed))"
  by (auto simp: serve_def corsMiddleware_def Let_def)

text \<open>Every protected entry is behind the token check, and every write needs a role.\<close>

lemma table_guards:
  "list_all (\<lambda>rt. rt_guard rt \<noteq> Public) protected_routes"
  "list_all (\<lambda>rt. rt_method rt \<in> {''GET'', ''*''} \<or> rt_path rt = ''/v1/auth/login'' \<or> rt_path rt = ''/v1/auth/refresh''
     \<or> rt_guard rt = OperatorOrOpen \<or> rt_guard rt = AdminOrOpen) all_routes"
  by (simp_all add: all_routes_def public_routes_def protected_routes_def GET_def POST_def PATCH_def DELETE_def)

lemma user_routes:
  "list_all (\<lambda>rt. HasPrefix (rt_path rt) ''/v1/users'' \<longrightarrow> rt_guard rt = AdminOrOpen) all_routes"
  by code_simp

subsection \<open>The JWT library\<close>

text \<open>
  What golang-jwt documents: a token signed with HS256 belongs to the HMAC family, parses with
  the same key to its claims until it expires, and to an error from then on. It is asked for claims
  whose times are numeric dates, as those of \<open>GenerateToken\<close> are; others lose their fraction.
\<close>

definition numeric_dates :: "jwt_lib \<Rightarrow> Claims \<Rightarrow> bool" where
  "numeric_dates lib c \<longleftrightarrow> (\<exists>t. cl_ExpiresAt c = jl_date lib t) \<and> (\<exists>t. cl_IssuedAt c = jl_date lib t)"

definition jwt_ok :: "jwt_lib \<Rightarrow> bool" where
  "jwt_ok lib \<longleftrightarrow> (\<forall>c k t. jl_sign lib c k = Inr t \<longrightarrow> numeric_dates lib c \<longrightarrow> jl_hmac lib t
     \<and> (\<forall>now. if now < cl_ExpiresAt c then jl_parse lib now t (Some k) = Inr (c, True)
              else (\<exists>err. jl_parse lib now t (Some k) = Inl err)))"

lemma ValidateToken_signed:
  assumes "jwt_ok lib" and "jl_sign lib c k = Inr t" and "numeric_dates lib c"
  shows "ValidateToken lib now t k = Inr c' \<longleftrightarrow> now < cl_ExpiresAt c \<and> c' = c"
proof (cases "now < cl_ExpiresAt c")
  case True
  then have "jl_hmac lib t" "jl_parse lib now t (Some k) = Inr (c, True)" using assms unfolding jwt_ok_def by metis+
  then show ?thesis using True by (auto simp: ValidateToken_def)
next
  case False
  then obtain err where "jl_hmac lib t" "jl_parse lib now t (Some k) = Inl err" using assms unfolding jwt_ok_def by metis
  then show ?thesis using False by (simp add: ValidateToken_def)
qed

lemma login_granted:
  assumes "Login lib cmp clk (Some cfg) us rq (Inr req) s = (Reply 200 resp, s')"
  obtains expiry role where "Users_Verify cmp (lr_Username req) (lr_Password req) us = (role, True)"
    and "expiry = (if login_expiry cfg \<le> 0 then DefaultExpiry else login_expiry cfg)"
    and "jl_sign lib \<lparr>cl_UserID = lr_Username req, cl_Role = role,
           cl_ExpiresAt = jl_date lib (time_Add (clk 0) expiry), cl_IssuedAt = jl_date lib (clk 1),
           cl_Subject = lr_Username req\<rparr> (au_JWTSecret cfg) = Inr (lp_Token resp)"
    and "lp_Role resp = role" and "au_Enabled cfg"
    and "s' = loginAuditRecord (clk 2) (lr_Username req) role (rq_remote rq) True [] s"
proof -
  obtain role ok where v: "Users_Verify cmp (lr_Username req) (lr_Password req) us = (role, ok)" by fastforce
  show ?thesis
    using assms v
    by (intro that)
      (auto simp: Login_def GenerateToken_def Let_def http_simps split: if_splits sum.splits)
qed

subsection \<open>Properties\<close>

text \<open>
  What a request needs, told by method and path alone: the pages, the health checks, the metrics and the
  login are open; the user management, the export, the login trail and the reloading of the settings
  need an administrator; everything else that is not a \<open>GET\<close>, but the token refresh, and three
  reports need an operator; the rest any token.
\<close>

datatype access = Open | Token | Role string

definition access_policy :: "string \<Rightarrow> string \<Rightarrow> access" where
  "access_policy meth path =
     (if \<not> HasPrefix path ''/v1/'' \<or> HasPrefix path ''/v1/health'' \<or> path = ''/v1/metrics'' \<or> path = ''/v1/auth/login'' then Open
      else if HasPrefix path ''/v1/users'' \<or> path = ''/v1/events/export'' \<or> path = ''/v1/auth/login-audit''
        \<or> path = ''/v1/config/reload'' then Role ''admin''
      else if meth \<noteq> ''GET'' \<and> path \<noteq> ''/v1/auth/refresh'' \<or> HasPrefix path ''/v1/dashboard/tenant/''
        \<or> path = ''/v1/dead-letter'' \<or> path = ''/v1/audit/verify'' then Role ''operator''
      else Token)"

definition policy_answer :: "jwt_lib \<Rightarrow> gotime \<Rightarrow> AuthConfig option \<Rightarrow> string \<Rightarrow> access \<Rightarrow> outcome" where
  "policy_answer lib now cfg hdr acc =
     (case cfg of
        None \<Rightarrow> Invoke []
      | Some c \<Rightarrow>
          if \<not> au_Enabled c \<or> acc = Open then Invoke []
          else if \<not> HasPrefix hdr ''Bearer '' then Denied 401 ''missing Bearer token''
          else case ValidateToken lib now (drop 7 hdr) (au_JWTSecret c) of
                 Inl err \<Rightarrow> Denied 401 (''invalid token: '' @ err)
               | Inr claims \<Rightarrow>
                   (case acc of
                      Role need \<Rightarrow>
                        if RoleLevel (cl_Role claims) < RoleLevel need
                        then Denied 403 (''role '' @ [CHR 0x27] @ cl_Role claims @ [CHR 0x27]
                               @ '' is insufficient; need at least '' @ [CHR 0x27] @ need @ [CHR 0x27])
                        else Invoke (claims_context claims)
                    | _ \<Rightarrow> Invoke (claims_context claims)))"

fun guard_access :: "guard \<Rightarrow> access" where
  "guard_access Public = Open"
| "guard_access AnyToken = Token"
| "guard_access OperatorOrOpen = Role ''operator''"
| "guard_access AdminOrOpen = Role ''admin''"

lemma guarded_answer: "guarded lib now cfg g hdr = policy_answer lib now cfg hdr (guard_access g)"
proof -
  have cut: "CutPrefix hdr ''Bearer '' = (if HasPrefix hdr ''Bearer '' then Some (drop 7 hdr) else None)"
    by (simp add: CutPrefix_def eval_nat_numeral)
  show ?thesis
    by (cases g; cases cfg)
      (simp_all add: policy_answer_def jwt_group_def jwtMiddleware_def operatorOrOpen_def adminOrOpen_def auth_on_def
        requireMinRole_def claims_context_def [symmetric] cut split: sum.split)
qed

text \<open>The table of \<open>routes()\<close>, entry by entry, follows the policy.\<close>

lemma table_policy: "list_all (\<lambda>rt. guard_access (rt_guard rt) = access_policy (rt_method rt) (rt_path rt)) all_routes"
  by code_simp

text \<open>
  C6: what the server answers before any handler runs. For every entry of the route table, with
  authentication on or off, any header and origin: a preflight from an allowed origin ends there; otherwise
  the answer is the one the policy above has for the entry's method and path, with its status and
  message: 401 without a bearer token or with one that does not validate under the configured secret,
  403 when the role is below the one needed, and else the handler, whose context holds the
  claims. With authentication off, and on open routes, every request reaches its handler.
\<close>

theorem access_decision:
  assumes "rt \<in> set all_routes"
  shows "snd (serve lib now cfg allowed origin meth hdr rt) =
    (if meth = ''OPTIONS'' \<and> origin \<noteq> [] \<and> (''*'' \<in> set allowed \<or> origin \<in> set allowed) then Preflight
     else policy_answer lib now cfg hdr (access_policy (rt_method rt) (rt_path rt)))"
proof -
  have "guard_access (rt_guard rt) = access_policy (rt_method rt) (rt_path rt)"
    using table_policy assms unfolding list_all_iff by blast
  then show ?thesis by (auto simp: serve_def corsMiddleware_def guarded_answer Let_def)
qed

text \<open>
  Nothing is changed without a role. With authentication on, every route of the table that is
  not a read (the metrics page and the static files, which take any method, only read), other than
  the login and the token refresh, reaches its handler only for an operator or administrator, and
  the routes of the user management only for an administrator.
\<close>

theorem writes_need_role:
  assumes "au_Enabled c" and "rt \<in> set all_routes"
    and "snd (serve lib now (Some c) allowed origin meth hdr rt) = Invoke ctx"
    and "rt_method rt \<notin> {''GET'', ''*''} \<and> rt_path rt \<notin> {''/v1/auth/login'', ''/v1/auth/refresh''}
         \<or> HasPrefix (rt_path rt) ''/v1/users''"
  shows "\<exists>claims. claims_of ctx = Some claims
    \<and> (if HasPrefix (rt_path rt) ''/v1/users'' then cl_Role claims = ''admin''
       else cl_Role claims = ''admin'' \<or> cl_Role claims = ''operator'')"
proof -
  have inv: "guarded lib now (Some c) (rt_guard rt) hdr = Invoke ctx" using assms(3) unfolding serve_Invoke by blast
  show ?thesis
  proof (cases "HasPrefix (rt_path rt) ''/v1/users''")
    case True
    have g: "rt_guard rt = AdminOrOpen"
      using user_routes assms(2) True unfolding list_all_iff by blast
    obtain claims where "claims_of ctx = Some claims" "3 \<le> RoleLevel (cl_Role claims)"
      using inv guarded_on [OF assms(1), of "rt_guard rt"] by (auto simp: g)
    then show ?thesis using True by (auto simp: RoleLevel_def split: if_splits)
  next
    case False
    have "rt_guard rt = OperatorOrOpen \<or> rt_guard rt = AdminOrOpen"
      using table_guards(2) assms(2,4) False unfolding list_all_iff by blast
    then have "rt_guard rt \<noteq> Public" "2 \<le> guard_level (rt_guard rt)" by auto
    then obtain claims where "claims_of ctx = Some claims" "2 \<le> RoleLevel (cl_Role claims)"
      using inv guarded_on [OF assms(1), of "rt_guard rt"] by auto
    then show ?thesis using False by (auto simp: RoleLevel_def split: if_splits)
  qed
qed

text \<open>
  A login is worth the user's role until the token expires. The token of a successful login
  opens a protected route at any later time before its expiry exactly when the role the user had
  at login reaches the level of the route, and nothing from the expiry on; the login itself is
  the newest entry of the login trail.
\<close>

theorem login_opens_routes:
  assumes "jwt_ok lib" and "Login lib cmp clk (Some cfg) us rq (Inr req) s = (Reply 200 resp, s')"
    and "rt \<in> set protected_routes" and "logins_ok s"
    and "expiry = (if login_expiry cfg \<le> 0 then DefaultExpiry else login_expiry cfg)"
  shows "((\<exists>ctx. guarded lib now (Some cfg) (rt_guard rt) (bearer (lp_Token resp)) = Invoke ctx) \<longleftrightarrow>
      now < jl_date lib (time_Add (clk 0) expiry)
      \<and> guard_level (rt_guard rt) \<le> RoleLevel (fst (Users_Verify cmp (lr_Username req) (lr_Password req) us)))
    \<and> st_loginAudit s' \<noteq> [] \<and> la_Username (last (st_loginAudit s')) = lr_Username req
      \<and> la_Success (last (st_loginAudit s'))"
proof -
  from login_granted [OF assms(2)] obtain role where
    v: "Users_Verify cmp (lr_Username req) (lr_Password req) us = (role, True)" and
    sg: "jl_sign lib \<lparr>cl_UserID = lr_Username req, cl_Role = role,
           cl_ExpiresAt = jl_date lib (time_Add (clk 0) expiry), cl_IssuedAt = jl_date lib (clk 1),
           cl_Subject = lr_Username req\<rparr> (au_JWTSecret cfg) = Inr (lp_Token resp)" and
    en: "au_Enabled cfg" and
    s': "s' = loginAuditRecord (clk 2) (lr_Username req) role (rq_remote rq) True [] s"
    using assms(5) by metis
  have nd: "numeric_dates lib \<lparr>cl_UserID = lr_Username req, cl_Role = role,
      cl_ExpiresAt = jl_date lib (time_Add (clk 0) expiry), cl_IssuedAt = jl_date lib (clk 1), cl_Subject = lr_Username req\<rparr>"
    by (auto simp: numeric_dates_def)
  have "rt_guard rt \<noteq> Public" using table_guards(1) assms(3) by (simp add: list_all_iff)
  from guarded_on [OF en this] have "(\<exists>ctx. guarded lib now (Some cfg) (rt_guard rt) (bearer (lp_Token resp)) = Invoke ctx) \<longleftrightarrow>
      now < jl_date lib (time_Add (clk 0) expiry)
      \<and> guard_level (rt_guard rt) \<le> RoleLevel (fst (Users_Verify cmp (lr_Username req) (lr_Password req) us))"
    by (auto simp: v bearer_def ValidateToken_signed [OF assms(1) sg nd])
  moreover have "st_loginAudit s' \<noteq> [] \<and> la_Username (last (st_loginAudit s')) = lr_Username req
      \<and> la_Success (last (st_loginAudit s'))"
    using logins.newest_kept [OF assms(4)] by (simp add: s' loginAuditRecord_def)
  ultimately show ?thesis by blast
qed

text \<open>
  CORS headers go to allowed origins only. The header that lets a browser read the reply is
  sent exactly for a non-empty origin that is listed, or any when \<open>*\<close> is listed, and names that
  origin or \<open>*\<close>; an empty list sends nothing and never answers a preflight.
\<close>

theorem cors_allowed_only:
  "((''Access-Control-Allow-Origin'', v) \<in> set (fst (corsMiddleware allowed origin meth out)) \<longleftrightarrow>
      origin \<noteq> [] \<and> (if ''*'' \<in> set allowed then v = ''*'' else origin \<in> set allowed \<and> v = origin))
   \<and> corsMiddleware [] origin meth out = ([], out)"
  by (auto simp: corsMiddleware_def Let_def)

text \<open>A library with one token.\<close>

definition demo_claims :: Claims where
  "demo_claims = \<lparr>cl_UserID = ''bob'', cl_Role = ''operator'', cl_ExpiresAt = 100 + DefaultExpiry, cl_IssuedAt = 100,
     cl_Subject = ''bob''\<rparr>"

definition demo_jwt :: jwt_lib where
  "demo_jwt =
     \<lparr>jl_sign = (\<lambda>c k. if c = demo_claims \<and> k = ''k'' then Inr ''tok'' else Inl ''no''),
      jl_hmac = (\<lambda>t. True), jl_date = (\<lambda>t. t),
      jl_parse = (\<lambda>now t k. if t = ''tok'' \<and> k = Some ''k'' \<and> now < cl_ExpiresAt demo_claims
                  then Inr (demo_claims, True) else Inl ''bad token'')\<rparr>"

lemma demo_jwt_ok: "jwt_ok demo_jwt"
  by (simp add: jwt_ok_def numeric_dates_def demo_jwt_def)

definition demo_auth :: AuthConfig where
  "demo_auth = \<lparr>au_Enabled = True, au_JWTSecret = ''k'', au_JWTExpiry = [], au_RefreshExpiry = [],
     au_RequireBcrypt = False, au_Users = []\<rparr>"

definition demo_staff :: Users where
  "demo_staff = Users_New 5 [\<lparr>uc_Name = ''bob'', uc_Password = ''pw'', uc_Role = ''operator''\<rparr>]"

definition demo_route :: route where
  "demo_route = POST ''/v1/events'' OperatorOrOpen"

lemma demo_route_in: "demo_route \<in> set protected_routes"
  by (simp add: demo_route_def protected_routes_def)

lemma access_decision_witness:
  "snd (serve demo_jwt 200 (Some demo_auth) [] [] ''POST'' (bearer ''tok'') demo_route) = Invoke (claims_context demo_claims)
   \<and> snd (serve demo_jwt 200 (Some demo_auth) [] [] ''POST'' (bearer ''other'') demo_route) = Denied 401 ''invalid token: bad token''"
proof -
  have rt: "demo_route \<in> set all_routes" using demo_route_in by (simp add: all_routes_def)
  have "policy_answer demo_jwt 200 (Some demo_auth) (bearer ''tok'') (access_policy (rt_method demo_route) (rt_path demo_route))
      = Invoke (claims_context demo_claims)"
    "policy_answer demo_jwt 200 (Some demo_auth) (bearer ''other'') (access_policy (rt_method demo_route) (rt_path demo_route))
      = Denied 401 ''invalid token: bad token''" by code_simp+
  then show ?thesis unfolding access_decision [OF rt] by simp
qed

lemma writes_need_role_witness:
  "cl_Role demo_claims = ''admin'' \<or> cl_Role demo_claims = ''operator''"
proof -
  have en: "au_Enabled demo_auth" by (simp add: demo_auth_def)
  have rt: "demo_route \<in> set all_routes" using demo_route_in by (simp add: all_routes_def)
  have inv: "snd (serve demo_jwt 200 (Some demo_auth) [] [] ''POST'' (bearer ''tok'') demo_route) = Invoke (claims_context demo_claims)"
    by code_simp
  have m: "rt_method demo_route \<notin> {''GET'', ''*''} \<and> rt_path demo_route \<notin> {''/v1/auth/login'', ''/v1/auth/refresh''}"
    by (simp add: demo_route_def POST_def)
  from writes_need_role [OF en rt inv disjI1 [OF m]] show ?thesis by (auto split: if_splits)
qed

lemma login_opens_routes_witness:
  "\<exists>ctx. guarded demo_jwt 200 (Some demo_auth) (rt_guard demo_route) (bearer ''tok'') = Invoke ctx"
proof -
  let ?rq = "\<lparr>rq_query = [], rq_param = (\<lambda>_. []), rq_remote = ''ip''\<rparr>"
  let ?req = "\<lparr>lr_Username = ''bob'', lr_Password = ''pw''\<rparr>"
  let ?s = "Store_New 1"
  let ?resp = "\<lparr>lp_Token = ''tok'', lp_ExpiresIn = duration_text (login_expiry demo_auth), lp_Role = ''operator''\<rparr>"
  let ?s' = "snd (Login demo_jwt (\<lambda>h p. False) (\<lambda>i. 100) (Some demo_auth) demo_staff ?rq (Inr ?req) ?s)"
  have "fst (Login demo_jwt (\<lambda>h p. False) (\<lambda>i. 100) (Some demo_auth) demo_staff ?rq (Inr ?req) ?s) = Reply 200 ?resp"
    by code_simp
  then have lg: "Login demo_jwt (\<lambda>h p. False) (\<lambda>i. 100) (Some demo_auth) demo_staff ?rq (Inr ?req) ?s = (Reply 200 ?resp, ?s')"
    by (metis prod.collapse)
  have lo: "logins_ok ?s" by (simp add: Store_New_def)
  note th = login_opens_routes [OF demo_jwt_ok lg demo_route_in lo refl, of 200]
  have "(200::int) < jl_date demo_jwt (time_Add 100 (if login_expiry demo_auth \<le> 0 then DefaultExpiry else login_expiry demo_auth))"
    "guard_level (rt_guard demo_route) \<le> RoleLevel (fst (Users_Verify (\<lambda>h p. False) (lr_Username ?req) (lr_Password ?req) demo_staff))"
    by code_simp+
  then show ?thesis using th by simp
qed

end
