(* ===== verification/Config.thy ===== *)
theory Config
  imports Anomaly Monitor Auth Stats
begin

text \<open>
  internal/config/config.go: the settings, their defaults, what \<open>Load\<close> makes of a file and the
  environment, and the check that refuses insecure settings. The YAML reader is a parameter that
  updates the defaults. \<open>buildComponents\<close> of src/cmd/tracker-cli/main.go, which turns settings into the
  running components, is here as well.
\<close>

record ServerConfig =
  sv_RESTPort :: int
  sv_GRPCPort :: int
  sv_WebSocketPort :: int
  sv_UIPort :: int
  sv_CORSAllowedOrigins :: "string list"
  sv_TrustProxy :: bool

record NATSConfig =
  nc_URL :: string
  nc_Subjects :: "string list"
  nc_MaxPending :: int

record StorageConfig =
  so_PostgreSQLURL :: string
  so_RetentionDays :: int
  so_MaxEventsMemory :: int
  so_AuditSecret :: string

record RealtimeConfig =
  rc_MaxConnections :: int
  rc_HeartbeatInterval :: string
  rc_BufferSize :: int

record EmailConfig =
  em_SMTPHost :: string
  em_SMTPPort :: int
  em_From :: string
  em_To :: "string list"
  em_Username :: string
  em_Password :: string

record SlackConfig =
  sk_WebhookURL :: string

record WebhookConfig =
  wk_URL :: string

record AlertingConfig =
  lc_Enabled :: bool
  lc_Rules :: "AlertRule list"
  lc_Slack :: SlackConfig
  lc_Email :: EmailConfig
  lc_Webhook :: WebhookConfig

record DemoConfig =
  dc_Enabled :: bool
  dc_ScenariosPath :: string
  dc_DefaultSpeed :: rat

record PipelineConfig =
  pc_Full :: "string list"
  pc_Lite :: "string list"
  pc_Minimal :: "string list"

record LoggingConfig =
  lo_Level :: string
  lo_Format :: string

record MetricsConfig =
  me_Enabled :: bool
  me_Port :: int

record BypassMonitorConfig =
  bc_Enabled :: bool
  bc_SensitiveLabels :: "string list"

record Config =
  cf_Version :: string
  cf_Server :: ServerConfig
  cf_NATS :: NATSConfig
  cf_Storage :: StorageConfig
  cf_Realtime :: RealtimeConfig
  cf_Alerting :: AlertingConfig
  cf_Demo :: DemoConfig
  cf_Pipelines :: PipelineConfig
  cf_Auth :: AuthConfig
  cf_Logging :: LoggingConfig
  cf_Metrics :: MetricsConfig
  cf_BypassMonitor :: BypassMonitorConfig
  cf_Monitor :: MonitorConfig
  cf_Anomaly :: AnomalyConfig
  cf_DevMode :: bool

definition alert_rule :: "string \<Rightarrow> string \<Rightarrow> string \<Rightarrow> AlertRule" where
  "alert_rule name condition severity =
     \<lparr>ru_Name = name, ru_Condition = condition, ru_Severity = severity, ru_Channels = [], ru_EscalateAfter = [],
      ru_AutoResolveAfter = []\<rparr>"

definition default_rules :: "AlertRule list" where
  "default_rules =
     [alert_rule ''honey_token_triggered'' ''security.honey_token_triggered'' ''critical'',
      alert_rule ''prompt_injection_detected'' ''sentinel.prompt_injection_detected'' ''warning'',
      alert_rule ''cross_tenant_attempt'' ''vault.cross_tenant_attempt'' ''warning'',
      alert_rule ''module_degraded'' ''system.module_degraded'' ''warning'',
      alert_rule ''any_critical_event'' ''severity:critical'' ''critical'']"

definition Defaults :: Config where
  "Defaults =
     \<lparr>cf_Version = ''3.0'',
      cf_Server = \<lparr>sv_RESTPort = 8080, sv_GRPCPort = 9090, sv_WebSocketPort = 8081, sv_UIPort = 3000,
        sv_CORSAllowedOrigins = [], sv_TrustProxy = False\<rparr>,
      cf_NATS = \<lparr>nc_URL = ''nats://localhost:4222'', nc_Subjects = [''bastion.events.>''], nc_MaxPending = 100000\<rparr>,
      cf_Storage = \<lparr>so_PostgreSQLURL = [], so_RetentionDays = 30, so_MaxEventsMemory = 10000, so_AuditSecret = []\<rparr>,
      cf_Realtime = \<lparr>rc_MaxConnections = 1000, rc_HeartbeatInterval = ''30s'', rc_BufferSize = 1000\<rparr>,
      cf_Alerting = \<lparr>lc_Enabled = True, lc_Rules = default_rules, lc_Slack = \<lparr>sk_WebhookURL = []\<rparr>,
        lc_Email = \<lparr>em_SMTPHost = [], em_SMTPPort = 0, em_From = [], em_To = [], em_Username = [], em_Password = []\<rparr>,
        lc_Webhook = \<lparr>wk_URL = []\<rparr>\<rparr>,
      cf_Demo = \<lparr>dc_Enabled = True, dc_ScenariosPath = ''./scenarios'', dc_DefaultSpeed = 1\<rparr>,
      cf_Pipelines = \<lparr>pc_Full = [''sentinel'', ''vault'', ''navigator'', ''anchor'', ''llm''],
        pc_Lite = [''sentinel'', ''navigator'', ''anchor'', ''llm''], pc_Minimal = [''sentinel'', ''navigator'', ''llm'']\<rparr>,
      cf_Auth = \<lparr>au_Enabled = False, au_JWTSecret = [], au_JWTExpiry = ''8h'', au_RefreshExpiry = ''168h'',
        au_RequireBcrypt = False,
        au_Users = [\<lparr>uc_Name = ''admin'', uc_Password = ''admin'', uc_Role = ''admin''\<rparr>,
          \<lparr>uc_Name = ''ops'', uc_Password = ''ops'', uc_Role = ''operator''\<rparr>,
          \<lparr>uc_Name = ''viewer'', uc_Password = ''viewer'', uc_Role = ''viewer''\<rparr>]\<rparr>,
      cf_Logging = \<lparr>lo_Level = ''info'', lo_Format = ''json''\<rparr>,
      cf_Metrics = \<lparr>me_Enabled = True, me_Port = 9091\<rparr>,
      cf_BypassMonitor = \<lparr>bc_Enabled = True,
        bc_SensitiveLabels = [''pii'', ''sensitive'', ''confidential'', ''restricted'']\<rparr>,
      cf_Monitor = \<lparr>mc_Mode = ''off'', mc_SessionRetentionHours = 24, mc_CheckpointTimeoutSec = 300,
        mc_AutoApproveOnTimeout = False\<rparr>,
      cf_Anomaly = \<lparr>ac_Enabled = True, ac_SigmaThreshold = 3, ac_WindowHours = 1, ac_HighFreqUserLimit = 30,
        ac_RepeatedBlockWindow = ''5m'', ac_RepeatedBlockCount = 3, ac_ActiveHoursStart = 0, ac_ActiveHoursEnd = 0\<rparr>,
      cf_DevMode = False\<rparr>"

text \<open>
  \<open>Load\<close>: an unreadable file is skipped, an unparsable one ends the loading with what the reader
  left behind, and the two environment variables come last.
\<close>

definition Load :: "(string \<Rightarrow> Config \<Rightarrow> Config \<times> string option) \<Rightarrow> string option \<Rightarrow> string \<Rightarrow> string \<Rightarrow> Config \<times> string option" where
  "Load yaml file env_audit env_jwt =
     (let (cfg, err) = (case file of None \<Rightarrow> (Defaults, None) | Some data \<Rightarrow> yaml data Defaults)
      in if err \<noteq> None then (cfg, err)
         else let cfg1 = (if env_audit \<noteq> [] then cfg\<lparr>cf_Storage := (cf_Storage cfg)\<lparr>so_AuditSecret := env_audit\<rparr>\<rparr> else cfg);
                  cfg2 = (if env_jwt \<noteq> [] then cfg1\<lparr>cf_Auth := (cf_Auth cfg1)\<lparr>au_JWTSecret := env_jwt\<rparr>\<rparr> else cfg1)
              in (cfg2, None))"

definition minSecretLen :: nat where "minSecretLen = 32"

datatype insecure = BadAuditSecret | BadJWTSecret | PlainPassword string

fun plain_user :: "UserConfig list \<Rightarrow> insecure option" where
  "plain_user [] = None"
| "plain_user (u # us) =
     (if \<not> HasPrefix (uc_Password u) ''$2'' then Some (PlainPassword (uc_Name u)) else plain_user us)"

definition ValidateSecurity :: "Config \<Rightarrow> insecure option" where
  "ValidateSecurity c =
     (if cf_DevMode c then None
      else if length (so_AuditSecret (cf_Storage c)) < minSecretLen then Some BadAuditSecret
      else if \<not> au_Enabled (cf_Auth c) then None
      else let s = au_JWTSecret (cf_Auth c) in
           if length s < minSecretLen \<or> s = ''change-me-in-production'' then Some BadJWTSecret
           else plain_user (au_Users (cf_Auth c)))"

subsection \<open>Building the components\<close>

text \<open>The channels that have a notifier, as the dispatcher sees them.\<close>

definition buildNotifiers :: "AlertingConfig \<Rightarrow> string list" where
  "buildNotifiers cfg =
     (if sk_WebhookURL (lc_Slack cfg) \<noteq> [] then [''slack''] else [])
     @ (if em_SMTPHost (lc_Email cfg) \<noteq> [] \<and> em_From (lc_Email cfg) \<noteq> [] \<and> em_To (lc_Email cfg) \<noteq> [] then [''email''] else [])
     @ (if wk_URL (lc_Webhook cfg) \<noteq> [] then [''webhook''] else [])"

record components =
  co_proc :: Processor
  co_hub :: Hub
  co_monitor :: Monitor
  co_detector :: "Detector option"
  co_channels :: "string list"

definition buildComponents :: "(nat \<Rightarrow> gotime) \<Rightarrow> Config \<Rightarrow> components" where
  "buildComponents clk cfg =
     (let s = Store_New (so_MaxEventsMemory (cf_Storage cfg));
          (ht, s1) = SeedDefaults clk (\<lparr>hm_seq = 0\<rparr>, s);
          p0 = Processor_New s1 \<lparr>am_rules = lc_Rules (cf_Alerting cfg), am_seq = 0\<rparr> \<lparr>im_seq = 0\<rparr> ht;
          p1 = SetSigner (Signer_New (so_AuditSecret (cf_Storage cfg))) p0;
          p2 = SetValidator \<lparr>va_deadLetters = []\<rparr> p1;
          p3 = (if bc_Enabled (cf_BypassMonitor cfg)
                then SetBypassMonitor (Bypass_New (bc_SensitiveLabels (cf_BypassMonitor cfg)) True) p2 else p2)
      in \<lparr>co_proc = p3, co_hub = Hub_New (rc_BufferSize (cf_Realtime cfg)),
          co_monitor = SetBroadcast (Monitor_New (cf_Monitor cfg)),
          co_detector = (if ac_Enabled (cf_Anomaly cfg) then Some (Detector_New (cf_Anomaly cfg)) else None),
          co_channels = buildNotifiers (cf_Alerting cfg)\<rparr>)"

subsection \<open>What the security check guarantees\<close>

lemma plain_user_None: "plain_user us = None \<longleftrightarrow> list_all (\<lambda>u. HasPrefix (uc_Password u) ''$2'') us"
  by (induction us) auto

text \<open>The placeholder is shorter than the least length, so the test for it never decides.\<close>

lemma placeholder_short: "length ''change-me-in-production'' < minSecretLen"
  by (simp add: minSecretLen_def)

lemma ValidateSecurity_None:
  "ValidateSecurity c = None \<longleftrightarrow> cf_DevMode c
     \<or> minSecretLen \<le> length (so_AuditSecret (cf_Storage c))
       \<and> (au_Enabled (cf_Auth c) \<longrightarrow> minSecretLen \<le> length (au_JWTSecret (cf_Auth c))
            \<and> list_all (\<lambda>u. HasPrefix (uc_Password u) ''$2'') (au_Users (cf_Auth c)))"
  using placeholder_short unfolding ValidateSecurity_def Let_def plain_user_None [symmetric]
  by (auto simp: not_less)

lemma Defaults_refused: "ValidateSecurity Defaults = Some BadAuditSecret"
  by (simp add: ValidateSecurity_def Defaults_def minSecretLen_def)

subsection \<open>The components at start-up\<close>

lemma SeedDefaults_parts:
  assumes "SeedDefaults clk (\<lparr>hm_seq = 0\<rparr>, Store_New n) = (ht, s)"
  shows "honey_inv (hm_seq ht) s \<and> same_ring (Store_New n) s \<and> st_incidents s = [] \<and> st_alerts s = []"
proof -
  let ?c1 = "HT_Create (clk 1) ''Fake CEO Email''
            ''Decoy CEO email address for intrusion detection'' ''customer_database'' ''email'' (\<lparr>hm_seq = 0\<rparr>, Store_New n)"
  obtain t1 m1 s1 where c1: "?c1 = (t1, m1, s1)" by (metis prod_cases3)
  let ?c2 = "HT_Create (clk 2) ''Fake API Key'' ''Decoy API key placed in HR database'' ''hr_database'' ''credential'' (m1, s1)"
  obtain t2 m2 s2 where c2: "?c2 = (t2, m2, s2)" by (metis prod_cases3)
  let ?c3 = "HT_Create (clk 3) ''Fake Customer Record''
            ''Hong Gildong with fake SSN in customer DB'' ''customer_database'' ''identity'' (m2, s2)"
  obtain t3 m3 s3 where c3: "?c3 = (t3, m3, s3)" by (metis prod_cases3)
  have r: "ht = m3" "s = s3" using assms unfolding SeedDefaults_def c1 Let_def split_conv c2 c3 by simp_all
  have "honey_inv (hm_seq m1) s1" using honey_inv_Create [OF _ c1] honey_inv_New by simp
  then have "honey_inv (hm_seq m2) s2" using honey_inv_Create [OF _ c2] by simp
  then have "honey_inv (hm_seq m3) s3" using honey_inv_Create [OF _ c3] by simp
  moreover have "same_ring (Store_New n) s3 \<and> st_incidents s3 = st_incidents (Store_New n) \<and> st_alerts s3 = st_alerts (Store_New n)"
    using c1 c2 c3 by (auto simp: HT_Create_def AddToken_def same_ring_def Let_def)
  ultimately show ?thesis by (simp add: r Store_New_def Let_def)
qed

lemma started_inv:
  "tracker_inv mac (co_proc (buildComponents clk cfg))"
  "pr_signer (co_proc (buildComponents clk cfg)) = Some (Signer_New (so_AuditSecret (cf_Storage cfg)))"
  "pr_validator (co_proc (buildComponents clk cfg)) \<noteq> None"
proof -
  let ?n = "so_MaxEventsMemory (cf_Storage cfg)"
  obtain ht s where sd: "SeedDefaults clk (\<lparr>hm_seq = 0\<rparr>, Store_New ?n) = (ht, s)" by fastforce
  note parts = SeedDefaults_parts [OF sd]
  have ring: "ring_ok s" "newest s = []"
    using parts ring_ok_New [of ?n] same_ring_newest [of "Store_New ?n" s] by simp_all
  show "tracker_inv mac (co_proc (buildComponents clk cfg))"
    using parts ring sd
    by (simp add: buildComponents_def tracker_inv_def SetValidator_def SetSigner_def SetBypassMonitor_def
        Processor_New_def issued_def GetIncident_def alerts_inv_def GetAlert_def Let_def)
  show "pr_signer (co_proc (buildComponents clk cfg)) = Some (Signer_New (so_AuditSecret (cf_Storage cfg)))"
    "pr_validator (co_proc (buildComponents clk cfg)) \<noteq> None"
    using sd by (simp_all add: buildComponents_def SetValidator_def SetSigner_def SetBypassMonitor_def Processor_New_def Let_def)
qed

subsection \<open>Properties\<close>

text \<open>
  The started program satisfies the invariants that the other properties rest on. Whatever the
  settings, after start-up and any events every stored event is valid and carries the signature of
  the configured key, and the hub and the gate start in order.
\<close>

theorem started_tracker_sound:
  assumes "mac_ok mac" and "list_all (\<lambda>(env, ev). env_ok env) evs"
    and "p = process_all mac marshal evs (co_proc (buildComponents clk cfg))"
  shows "tracker_inv mac p
    \<and> list_all (\<lambda>ev. Validate ev = None \<and> Verify mac (Signer_New (so_AuditSecret (cf_Storage cfg))) ev) (newest (pr_store p))
    \<and> hub_inv (co_hub (buildComponents clk cfg)) \<and> gate_inv leave (co_monitor (buildComponents clk cfg))"
proof -
  let ?start = "co_proc (buildComponents clk cfg)"
  have inv: "tracker_inv mac p"
    unfolding assms(3) by (rule tracker_inv_process_all [OF started_inv(1) assms(1)]) (use assms(2) in \<open>simp add: list_all_iff\<close>)
  have "pr_signer p = Some (Signer_New (so_AuditSecret (cf_Storage cfg)))" "pr_validator p \<noteq> None"
    using process_all_keeps [of mac marshal evs ?start] started_inv(2,3) [of clk cfg] by (simp_all add: assms(3))
  then have "list_all (\<lambda>ev. Validate ev = None \<and> Verify mac (Signer_New (so_AuditSecret (cf_Storage cfg))) ev) (newest (pr_store p))"
    using inv by (simp add: tracker_inv_def event_ok_def list_all_iff)
  moreover have "co_hub (buildComponents clk cfg) = Hub_New (rc_BufferSize (cf_Realtime cfg))"
    "co_monitor (buildComponents clk cfg) = SetBroadcast (Monitor_New (cf_Monitor cfg))"
    by (simp_all add: buildComponents_def Let_def split: prod.split)
  moreover have "gate_inv leave (SetBroadcast (Monitor_New (cf_Monitor cfg)))"
    using gate_inv_New [of leave "cf_Monitor cfg"] by (simp add: gate_inv_def SetBroadcast_def)
  ultimately show ?thesis using inv hub_inv_New by simp
qed

text \<open>
  What the security check lets start. Settings pass exactly when development mode is on, or the
  audit key has at least 32 bytes and, with authentication on, so has the JWT secret and every
  configured password is a bcrypt hash. The defaults are refused.
\<close>

theorem security_check_exact:
  "(ValidateSecurity c = None \<longleftrightarrow>
      (if cf_DevMode c then True
       else 32 \<le> length (so_AuditSecret (cf_Storage c))
         \<and> (if au_Enabled (cf_Auth c)
             then 32 \<le> length (au_JWTSecret (cf_Auth c))
               \<and> list_all (\<lambda>u. HasPrefix (uc_Password u) ''$2'') (au_Users (cf_Auth c))
             else True)))
   \<and> ValidateSecurity Defaults \<noteq> None"
  unfolding ValidateSecurity_None minSecretLen_def Defaults_refused by simp

text \<open>
  C22: no plain-text login in production. When settings with authentication on pass the security
  check outside development mode, the events are signed with the configured key, and a
  login can only succeed through bcrypt: at start and after any user operations, a name and
  password are accepted only if bcrypt accepts the password for the stored hash.
\<close>

theorem checked_config_needs_bcrypt:
  assumes "ValidateSecurity c = None" and "\<not> cf_DevMode c" and "au_Enabled (cf_Auth c)"
    and "snd (Users_Verify cmp name password (fold user_step ops (Users_New now (au_Users (cf_Auth c)))))"
  shows "(\<exists>r. mget (fold user_step ops (Users_New now (au_Users (cf_Auth c)))) name = Some r
      \<and> cmp (ur_secret r) password)
    \<and> pr_signer (co_proc (buildComponents clk c)) = Some \<lparr>sg_key = so_AuditSecret (cf_Storage c)\<rparr>"
proof -
  have "list_all (\<lambda>u. HasPrefix (uc_Password u) ''$2'') (au_Users (cf_Auth c))"
    and sec: "so_AuditSecret (cf_Storage c) \<noteq> []"
    using assms(1-3) unfolding ValidateSecurity_None minSecretLen_def by auto
  from user_run_hashed [OF all_hashed_New [OF this(1)], of ops now]
  have "\<exists>r. mget (fold user_step ops (Users_New now (au_Users (cf_Auth c)))) name = Some r \<and> cmp (ur_secret r) password"
    using assms(4) by (auto simp: Users_Verify_def all_hashed_def split: option.splits if_splits)
  moreover have "pr_signer (co_proc (buildComponents clk c)) = Some \<lparr>sg_key = so_AuditSecret (cf_Storage c)\<rparr>"
    using started_inv(2) [of clk c] sec by (simp add: Signer_New_def)
  ultimately show ?thesis by blast
qed

definition demo_config :: Config where
  "demo_config = Defaults\<lparr>cf_Storage := (cf_Storage Defaults)\<lparr>so_AuditSecret := replicate 32 (CHR ''a'')\<rparr>,
     cf_Auth := (cf_Auth Defaults)\<lparr>au_Enabled := True, au_JWTSecret := replicate 32 (CHR ''j''),
       au_Users := [\<lparr>uc_Name = ''root'', uc_Password = ''$2a'', uc_Role = ''admin''\<rparr>]\<rparr>\<rparr>"

lemma started_tracker_sound_witness:
  "tracker_inv toy_mac (process_all toy_mac (\<lambda>ev. []) demo_run (co_proc (buildComponents (\<lambda>i. 5) Defaults)))"
  using started_tracker_sound [OF toy_mac_ok demo_run_ok refl] by blast

lemma checked_config_needs_bcrypt_witness:
  "\<exists>r. mget (Users_New 5 (au_Users (cf_Auth demo_config))) ''root'' = Some r \<and> demo_cmp (ur_secret r) ''a''"
proof -
  have h: "ValidateSecurity demo_config = None" "\<not> cf_DevMode demo_config" "au_Enabled (cf_Auth demo_config)"
    "snd (Users_Verify demo_cmp ''root'' ''a'' (fold user_step [] (Users_New 5 (au_Users (cf_Auth demo_config)))))"
    by code_simp+
  from checked_config_needs_bcrypt [OF h] show ?thesis by simp
qed

end
