(* ===== verification/Demo.thy ===== *)
theory Demo
  imports Validator Chan Store
begin

text \<open>
  internal/demo: the built-in scenarios, the recorder and the replay engine. Offsets are scaled
  by the speed exactly and then cut to whole milliseconds, where the code divides \<open>float64\<close>
  values. A replay is a goroutine whose cancel channel is numbered; its waits end at some time that
  the model leaves open, so a step only says what is emitted next.
\<close>

subsection \<open>Scenarios\<close>

definition epoch :: gotime where
  "epoch = time_FromUnixNano (1779027825 * Second)"

definition scenario_ts :: "int \<Rightarrow> gotime" where
  "scenario_ts offset = time_Add epoch (wrap64 (offset * Millisecond))"

definition scenario_ev ::
    "int \<Rightarrow> string \<Rightarrow> string \<Rightarrow> string \<Rightarrow> string \<Rightarrow> string \<Rightarrow> string \<Rightarrow> string \<Rightarrow> string \<Rightarrow> int \<Rightarrow> (string, goany) gomap \<Rightarrow> DemoEvent" where
  "scenario_ev offset md eventType severity status pipeline tenantID userID requestID durationMs data =
     \<lparr>de_OffsetMs = offset,
      de_Event = zero_event\<lparr>ev_EventID := md @ ''-'' @ eventType @ ''-'' @ itoa offset,
        ev_TraceID := ''trace-'' @ requestID, ev_SpanID := md @ ''-'' @ itoa offset, ev_Module := md,
        ev_EventType := eventType, ev_Severity := severity, ev_Timestamp := scenario_ts offset,
        ev_TenantID := tenantID, ev_UserID := userID, ev_RequestID := requestID, ev_PipelineType := pipeline,
        ev_DurationMs := durationMs, ev_Status := status, ev_Data := data\<rparr>\<rparr>"

definition normalFlow :: DemoScenario where
  "normalFlow =
     (let rID = ''req-12345'' in
      \<lparr>sc_Name = ''01-normal-flow'',
       sc_Description = (''Normal request through the full pipeline (A'' @ [CHR 0xE2, CHR 0x86, CHR 0x92] @ ''B'' @ [CHR 0xE2, CHR 0x86, CHR 0x92] @ ''C'' @ [CHR 0xE2, CHR 0x86, CHR 0x92] @ ''E'' @ [CHR 0xE2, CHR 0x86, CHR 0x92] @ ''LLM)''),
       sc_DurationSec = 30,
       sc_Events =
        [scenario_ev 0 ''sentinel'' ''request_received'' ''info'' ''passed'' ''full'' ''tenant-acme'' ''alice@acme'' rID 0 [],
         scenario_ev 10 ''sentinel'' ''validation_passed'' ''info'' ''passed'' ''full'' ''tenant-acme'' ''alice@acme'' rID 8 [(''injection_score'', GFloat (12 / 100))],
         scenario_ev 20 ''vault'' ''request_received'' ''info'' ''passed'' ''full'' ''tenant-acme'' ''alice@acme'' rID 0 [],
         scenario_ev 30 ''vault'' ''anonymization_applied'' ''info'' ''passed'' ''full'' ''tenant-acme'' ''alice@acme'' rID 42 [(''pii_fields_masked'', GInt 3)],
         scenario_ev 80 ''navigator'' ''search_started'' ''info'' ''passed'' ''full'' ''tenant-acme'' ''alice@acme'' rID 0 [],
         scenario_ev 160 ''navigator'' ''search_completed'' ''info'' ''passed'' ''full'' ''tenant-acme'' ''alice@acme'' rID 78 [(''results'', GInt 10), (''strategy'', GStr ''hybrid'')],
         scenario_ev 170 ''anchor'' ''embedding_secured'' ''info'' ''passed'' ''full'' ''tenant-acme'' ''alice@acme'' rID 35 [(''noise_injected'', GBool True)],
         scenario_ev 1500 ''llm'' ''response_generated'' ''info'' ''passed'' ''full'' ''tenant-acme'' ''alice@acme'' rID 1320 [(''tokens_in'', GInt 1234), (''tokens_out'', GInt 567)]],
       sc_Annotations =
        []\<rparr>)"

definition promptInjection :: DemoScenario where
  "promptInjection =
     (let rID = ''req-12346'' in
      \<lparr>sc_Name = ''02-prompt-injection'',
       sc_Description = ''Sentinel blocks a prompt injection attempt'',
       sc_DurationSec = 20,
       sc_Events =
        [scenario_ev 0 ''sentinel'' ''request_received'' ''warning'' ''passed'' ''full'' ''tenant-acme'' ''xyz@acme'' rID 0 [],
         scenario_ev 50 ''sentinel'' ''prompt_injection_detected'' ''critical'' ''blocked'' ''full'' ''tenant-acme'' ''xyz@acme'' rID 12 [(''pattern'', GStr ''ignore all previous instructions''), (''score'', GFloat (97 / 100))],
         scenario_ev 55 ''sentinel'' ''validation_blocked'' ''critical'' ''blocked'' ''full'' ''tenant-acme'' ''xyz@acme'' rID 0 [(''reason'', GStr ''prompt_injection'')]],
       sc_Annotations =
        [\<lparr>an_OffsetMs = 40, an_Text = (''Suspicious request arrives '' @ [CHR 0xE2, CHR 0x80, CHR 0x94] @ '' injection score 0.97''), an_Style = ''warning''\<rparr>,
         \<lparr>an_OffsetMs = 52, an_Text = ''Sentinel blocks the request before it reaches LLM'', an_Style = ''critical''\<rparr>]\<rparr>)"

definition piiAnonymization :: DemoScenario where
  "piiAnonymization =
     (let rID = ''req-12347'' in
      \<lparr>sc_Name = ''03-pii-anonymization'',
       sc_Description = ''Vault detects and masks PII in a customer data query'',
       sc_DurationSec = 40,
       sc_Events =
        [scenario_ev 0 ''sentinel'' ''request_received'' ''info'' ''passed'' ''full'' ''tenant-acme'' ''alice@acme'' rID 0 [],
         scenario_ev 8 ''sentinel'' ''validation_passed'' ''info'' ''passed'' ''full'' ''tenant-acme'' ''alice@acme'' rID 8 [],
         scenario_ev 20 ''vault'' ''pii_detected'' ''warning'' ''passed'' ''full'' ''tenant-acme'' ''alice@acme'' rID 0 [(''fields'', GList [GStr ''email'', GStr ''phone'', GStr ''ssn''])],
         scenario_ev 65 ''vault'' ''anonymization_applied'' ''info'' ''passed'' ''full'' ''tenant-acme'' ''alice@acme'' rID 45 [(''fields_masked'', GInt 3), (''k_anonymity'', GInt 5)],
         scenario_ev 140 ''navigator'' ''search_completed'' ''info'' ''passed'' ''full'' ''tenant-acme'' ''alice@acme'' rID 75 [],
         scenario_ev 150 ''anchor'' ''embedding_secured'' ''info'' ''passed'' ''full'' ''tenant-acme'' ''alice@acme'' rID 10 []],
       sc_Annotations =
        []\<rparr>)"

definition crossTenantPrevention :: DemoScenario where
  "crossTenantPrevention =
     (let rID = ''req-12348'' in
      \<lparr>sc_Name = ''04-cross-tenant'',
       sc_Description = ''Vault blocks a cross-tenant data access attempt'',
       sc_DurationSec = 25,
       sc_Events =
        [scenario_ev 0 ''sentinel'' ''request_received'' ''info'' ''passed'' ''full'' ''tenant-globex'' ''bob@globex'' rID 0 [],
         scenario_ev 8 ''sentinel'' ''validation_passed'' ''info'' ''passed'' ''full'' ''tenant-globex'' ''bob@globex'' rID 8 [],
         scenario_ev 20 ''vault'' ''cross_tenant_attempt'' ''critical'' ''blocked'' ''full'' ''tenant-globex'' ''bob@globex'' rID 5 [(''target_tenant'', GStr ''tenant-acme''), (''resource'', GStr ''customer_data'')],
         scenario_ev 25 ''vault'' ''access_denied'' ''critical'' ''blocked'' ''full'' ''tenant-globex'' ''bob@globex'' rID 0 [(''reason'', GStr ''cross_tenant_violation'')]],
       sc_Annotations =
        []\<rparr>)"

definition honeyTokenDetection :: DemoScenario where
  "honeyTokenDetection =
     (let rID = ''req-12349'' in
      \<lparr>sc_Name = ''05-honey-token'',
       sc_Description = ''Attacker accesses a honey-token, triggering an incident'',
       sc_DurationSec = 35,
       sc_Events =
        [scenario_ev 0 ''sentinel'' ''request_received'' ''info'' ''passed'' ''full'' ''tenant-acme'' ''attacker@external'' rID 0 [],
         scenario_ev 10 ''sentinel'' ''validation_passed'' ''info'' ''passed'' ''full'' ''tenant-acme'' ''attacker@external'' rID 10 [],
         scenario_ev 80 ''navigator'' ''search_completed'' ''info'' ''passed'' ''full'' ''tenant-acme'' ''attacker@external'' rID 50 [],
         scenario_ev 500 ''security'' ''honey_token_triggered'' ''critical'' ''error'' ''full'' ''tenant-acme'' ''attacker@external'' rID 0 [(''token_id'', GStr ''HT-0001''), (''token_name'', GStr ''Fake CEO Email''), (''source_ip'', GStr ''192.168.1.123'')]],
       sc_Annotations =
        [\<lparr>an_OffsetMs = 75, an_Text = ''Attacker retrieves search results containing decoy data'', an_Style = ''warning''\<rparr>,
         \<lparr>an_OffsetMs = 490, an_Text = (''Honey-token '' @ [CHR 0x27] @ ''Fake CEO Email'' @ [CHR 0x27] @ '' accessed '' @ [CHR 0xE2, CHR 0x80, CHR 0x94] @ '' incident auto-created''), an_Style = ''critical''\<rparr>]\<rparr>)"

definition moduleBypass :: DemoScenario where
  "moduleBypass =
     (let rID = ''req-12350'' in
      \<lparr>sc_Name = ''06-module-bypass'',
       sc_Description = ''Public document query uses lite pipeline (Vault skipped)'',
       sc_DurationSec = 25,
       sc_Events =
        [scenario_ev 0 ''sentinel'' ''request_received'' ''info'' ''passed'' ''lite'' ''tenant-public'' ''anon@public'' rID 0 [],
         scenario_ev 5 ''sentinel'' ''pipeline_routing_decided'' ''info'' ''passed'' ''lite'' ''tenant-public'' ''anon@public'' rID 0 [(''pipeline_type'', GStr ''lite''), (''modules_skipped'', GList [GStr ''vault'']), (''reason'', GStr ''public_data_category'')],
         scenario_ev 10 ''sentinel'' ''validation_passed'' ''info'' ''passed'' ''lite'' ''tenant-public'' ''anon@public'' rID 10 [],
         scenario_ev 80 ''navigator'' ''search_completed'' ''info'' ''passed'' ''lite'' ''tenant-public'' ''anon@public'' rID 70 [(''results'', GInt 5)],
         scenario_ev 90 ''anchor'' ''embedding_secured'' ''info'' ''passed'' ''lite'' ''tenant-public'' ''anon@public'' rID 10 []],
       sc_Annotations =
        []\<rparr>)"

definition anchorDegraded :: DemoScenario where
  "anchorDegraded =
     (let rID = ''req-12351'' in
      \<lparr>sc_Name = ''07-anchor-degraded'',
       sc_Description = ''Anchor module shows elevated latency (degraded state)'',
       sc_DurationSec = 30,
       sc_Events =
        [scenario_ev 0 ''sentinel'' ''validation_passed'' ''info'' ''passed'' ''full'' ''tenant-acme'' ''alice@acme'' rID 8 [],
         scenario_ev 50 ''vault'' ''anonymization_applied'' ''info'' ''passed'' ''full'' ''tenant-acme'' ''alice@acme'' rID 42 [],
         scenario_ev 130 ''navigator'' ''search_completed'' ''info'' ''passed'' ''full'' ''tenant-acme'' ''alice@acme'' rID 78 [],
         scenario_ev 340 ''anchor'' ''embedding_secured'' ''warning'' ''passed'' ''full'' ''tenant-acme'' ''alice@acme'' rID 210 [(''latency_spike'', GBool True)],
         scenario_ev 345 ''system'' ''module_degraded'' ''warning'' ''error'' ''full'' ''tenant-acme'' [] rID 0 [(''module'', GStr ''anchor''), (''reason'', GStr ''latency_p95_exceeded'')]],
       sc_Annotations =
        []\<rparr>)"

definition incidentResponse :: DemoScenario where
  "incidentResponse =
     (let rID = ''req-12352'' in
      \<lparr>sc_Name = ''08-incident-response'',
       sc_Description = (''Full incident workflow: detection '' @ [CHR 0xE2, CHR 0x86, CHR 0x92] @ '' escalation '' @ [CHR 0xE2, CHR 0x86, CHR 0x92] @ '' resolution''),
       sc_DurationSec = 60,
       sc_Events =
        [scenario_ev 0 ''security'' ''honey_token_triggered'' ''critical'' ''error'' ''full'' ''tenant-acme'' ''suspect@external'' rID 0 [(''token_id'', GStr ''HT-0001'')],
         scenario_ev 100 ''security'' ''suspicious_pattern'' ''critical'' ''error'' ''full'' ''tenant-acme'' ''suspect@external'' rID 0 [(''attempts'', GInt 5)],
         scenario_ev 500 ''security'' ''anomaly_detected'' ''critical'' ''error'' ''full'' ''tenant-acme'' ''suspect@external'' rID 0 [(''anomaly'', GStr ''bulk_data_access'')],
         scenario_ev 1000 ''security'' ''incident_created'' ''critical'' ''error'' ''full'' ''tenant-acme'' [] ''INC-0001'' 0 [(''incident_id'', GStr ''INC-0001''), (''title'', GStr ''Possible data exfiltration'')]],
       sc_Annotations =
        [\<lparr>an_OffsetMs = 0, an_Text = (''Honey-token triggered '' @ [CHR 0xE2, CHR 0x80, CHR 0x94] @ '' possible attacker foothold''), an_Style = ''critical''\<rparr>,
         \<lparr>an_OffsetMs = 90, an_Text = ''Pattern of suspicious access detected (5 attempts)'', an_Style = ''warning''\<rparr>,
         \<lparr>an_OffsetMs = 490, an_Text = ''Bulk data access anomaly detected'', an_Style = ''critical''\<rparr>,
         \<lparr>an_OffsetMs = 990, an_Text = (''Incident INC-0001 created '' @ [CHR 0xE2, CHR 0x80, CHR 0x94] @ '' investigation begins''), an_Style = ''info''\<rparr>]\<rparr>)"

definition BuiltinScenarios :: "DemoScenario list" where
  "BuiltinScenarios =
     [normalFlow, promptInjection, piiAnonymization, crossTenantPrevention, honeyTokenDetection, moduleBypass, anchorDegraded, incidentResponse]"

lemmas scenario_defs = normalFlow_def promptInjection_def piiAnonymization_def crossTenantPrevention_def honeyTokenDetection_def moduleBypass_def anchorDegraded_def incidentResponse_def

subsection \<open>The recorder\<close>

record Recorder =
  rec_state :: RecordingState
  rec_startedAt :: "gotime option"
  rec_stoppedAt :: "gotime option"
  rec_events :: "DemoEvent list"
  rec_scenario :: "DemoScenario option"
  rec_name :: string
  rec_desc :: string

definition NewRecorder :: Recorder where
  "NewRecorder = \<lparr>rec_state = RecordingIdle, rec_startedAt = None, rec_stoppedAt = None, rec_events = [],
     rec_scenario = None, rec_name = [], rec_desc = []\<rparr>"

definition rec_Start :: "gotime \<Rightarrow> string \<Rightarrow> string \<Rightarrow> Recorder \<Rightarrow> Recorder \<times> bool" where
  "rec_Start now name description r =
     (if rec_state r = RecordingActive then (r, False)
      else (r\<lparr>rec_state := RecordingActive, rec_startedAt := Some now, rec_stoppedAt := None, rec_events := [],
              rec_scenario := None, rec_name := name, rec_desc := description\<rparr>, True))"

definition rec_Record :: "BastionEvent \<Rightarrow> Recorder \<Rightarrow> Recorder" where
  "rec_Record ev r =
     (case rec_startedAt r of
        None \<Rightarrow> r
      | Some start \<Rightarrow>
          if rec_state r \<noteq> RecordingActive then r
          else let offset = max 0 (Milliseconds (time_Sub (ev_Timestamp ev) start))
               in r\<lparr>rec_events := rec_events r @ [\<lparr>de_OffsetMs = offset, de_Event = ev\<rparr>]\<rparr>)"

definition rec_Stop :: "gotime \<Rightarrow> Recorder \<Rightarrow> Recorder \<times> DemoScenario option" where
  "rec_Stop now r =
     (if rec_state r \<noteq> RecordingActive then (r, None)
      else let durSec = (case rec_startedAt r of None \<Rightarrow> 0
                         | Some start \<Rightarrow> of_int (time_Sub now start) / 1000000000);
               sc = \<lparr>sc_Name = rec_name r, sc_Description = rec_desc r, sc_DurationSec = durSec,
                     sc_Events = rec_events r, sc_Annotations = []\<rparr>
           in (r\<lparr>rec_state := RecordingStopped, rec_stoppedAt := Some now, rec_scenario := Some sc\<rparr>, Some sc))"

definition rec_Status :: "Recorder \<Rightarrow> RecordingStatus" where
  "rec_Status r =
     \<lparr>rs_State = rec_state r, rs_StartedAt = rec_startedAt r, rs_StoppedAt = rec_stoppedAt r,
      rs_EventCount = length (rec_events r), rs_Scenario = rec_scenario r\<rparr>"

subsection \<open>The engine\<close>

text \<open>A replay in progress: its channel, what is left of the scenario, and what it has processed.\<close>

record replaying =
  rp_name :: string
  rp_cancel :: nat
  rp_speed :: rat
  rp_events :: "DemoEvent list"
  rp_anns :: "Annotation list"

record Engine =
  en_scenarios :: "(string, DemoScenario) gomap"
  en_running :: "(string, nat) gomap"
  en_closed :: "nat list"
  en_next :: nat
  en_replays :: "replaying list"
  en_broadcaster :: bool

definition AddScenario :: "DemoScenario \<Rightarrow> Engine \<Rightarrow> Engine" where
  "AddScenario sc e = e\<lparr>en_scenarios := mput (sc_Name sc) sc (en_scenarios e)\<rparr>"

definition NewEngine :: Engine where
  "NewEngine = fold AddScenario BuiltinScenarios
     \<lparr>en_scenarios = [], en_running = [], en_closed = [], en_next = 0, en_replays = [], en_broadcaster = False\<rparr>"

definition SetBroadcaster :: "Engine \<Rightarrow> Engine" where
  "SetBroadcaster e = e\<lparr>en_broadcaster := True\<rparr>"

definition Engine_List ::
    "((string, DemoScenario) gomap \<Rightarrow> (string, DemoScenario) gomap) \<Rightarrow> Engine \<Rightarrow> DemoScenario list" where
  "Engine_List ord e = map snd (ord (en_scenarios e))"

definition Engine_Get :: "string \<Rightarrow> Engine \<Rightarrow> DemoScenario option" where
  "Engine_Get name e = mget (en_scenarios e) name"

text \<open>The offset of an event or annotation at a speed, as a duration.\<close>

definition scaled :: "rat \<Rightarrow> int \<Rightarrow> duration" where
  "scaled speed offset = wrap64 (trunc_rat (of_int offset / speed) * Millisecond)"

text \<open>What a replay emits: an annotation whenever it falls before the next event.\<close>

datatype emission = EmitAnnotation Annotation | EmitEvent DemoEvent

fun next_emission :: "rat \<Rightarrow> DemoEvent list \<Rightarrow> Annotation list \<Rightarrow> (emission \<times> DemoEvent list \<times> Annotation list) option" where
  "next_emission speed [] anns = None"
| "next_emission speed (de # des) [] = Some (EmitEvent de, des, [])"
| "next_emission speed (de # des) (an # ans) =
     (if scaled speed (an_OffsetMs an) < scaled speed (de_OffsetMs de)
      then Some (EmitAnnotation an, de # des, ans) else Some (EmitEvent de, des, an # ans))"

datatype replay_error = ScenarioNotFound string | ScenarioRunning string

fun replay_error_text :: "(string \<Rightarrow> string) \<Rightarrow> replay_error \<Rightarrow> string" where
  "replay_error_text quote (ScenarioNotFound name) = ''scenario '' @ quote name @ '' not found''"
| "replay_error_text quote (ScenarioRunning name) = ''scenario '' @ quote name @ '' is already running''"

definition Replay ::
    "string \<Rightarrow> rat \<Rightarrow> Engine \<Rightarrow> replay_error option \<times> Engine" where
  "Replay name speed0 e =
     (let speed = (if speed0 \<le> 0 then 1 else speed0) in
      case mget (en_scenarios e) name of
        None \<Rightarrow> (Some (ScenarioNotFound name), e)
      | Some sc \<Rightarrow>
          if mget (en_running e) name \<noteq> None then (Some (ScenarioRunning name), e)
          else (None, e\<lparr>en_running := mput name (en_next e) (en_running e), en_next := en_next e + 1,
                 en_replays := en_replays e @ [\<lparr>rp_name = name, rp_cancel = en_next e, rp_speed = speed,
                   rp_events = sc_Events sc, rp_anns = sc_Annotations sc\<rparr>]\<rparr>))"

definition Engine_Stop :: "string \<Rightarrow> Engine \<Rightarrow> bool \<times> Engine" where
  "Engine_Stop name e =
     (case mget (en_running e) name of
        None \<Rightarrow> (False, e)
      | Some ch \<Rightarrow> (True, e\<lparr>en_closed := ch # en_closed e, en_running := mdel name (en_running e)\<rparr>))"

text \<open>\<open>Inject\<close>: what is handed to the sink.\<close>

definition Inject :: "gotime \<Rightarrow> BastionEvent \<Rightarrow> BastionEvent" where
  "Inject now ev = (if time_IsZero (ev_Timestamp ev) then ev\<lparr>ev_Timestamp := now\<rparr> else ev)"

definition ActiveScenarios :: "((string, nat) gomap \<Rightarrow> (string, nat) gomap) \<Rightarrow> Engine \<Rightarrow> string list" where
  "ActiveScenarios ord e = map fst (ord (en_running e))"

text \<open>
  One step of the replay at position \<open>i\<close>: the next emission (an event only while its channel is
  open; an annotation may still slip out when its wait is over), or its return, by cancellation or
  at the end, with the deferred removal of its name.
\<close>

definition replay_emit :: "nat \<Rightarrow> Engine \<Rightarrow> (emission \<times> Engine) option" where
  "replay_emit i e =
     (let r = en_replays e ! i in
      if i < length (en_replays e) then
        (case next_emission (rp_speed r) (rp_events r) (rp_anns r) of
           None \<Rightarrow> None
         | Some (em, des, ans) \<Rightarrow>
             (case em of
                EmitEvent de \<Rightarrow> if rp_cancel r \<in> set (en_closed e) then None
                  else Some (em, e\<lparr>en_replays := (en_replays e)[i := r\<lparr>rp_events := des, rp_anns := ans\<rparr>]\<rparr>)
              | EmitAnnotation an \<Rightarrow> Some (em, e\<lparr>en_replays := (en_replays e)[i := r\<lparr>rp_events := des, rp_anns := ans\<rparr>]\<rparr>)))
      else None)"

definition replay_return :: "nat \<Rightarrow> Engine \<Rightarrow> Engine option" where
  "replay_return i e =
     (if i < length (en_replays e)
         \<and> (rp_events (en_replays e ! i) = [] \<or> rp_cancel (en_replays e ! i) \<in> set (en_closed e))
      then Some (e\<lparr>en_running := mdel (rp_name (en_replays e ! i)) (en_running e),
                   en_replays := take i (en_replays e) @ drop (Suc i) (en_replays e)\<rparr>)
      else None)"

text \<open>The event handed to \<open>Process\<close> carries the current time.\<close>

definition replayed :: "gotime \<Rightarrow> DemoEvent \<Rightarrow> BastionEvent" where
  "replayed now de = (de_Event de)\<lparr>ev_Timestamp := now\<rparr>"

subsection \<open>What a replay emits\<close>

lemma next_emission_shorter:
  "next_emission speed des ans = Some (em, des', ans') \<Longrightarrow> length des' + length ans' < length des + length ans"
  by (induction speed des ans rule: next_emission.induct) (auto split: if_splits)

function replay_script :: "rat \<Rightarrow> DemoEvent list \<Rightarrow> Annotation list \<Rightarrow> emission list" where
  "replay_script speed des ans =
     (case next_emission speed des ans of
        None \<Rightarrow> []
      | Some (em, des', ans') \<Rightarrow> em # replay_script speed des' ans')"
  by pat_completeness auto

termination replay_script
  by (relation "measure (\<lambda>(speed, des, ans). length des + length ans)") (auto dest: next_emission_shorter)

declare replay_script.simps [simp del]

fun script_events :: "emission list \<Rightarrow> DemoEvent list" where
  "script_events [] = []"
| "script_events (EmitEvent de # ems) = de # script_events ems"
| "script_events (EmitAnnotation an # ems) = script_events ems"

fun script_annotations :: "emission list \<Rightarrow> Annotation list" where
  "script_annotations [] = []"
| "script_annotations (EmitEvent de # ems) = script_annotations ems"
| "script_annotations (EmitAnnotation an # ems) = an # script_annotations ems"

lemma script_append:
  "script_events (xs @ ys) = script_events xs @ script_events ys"
  "script_annotations (xs @ ys) = script_annotations xs @ script_annotations ys"
  by (induction xs rule: script_events.induct) simp_all

lemma script_events_all: "script_events (replay_script speed des ans) = des"
proof (induction speed des ans rule: replay_script.induct)
  case (1 speed des ans)
  show ?case
  proof (cases des)
    case Nil
    then show ?thesis by (simp add: replay_script.simps)
  next
    case (Cons de rest)
    then show ?thesis using 1
      by (subst replay_script.simps, cases ans) (auto split: if_splits)
  qed
qed

lemma script_annotations_prefix: "prefix (script_annotations (replay_script speed des ans)) ans"
proof (induction speed des ans rule: replay_script.induct)
  case (1 speed des ans)
  show ?case
  proof (cases des)
    case Nil
    then show ?thesis by (simp add: replay_script.simps)
  next
    case (Cons de rest)
    then show ?thesis using 1
      by (subst replay_script.simps, cases ans) (auto split: if_splits)
  qed
qed

text \<open>Which annotations a script has before an event, and in all.\<close>

abbreviation note_before :: "rat \<Rightarrow> Annotation \<Rightarrow> DemoEvent \<Rightarrow> bool" where
  "note_before speed an de \<equiv> scaled speed (an_OffsetMs an) < scaled speed (de_OffsetMs de)"

lemma none_before:
  assumes "sorted (map (\<lambda>an. scaled speed (an_OffsetMs an)) ans)" and "ans = [] \<or> \<not> note_before speed (hd ans) de"
  shows "takeWhile (\<lambda>an. note_before speed an de \<or> P an) ans = takeWhile P ans"
proof -
  have "\<not> note_before speed an de" if "an \<in> set ans" for an
    using assms that by (cases ans) (auto simp: not_less intro: order_trans)
  then show ?thesis by (induction ans) auto
qed

lemma script_unfold:
  "replay_script speed (de # des) ans =
     (if ans \<noteq> [] \<and> note_before speed (hd ans) de then EmitAnnotation (hd ans) # replay_script speed (de # des) (tl ans)
      else EmitEvent de # replay_script speed des ans)"
  by (subst replay_script.simps) (cases ans; simp)

lemma script_annotations_before:
  "sorted (map (\<lambda>an. scaled speed (an_OffsetMs an)) ans) \<Longrightarrow> replay_script speed des ans = before @ EmitEvent de # after \<Longrightarrow>
   script_annotations before = takeWhile (\<lambda>an. \<exists>d \<in> set (script_events before @ [de]). note_before speed an d) ans"
proof (induction before arbitrary: des ans)
  case Nil
  then obtain d ds where des: "des = d # ds" by (cases des) (auto simp: replay_script.simps)
  then have "de = d" "ans = [] \<or> \<not> note_before speed (hd ans) d"
    using Nil.prems(2) by (auto simp: script_unfold split: if_splits)
  then show ?case by (cases ans) auto
next
  case (Cons em before)
  obtain d ds where des: "des = d # ds" using Cons.prems(2) by (cases des) (auto simp: replay_script.simps)
  show ?case
  proof (cases "ans \<noteq> [] \<and> note_before speed (hd ans) d")
    case True
    have em: "em = EmitAnnotation (hd ans)" "replay_script speed (d # ds) (tl ans) = before @ EmitEvent de # after"
      using Cons.prems(2) True by (simp_all add: des script_unfold [of speed d ds ans])
    have "script_events (before @ EmitEvent de # after) = d # ds" using script_events_all [of speed "d # ds" "tl ans"] em(2) by simp
    then have d: "d \<in> set (script_events before @ [de])" by (cases "script_events before") (auto simp: script_append)
    have "script_annotations before = takeWhile (\<lambda>an. \<exists>d \<in> set (script_events before @ [de]). note_before speed an d) (tl ans)"
      using Cons.prems(1) em(2) by (intro Cons.IH) (simp_all add: map_tl sorted_tl)
    then show ?thesis using True d by (cases ans) (auto simp: em(1))
  next
    case False
    have em: "em = EmitEvent d" "replay_script speed ds ans = before @ EmitEvent de # after"
      using Cons.prems(2) False by (auto simp: des script_unfold [of speed d ds ans])
    show ?thesis
      using Cons.IH [OF Cons.prems(1) em(2)] False
        none_before [OF Cons.prems(1), of d "\<lambda>an. \<exists>d \<in> set (script_events before @ [de]). note_before speed an d"]
      by (auto simp: em(1))
  qed
qed

lemma script_annotations_all:
  "sorted (map (\<lambda>an. scaled speed (an_OffsetMs an)) ans) \<Longrightarrow>
   script_annotations (replay_script speed des ans) = takeWhile (\<lambda>an. \<exists>de \<in> set des. note_before speed an de) ans"
proof (induction speed des ans rule: replay_script.induct)
  case (1 speed des ans)
  show ?case
  proof (cases des)
    case Nil
    then show ?thesis by (cases ans) (simp_all add: replay_script.simps)
  next
    case (Cons d ds)
    show ?thesis
    proof (cases "ans \<noteq> [] \<and> note_before speed (hd ans) d")
      case True
      then have "next_emission speed des ans = Some (EmitAnnotation (hd ans), d # ds, tl ans)" by (cases ans) (simp_all add: Cons)
      from "1.IH" [OF this refl refl] "1.prems"
      have "script_annotations (replay_script speed (d # ds) (tl ans))
          = takeWhile (\<lambda>an. \<exists>de \<in> set des. note_before speed an de) (tl ans)"
        by (simp add: map_tl sorted_tl Cons)
      moreover have "replay_script speed des ans = EmitAnnotation (hd ans) # replay_script speed (d # ds) (tl ans)"
        using True by (simp add: Cons script_unfold [of speed d ds ans])
      ultimately show ?thesis using True by (cases ans) (simp_all add: Cons)
    next
      case False
      then have "next_emission speed des ans = Some (EmitEvent d, ds, ans)" by (cases ans) (auto simp: Cons)
      from "1.IH" [OF this refl refl] "1.prems"
      have "script_annotations (replay_script speed ds ans) = takeWhile (\<lambda>an. \<exists>de \<in> set ds. note_before speed an de) ans"
        by simp
      then show ?thesis
        using none_before [OF "1.prems", of d "\<lambda>an. \<exists>de \<in> set ds. note_before speed an de"] False
        by (simp only: Cons script_unfold [of speed d ds ans] list.set bex_simps) simp
    qed
  qed
qed

text \<open>An emission is the head of the script, what is left has the tail as its script.\<close>

lemma replay_emit_script:
  assumes "replay_emit i e = Some (em, e')"
  shows "i < length (en_replays e) \<and> length (en_replays e') = length (en_replays e)
    \<and> replay_script (rp_speed (en_replays e ! i)) (rp_events (en_replays e ! i)) (rp_anns (en_replays e ! i))
      = em # replay_script (rp_speed (en_replays e' ! i)) (rp_events (en_replays e' ! i)) (rp_anns (en_replays e' ! i))"
  using assms
  by (subst replay_script.simps) (auto simp: replay_emit_def Let_def split: if_splits option.splits emission.splits)

subsection \<open>Runs of the engine\<close>

text \<open>A step, labelled with what is emitted and by the replay of which channel.\<close>

inductive eng_step :: "Engine \<Rightarrow> (nat \<times> emission) option \<Rightarrow> Engine \<Rightarrow> bool" where
  start: "Replay name speed e = (err, e') \<Longrightarrow> eng_step e None e'"
| stop: "Engine_Stop name e = (ok, e') \<Longrightarrow> eng_step e None e'"
| add: "eng_step e None (AddScenario sc e)"
| emit: "replay_emit i e = Some (em, e') \<Longrightarrow> eng_step e (Some (rp_cancel (en_replays e ! i), em)) e'"
| return: "replay_return i e = Some e' \<Longrightarrow> eng_step e None e'"

inductive eng_run :: "Engine \<Rightarrow> (nat \<times> emission) option list \<Rightarrow> Engine \<Rightarrow> bool" where
  run_nil: "eng_run e [] e"
| run_cons: "eng_step e l e' \<Longrightarrow> eng_run e' ls e'' \<Longrightarrow> eng_run e (l # ls) e''"

lemma eng_step_closed: "eng_step e l e' \<Longrightarrow> set (en_closed e) \<subseteq> set (en_closed e')"
  by (induction rule: eng_step.induct)
    (auto simp: Replay_def Engine_Stop_def AddScenario_def replay_emit_def replay_return_def Let_def
       split: if_splits option.splits emission.splits)

lemma eng_step_silent:
  assumes "eng_step e (Some (ch, EmitEvent de)) e'"
  shows "ch \<notin> set (en_closed e)"
  using assms
proof cases
  case (emit i)
  then show ?thesis by (auto simp: replay_emit_def Let_def split: if_splits option.splits emission.splits)
qed

lemma eng_run_silent:
  "eng_run e ls e' \<Longrightarrow> ch \<in> set (en_closed e) \<Longrightarrow> Some (ch, EmitEvent de) \<notin> set ls"
proof (induction rule: eng_run.induct)
  case (run_cons e l e' ls e'')
  then show ?case using eng_step_closed eng_step_silent by fastforce
qed simp

lemma record_fold:
  "rec_startedAt r = Some start \<Longrightarrow> rec_state r = RecordingActive \<Longrightarrow>
     fold rec_Record evs r = r\<lparr>rec_events := rec_events r @
       map (\<lambda>ev. \<lparr>de_OffsetMs = max 0 (Milliseconds (time_Sub (ev_Timestamp ev) start)), de_Event = ev\<rparr>) evs\<rparr>"
  by (induction evs arbitrary: r) (simp_all add: rec_Record_def Let_def)

subsection \<open>Properties\<close>

text \<open>
  C37: a recording can be replayed. The scenario made of the events recorded between start and stop
  emits, when it is added to an engine and replayed at any speed, exactly these events in the order
  in which they were recorded, whatever their time stamps; each is handed on with the current time.
\<close>

theorem record_replay_roundtrip:
  assumes "rec_Start now name desc r = (r1, True)" and "rec_Stop now2 (fold rec_Record evs r1) = (r2, Some sc)"
    and "Replay name speed (AddScenario sc e) = (None, e')"
  shows "map (replayed t) (script_events (replay_script (rp_speed (last (en_replays e'))) (rp_events (last (en_replays e')))
      (rp_anns (last (en_replays e'))))) = map (\<lambda>ev. ev\<lparr>ev_Timestamp := t\<rparr>) evs"
proof -
  have r1: "rec_startedAt r1 = Some now" "rec_state r1 = RecordingActive" "rec_events r1 = []" "rec_name r1 = name"
    using assms(1) by (auto simp: rec_Start_def split: if_splits)
  have sc: "sc_Name sc = name" "sc_Events sc
      = map (\<lambda>ev. \<lparr>de_OffsetMs = max 0 (Milliseconds (time_Sub (ev_Timestamp ev) now)), de_Event = ev\<rparr>) evs"
    using assms(2) r1 by (auto simp: rec_Stop_def record_fold [OF r1(1,2)] Let_def)
  have "rp_events (last (en_replays e')) = sc_Events sc"
    using assms(3) by (auto simp: Replay_def AddScenario_def sc(1) Let_def split: if_splits)
  then show ?thesis by (simp add: script_events_all sc(2) replayed_def comp_def)
qed

text \<open>
  A stopped replay processes no more events. Once \<open>Stop\<close> has answered true for a scenario, the
  replay it ran hands nothing more to the sink, in any continuation with any other replays, stops
  and additions. (An annotation whose wait is over may still be broadcast.)
\<close>

theorem stopped_replay_is_silent:
  assumes "mget (en_running e) name = Some ch" and "Engine_Stop name e = (True, e1)" and "eng_run e1 ls e2"
  shows "Some (ch, EmitEvent de) \<notin> set ls"
  by (rule eng_run_silent [OF assms(3)]) (use assms(1,2) in \<open>auto simp: Engine_Stop_def\<close>)

text \<open>
  Stopping and restarting a scenario can lose the new replay. When a replay is stopped and the
  scenario is replayed again before the old goroutine has returned, its deferred clean-up removes
  the name of the new replay: that one keeps running, but is neither listed as active nor can it
  be stopped, and a third replay of the scenario can start beside it.
\<close>

theorem restart_loses_replay:
  assumes "Replay name speed e0 = (None, e1)" and "Engine_Stop name e1 = (True, e2)"
    and "Replay name speed e2 = (None, e3)" and "replay_return (length (en_replays e0)) e3 = Some e4"
  shows "last (en_replays e4) = last (en_replays e3)
    \<and> rp_events (last (en_replays e4)) = sc_Events (the (Engine_Get name e0))
    \<and> Engine_Stop name e4 = (False, e4) \<and> name \<notin> set (ActiveScenarios (\<lambda>m. m) e4)
    \<and> fst (Replay name speed e4) = None"
proof -
  from assms(1) obtain sc where sc: "mget (en_scenarios e0) name = Some sc"
    by (auto simp: Replay_def Let_def split: option.splits if_splits)
  let ?sp = "if speed \<le> 0 then 1 else speed"
  define rp where "rp = (\<lambda>n. \<lparr>rp_name = name, rp_cancel = n, rp_speed = ?sp, rp_events = sc_Events sc, rp_anns = sc_Annotations sc\<rparr>)"
  have e1: "e1 = e0\<lparr>en_running := mput name (en_next e0) (en_running e0), en_next := en_next e0 + 1,
      en_replays := en_replays e0 @ [rp (en_next e0)]\<rparr>"
    using assms(1) sc by (auto simp: Replay_def rp_def Let_def split: if_splits)
  have e2: "e2 = e1\<lparr>en_closed := en_next e0 # en_closed e1, en_running := mdel name (en_running e1)\<rparr>"
    using assms(2) by (auto simp: Engine_Stop_def e1)
  have e3: "e3 = e2\<lparr>en_running := mput name (en_next e2) (en_running e2), en_next := en_next e2 + 1,
      en_replays := en_replays e2 @ [rp (en_next e2)]\<rparr>"
    using assms(3) sc by (auto simp: Replay_def rp_def e1 e2 Let_def split: if_splits)
  have rs: "en_replays e3 = en_replays e0 @ [rp (en_next e0), rp (en_next e2)]" by (simp add: e3 e2 e1)
  have e4: "e4 = e3\<lparr>en_running := mdel name (en_running e3), en_replays := en_replays e0 @ [rp (en_next e2)]\<rparr>"
    using assms(4) by (auto simp: replay_return_def rs rp_def nth_append split: if_splits)
  have "en_scenarios e4 = en_scenarios e0" by (simp add: e4 e3 e2 e1)
  then show ?thesis
    using sc by (auto simp: e4 rs rp_def Engine_Stop_def ActiveScenarios_def Replay_def Engine_Get_def Let_def
        AList.delete_keys)
qed

definition emits_all_annotations :: "DemoScenario \<Rightarrow> bool" where
  "emits_all_annotations sc = (script_annotations (replay_script 1 (sc_Events sc) (sc_Annotations sc)) = sc_Annotations sc)"

text \<open>
  C40: the schedule of a replay. A scenario that \<open>Replay\<close> has accepted, at any speed, is emitted event by
  event in its order, and when the annotations are in the order of their times, then at every event the annotations
  emitted so far are exactly those at the front of the list whose scaled offset is strictly before that event or
  an earlier one, and no annotation follows the last event. So what is shown in all are the annotations strictly
  before some event: one at or after the time of the last event is never broadcast, and as offsets are cut to
  milliseconds, a fast replay can lose more of them.
\<close>

theorem replay_annotation_schedule:
  assumes "Replay name speed e = (None, e')" and "Engine_Get name e = Some sc"
    and "r = last (en_replays e')" and "due = (\<lambda>offset. scaled (rp_speed r) offset)"
    and "sorted (map (\<lambda>an. due (an_OffsetMs an)) (sc_Annotations sc))"
    and "script = replay_script (rp_speed r) (rp_events r) (rp_anns r)"
  shows "script_events script = sc_Events sc
    \<and> script_annotations script
        = takeWhile (\<lambda>an. \<exists>de \<in> set (sc_Events sc). due (an_OffsetMs an) < due (de_OffsetMs de)) (sc_Annotations sc)
    \<and> (\<forall>before de after. script = before @ EmitEvent de # after \<longrightarrow>
         script_annotations before = takeWhile (\<lambda>an. \<exists>d \<in> set (script_events before @ [de]).
           due (an_OffsetMs an) < due (de_OffsetMs d)) (sc_Annotations sc))"
proof -
  have r: "rp_events r = sc_Events sc" "rp_anns r = sc_Annotations sc"
    using assms(1,2) by (auto simp: assms(3) Replay_def Engine_Get_def Let_def split: if_splits)
  show ?thesis
    using script_annotations_all script_annotations_before assms(5) unfolding assms(4,6) r script_events_all by blast
qed

text \<open>
  The built-in scenarios: eight different names, every event passes the validator, the events are in the order of
  their offsets, and a replay at normal speed broadcasts every annotation. At two thousand times that
  speed all offsets of the last scenario fall into the first millisecond, and none is broadcast.
\<close>

lemma builtin_scenarios_sound:
  "length BuiltinScenarios = 8 \<and> distinct (map sc_Name BuiltinScenarios)
   \<and> list_all (\<lambda>sc. list_all (\<lambda>de. Validate (de_Event de) = None) (sc_Events sc)
        \<and> sorted (map de_OffsetMs (sc_Events sc)) \<and> emits_all_annotations sc) BuiltinScenarios"
proof -
  have a: "length BuiltinScenarios = 8" "distinct (map sc_Name BuiltinScenarios)" by code_simp+
  have v: "list_all (\<lambda>sc. list_all (\<lambda>de. Validate (de_Event de) = None) (sc_Events sc)) BuiltinScenarios" by code_simp
  have s: "list_all (\<lambda>sc. sorted (map de_OffsetMs (sc_Events sc))) BuiltinScenarios" by code_simp
  have e: "list_all emits_all_annotations BuiltinScenarios" by code_simp
  show ?thesis using a v s e by (simp only: list_all_iff) blast
qed

lemma fast_replay_drops_annotations:
  "script_annotations (replay_script 2000 (sc_Events incidentResponse) (sc_Annotations incidentResponse)) = []
   \<and> length (sc_Annotations incidentResponse) = 4"
  by code_simp

text \<open>The event store after three of the scenarios, read page by page.\<close>

definition demo_store :: Store where
  "demo_store = fold AddEvent (map de_Event (sc_Events normalFlow @ sc_Events promptInjection @ sc_Events piiAnonymization))
     (Store_New 20)"

definition demo_page :: "string \<Rightarrow> EventsPage" where
  "demo_page c = Store_EventsPage demo_store zero_query c 1"

definition demo_cursors :: "string list" where
  "demo_cursors = [[], ''anchor-embedding_secured-150'', ''navigator-search_completed-140'',
     ''vault-anonymization_applied-65'', ''vault-pii_detected-20'', ''sentinel-validation_passed-8'',
     ''sentinel-request_received-0'', ''sentinel-validation_blocked-55'', ''sentinel-prompt_injection_detected-50'']"

text \<open>The paging looks at identifiers only, so it is computed on the list of identifiers.\<close>

fun id_start :: "string \<Rightarrow> nat \<Rightarrow> string list \<Rightarrow> nat" where
  "id_start c i [] = 0"
| "id_start c i (x # xs) = (if x = c then i + 1 else id_start c (i + 1) xs)"

lemma cursor_start_ids: "cursor_start c i evs = id_start c i (map ev_EventID evs)"
  by (induction evs arbitrary: i) auto

definition page_index :: "string list \<Rightarrow> string \<Rightarrow> nat" where
  "page_index ids c = (if c \<noteq> [] then id_start c 0 ids else 0)"

lemma page_of_one:
  assumes "page_index (map ev_EventID (newest s)) c < length (newest s)"
    and "list_all (\<lambda>ev. ev_EventID ev \<noteq> []) (newest s)"
  shows "ep_Events (Store_EventsPage s zero_query c 1) = [newest s ! page_index (map ev_EventID (newest s)) c]
    \<and> ep_NextCursor (Store_EventsPage s zero_query c 1) = ev_EventID (newest s ! page_index (map ev_EventID (newest s)) c)"
proof -
  let ?k = "page_index (map ev_EventID (newest s)) c"
  have all: "filter (\<lambda>ev. ev_EventID ev \<noteq> [] \<and> matchEvent ev zero_query) (drop ?k (newest s)) = drop ?k (newest s)"
    using assms(2) in_set_dropD by (fastforce simp: filter_id_conv list_all_iff matchEvent_def zero_query_def time_IsZero_def)
  have "take 1 (drop ?k (newest s)) = [newest s ! ?k]" using assms(1) by (simp add: take_Suc_conv_app_nth [of 0])
  then have res: "take (page_limit 1) (filter (\<lambda>ev. ev_EventID ev \<noteq> [] \<and> matchEvent ev zero_query) (drop ?k (newest s))) = [newest s ! ?k]"
    unfolding all by (simp add: page_limit_def)
  have start: "(if c \<noteq> [] then cursor_start c 0 (newest s) else 0) = ?k" by (simp add: page_index_def cursor_start_ids)
  show ?thesis unfolding Store_EventsPage_def Let_def start scan_loop_take res by (simp add: page_limit_def)
qed

definition demo_events :: "BastionEvent list" where
  "demo_events = rev (map de_Event (sc_Events normalFlow @ sc_Events promptInjection @ sc_Events piiAnonymization))"

definition demo_ids :: "string list" where
  "demo_ids = [''anchor-embedding_secured-150'', ''navigator-search_completed-140'',
     ''vault-anonymization_applied-65'', ''vault-pii_detected-20'', ''sentinel-validation_passed-8'',
     ''sentinel-request_received-0'', ''sentinel-validation_blocked-55'', ''sentinel-prompt_injection_detected-50'',
     ''sentinel-request_received-0'', ''llm-response_generated-1500'', ''anchor-embedding_secured-170'',
     ''navigator-search_completed-160'', ''navigator-search_started-80'', ''vault-anonymization_applied-30'',
     ''vault-request_received-20'', ''sentinel-validation_passed-10'', ''sentinel-request_received-0'']"

lemma demo_events_ids: "map ev_EventID demo_events = demo_ids"
  by code_simp

lemma demo_events_traces: "map ev_TraceID demo_events = replicate 6 ''trace-req-12347'' @ replicate 3 ''trace-req-12346''
    @ replicate 8 ''trace-req-12345''"
  by code_simp

lemma newest_demo_store: "newest demo_store = demo_events"
proof -
  have "length demo_events = 17" using arg_cong [OF demo_events_ids, of length] by (simp add: demo_ids_def)
  then show ?thesis unfolding demo_store_def newest_fold demo_events_def [symmetric] by simp
qed

lemma demo_page_at:
  assumes "page_index demo_ids c < 9"
  shows "map ev_TraceID (ep_Events (demo_page c)) = [(replicate 6 ''trace-req-12347'' @ replicate 3 ''trace-req-12346'') ! page_index demo_ids c]
    \<and> ep_NextCursor (demo_page c) = demo_ids ! page_index demo_ids c"
proof -
  have len: "length demo_events = 17" using arg_cong [OF demo_events_ids, of length] by (simp add: demo_ids_def)
  have k: "page_index (map ev_EventID (newest demo_store)) c = page_index demo_ids c"
    by (simp only: newest_demo_store demo_events_ids)
  have "list_all (\<lambda>ev. ev_EventID ev \<noteq> []) (newest demo_store)"
  proof -
    have "list_all (\<lambda>x. x \<noteq> []) (map ev_EventID demo_events)" unfolding demo_events_ids by (simp add: demo_ids_def)
    then show ?thesis by (simp add: newest_demo_store list_all_iff)
  qed
  from page_of_one [OF _ this, of c] assms len k
  have p: "ep_Events (demo_page c) = [demo_events ! page_index demo_ids c]"
    "ep_NextCursor (demo_page c) = ev_EventID (demo_events ! page_index demo_ids c)"
    by (simp_all add: demo_page_def newest_demo_store)
  have "ev_EventID (demo_events ! page_index demo_ids c) = demo_ids ! page_index demo_ids c"
    using assms len nth_map [of "page_index demo_ids c" demo_events ev_EventID] by (simp add: demo_events_ids)
  moreover have "ev_TraceID (demo_events ! page_index demo_ids c)
      = (replicate 6 ''trace-req-12347'' @ replicate 3 ''trace-req-12346'' @ replicate 8 ''trace-req-12345'') ! page_index demo_ids c"
    using assms len nth_map [of "page_index demo_ids c" demo_events ev_TraceID] by (simp add: demo_events_traces)
  ultimately show ?thesis using assms
    by (cases "page_index demo_ids c < 6") (auto simp: p nth_append)
qed

lemma demo_cursors_indices:
  "list_all (\<lambda>c. page_index demo_ids c < 9 \<and> demo_ids ! page_index demo_ids c \<in> set demo_cursors
     \<and> demo_ids ! page_index demo_ids c \<noteq> []
     \<and> (replicate 6 ''trace-req-12347'' @ replicate 3 ''trace-req-12346'') ! page_index demo_ids c \<noteq> ''trace-req-12345'') demo_cursors"
  by code_simp

lemma demo_cursors_closed:
  assumes "c \<in> set demo_cursors"
  shows "ep_NextCursor (demo_page c) \<in> set demo_cursors \<and> ep_NextCursor (demo_page c) \<noteq> []
     \<and> list_all (\<lambda>ev. ev_TraceID ev \<noteq> ''trace-req-12345'') (ep_Events (demo_page c))"
proof -
  have "page_index demo_ids c < 9" "demo_ids ! page_index demo_ids c \<in> set demo_cursors"
    "demo_ids ! page_index demo_ids c \<noteq> []"
    "(replicate 6 ''trace-req-12347'' @ replicate 3 ''trace-req-12346'') ! page_index demo_ids c \<noteq> ''trace-req-12345''"
    using demo_cursors_indices assms unfolding list_all_iff by blast+
  moreover from this(1) have "map ev_TraceID (ep_Events (demo_page c))
      = [(replicate 6 ''trace-req-12347'' @ replicate 3 ''trace-req-12346'') ! page_index demo_ids c]"
    "ep_NextCursor (demo_page c) = demo_ids ! page_index demo_ids c" using demo_page_at by blast+
  ultimately show ?thesis by (auto simp: list_all_iff map_eq_Cons_conv)
qed

text \<open>
  The identifiers of the scenarios' events break the paging. They are made of module, type and
  offset only, so different scenarios share them, and a page resumes after the newest event with
  the cursor's identifier. After three of the built-in scenarios, a client that follows the
  cursors one event at a time goes round for ever: there is always a next page, and no page ever
  holds an event of the first scenario.
\<close>

theorem builtin_ids_break_paging:
  "(\<forall>n. ep_NextCursor (demo_page (((\<lambda>c. ep_NextCursor (demo_page c)) ^^ n) [])) \<noteq> []
      \<and> list_all (\<lambda>ev. ev_TraceID ev \<noteq> ''trace-req-12345'') (ep_Events (demo_page (((\<lambda>c. ep_NextCursor (demo_page c)) ^^ n) []))))
   \<and> length (filter (\<lambda>ev. ev_TraceID ev = ''trace-req-12345'') (newest demo_store)) = 8"
proof -
  have step: "ep_NextCursor (demo_page c) \<in> set demo_cursors \<and> ep_NextCursor (demo_page c) \<noteq> []
     \<and> list_all (\<lambda>ev. ev_TraceID ev \<noteq> ''trace-req-12345'') (ep_Events (demo_page c))" if "c \<in> set demo_cursors" for c
    by (rule demo_cursors_closed [OF that])
  have "((\<lambda>c. ep_NextCursor (demo_page c)) ^^ n) [] \<in> set demo_cursors" for n
    by (induction n) (simp_all add: step, simp add: demo_cursors_def)
  moreover have "length (filter (\<lambda>ev. ev_TraceID ev = ''trace-req-12345'') (newest demo_store)) = 8"
  proof -
    have "length (filter (\<lambda>ev. ev_TraceID ev = ''trace-req-12345'') demo_events)
        = length (filter (\<lambda>x. x = ''trace-req-12345'') (map ev_TraceID demo_events))"
      unfolding filter_map length_map comp_def ..
    then show ?thesis unfolding newest_demo_store demo_events_traces by simp
  qed
  ultimately show ?thesis using step by blast
qed

definition demo_idle :: Engine where
  "demo_idle = \<lparr>en_scenarios = [], en_running = [], en_closed = [], en_next = 0, en_replays = [], en_broadcaster = False\<rparr>"

lemma record_replay_roundtrip_witness:
  "map (replayed 9) (script_events (replay_script 2 (rp_events (last (en_replays (snd (Replay ''r'' 2
      (AddScenario (the (snd (rec_Stop 8 (fold rec_Record [zero_event] (fst (rec_Start 5 ''r'' [] NewRecorder)))))) demo_idle)))))) []))
   = [zero_event\<lparr>ev_Timestamp := 9\<rparr>]"
proof -
  let ?r1 = "fst (rec_Start 5 ''r'' [] NewRecorder)"
  let ?r2 = "fold rec_Record [zero_event] ?r1"
  let ?sc = "the (snd (rec_Stop 8 ?r2))"
  let ?e = "snd (Replay ''r'' 2 (AddScenario ?sc demo_idle))"
  have a: "rec_Start 5 ''r'' [] NewRecorder = (?r1, True)" by (simp add: rec_Start_def NewRecorder_def)
  have b: "rec_Stop 8 ?r2 = (fst (rec_Stop 8 ?r2), Some ?sc)"
    by (simp add: rec_Stop_def rec_Start_def NewRecorder_def rec_Record_def Let_def)
  have c: "Replay ''r'' 2 (AddScenario ?sc demo_idle) = (None, ?e)"
    by (simp add: Replay_def AddScenario_def rec_Stop_def rec_Start_def NewRecorder_def rec_Record_def demo_idle_def Let_def)
  have d: "rp_speed (last (en_replays ?e)) = 2 \<and> rp_anns (last (en_replays ?e)) = []"
    by (simp add: Replay_def AddScenario_def rec_Stop_def rec_Start_def NewRecorder_def rec_Record_def demo_idle_def Let_def)
  show ?thesis using record_replay_roundtrip [OF a b c, of 9] d by simp
qed

lemma replay_annotation_schedule_witness:
  "script_annotations (replay_script 1 (sc_Events incidentResponse) (sc_Annotations incidentResponse)) = sc_Annotations incidentResponse"
proof -
  let ?e = "AddScenario incidentResponse demo_idle" and ?n = "sc_Name incidentResponse"
  let ?r = "last (en_replays (snd (Replay ?n 1 ?e)))"
  have e: "Replay ?n 1 ?e = (None, snd (Replay ?n 1 ?e))" "Engine_Get ?n ?e = Some incidentResponse"
    by (simp_all add: Replay_def AddScenario_def Engine_Get_def demo_idle_def Let_def)
  have r: "rp_speed ?r = 1" "rp_events ?r = sc_Events incidentResponse" "rp_anns ?r = sc_Annotations incidentResponse"
    by (simp_all add: Replay_def AddScenario_def demo_idle_def Let_def)
  have s: "sorted (map (\<lambda>an. scaled 1 (an_OffsetMs an)) (sc_Annotations incidentResponse))" by code_simp
  have t: "takeWhile (\<lambda>an. \<exists>de \<in> set (sc_Events incidentResponse). note_before 1 an de) (sc_Annotations incidentResponse)
      = sc_Annotations incidentResponse" by code_simp
  show ?thesis
    using replay_annotation_schedule [OF e refl refl _ refl] s t unfolding r by simp
qed

lemma stopped_replay_is_silent_witness:
  "Some (0, EmitEvent \<lparr>de_OffsetMs = 0, de_Event = zero_event\<rparr>) \<notin> set [None :: (nat \<times> emission) option]"
proof -
  let ?sc = "\<lparr>sc_Name = ''r'', sc_Description = [], sc_DurationSec = 0,
    sc_Events = [\<lparr>de_OffsetMs = 0, de_Event = zero_event\<rparr>], sc_Annotations = []\<rparr>"
  let ?e = "snd (Replay ''r'' 1 (AddScenario ?sc demo_idle))"
  let ?e1 = "snd (Engine_Stop ''r'' ?e)"
  have r: "mget (en_running ?e) ''r'' = Some 0" "Engine_Stop ''r'' ?e = (True, ?e1)"
    by (simp_all add: Replay_def Engine_Stop_def demo_idle_def AddScenario_def Let_def)
  have "eng_run ?e1 [None] (AddScenario ?sc ?e1)" by (rule eng_run.run_cons [OF eng_step.add eng_run.run_nil])
  from stopped_replay_is_silent [OF r this] show ?thesis .
qed

lemma restart_loses_replay_witness:
  "\<exists>e4. Engine_Stop ''r'' e4 = (False, e4) \<and> map rp_name (en_replays e4) = [''r'']"
proof -
  define sc where "sc = \<lparr>sc_Name = ''r'', sc_Description = [], sc_DurationSec = 0,
    sc_Events = [\<lparr>de_OffsetMs = 0, de_Event = zero_event\<rparr>], sc_Annotations = []\<rparr>"
  define rp where "rp n = \<lparr>rp_name = ''r'', rp_cancel = n, rp_speed = 1, rp_events = sc_Events sc, rp_anns = []\<rparr>" for n
  define eng where "eng run closed n reps = \<lparr>en_scenarios = [(''r'', sc)], en_running = run, en_closed = closed,
    en_next = n, en_replays = reps, en_broadcaster = False\<rparr>" for run closed n reps
  note defs = Replay_def Engine_Stop_def replay_return_def Let_def eng_def rp_def
  have sc: "sc_Events sc \<noteq> []" "sc_Annotations sc = []" by (simp_all add: sc_def)
  have a: "Replay ''r'' 1 (eng [] [] 0 []) = (None, eng [(''r'', 0)] [] 1 [rp 0])" by (simp add: defs sc)
  have b: "Engine_Stop ''r'' (eng [(''r'', 0)] [] 1 [rp 0]) = (True, eng [] [0] 1 [rp 0])" by (simp add: defs)
  have c: "Replay ''r'' 1 (eng [] [0] 1 [rp 0]) = (None, eng [(''r'', 1)] [0] 2 [rp 0, rp 1])" by (simp add: defs sc)
  have d: "replay_return (length (en_replays (eng [] [] 0 []))) (eng [(''r'', 1)] [0] 2 [rp 0, rp 1])
      = Some (eng [] [0] 2 [rp 1])" by (simp add: defs)
  have "Engine_Stop ''r'' (eng [] [0] 2 [rp 1]) = (False, eng [] [0] 2 [rp 1])"
    by (rule restart_loses_replay [OF a b c d, THEN conjunct2, THEN conjunct2, THEN conjunct1])
  moreover have "map rp_name (en_replays (eng [] [0] 2 [rp 1])) = [''r'']" by (simp add: eng_def rp_def)
  ultimately show ?thesis by (intro exI conjI)
qed

end
