(* ===== verification/Runbook.thy ===== *)
theory Runbook
  imports Config
begin

text \<open>
  internal/runbook/runbook.go: the built-in playbooks and their look-up by identifier and by the
  name of an alert rule, and the two endpoints that serve them.
\<close>

record rbStep =
  rs_Order :: nat
  rs_Title :: string
  rs_Description :: string
  rs_Action :: string
  rs_Command :: string
  rs_Automated :: bool

record RunBook =
  rb_ID :: string
  rb_Name :: string
  rb_Description :: string
  rb_Category :: string
  rb_Severity :: string
  rb_Triggers :: "string list"
  rb_Steps :: "rbStep list"
  rb_EstimatedMinutes :: nat

definition rb_step :: "nat \<Rightarrow> string \<Rightarrow> string \<Rightarrow> string \<Rightarrow> string \<Rightarrow> rbStep" where
  "rb_step n title action desc command =
     \<lparr>rs_Order = n, rs_Title = title, rs_Description = desc, rs_Action = action, rs_Command = command,
      rs_Automated = False\<rparr>"

definition book_prompt_injection :: RunBook where
  "book_prompt_injection =
     \<lparr>rb_ID = ''rb-prompt-injection'', rb_Name = ''Prompt Injection Response'',
      rb_Description = ''Containment and investigation steps for a detected prompt injection attack against the Sentinel module.'',
      rb_Category = ''security'', rb_Severity = ''warning'', rb_Triggers = [''prompt_injection_detected''],
      rb_Steps =
        [rb_step 1 ''Confirm detection'' ''check''
          (''Open the Audit Log and filter by module=sentinel, event_type=prompt_injection_detected. Verify the payload excerpt '' @ [CHR 0xE2, CHR 0x80, CHR 0x94] @ '' rule out test traffic and false positives.'')
          [],
         rb_step 2 ''Identify affected tenant'' ''check''
          ''Note the tenant_id and user_id. Search events from the past 24 h for this user to spot repeated attempts.''
          ''GET /v1/events/search?q=prompt_injection&module=sentinel'',
         rb_step 3 ''Confirm Sentinel blocked it'' ''check''
          (''The event status should be '' @ [CHR 0x27] @ ''blocked'' @ [CHR 0x27] @ ''. If it is '' @ [CHR 0x27] @ ''passed'' @ [CHR 0x27] @ '', treat as a successful injection '' @ [CHR 0xE2, CHR 0x80, CHR 0x94] @ '' escalate immediately.'')
          [],
         rb_step 4 ''Open an incident'' ''containment''
          ''If the system did not auto-create an incident, open one manually on the Security page and link the event_id.''
          [],
         rb_step 5 ''Notify security team'' ''notify''
          ''Send the incident_id, tenant_id, and injected payload excerpt to the security Slack channel.''
          [],
         rb_step 6 ''Harden and document'' ''escalate''
          (''Add the attack pattern to Sentinel'' @ [CHR 0x27] @ ''s detection corpus. Record findings in the incident notes and close the incident.'')
          []],
      rb_EstimatedMinutes = 15\<rparr>"

definition book_honey_token :: RunBook where
  "book_honey_token =
     \<lparr>rb_ID = ''rb-honey-token'', rb_Name = ''Honey Token Triggered'',
      rb_Description = ''Forensic investigation procedure when a canary resource is accessed, indicating potential insider threat or credential compromise.'',
      rb_Category = ''security'', rb_Severity = ''critical'', rb_Triggers = [''honey_token_triggered''],
      rb_Steps =
        [rb_step 1 ''Identify the token'' ''check''
          ''Navigate to Honey Tokens, find the triggered token, and note its type and location. This reveals what data the attacker was after.''
          [],
         rb_step 2 ''Collect trigger metadata'' ''check''
          ''Open the Triggers list for that token. Record source IP, user_id, and tenant_id for every trigger.''
          ''GET /v1/honey-tokens/{id}/triggers'',
         rb_step 3 ''Trace lateral movement'' ''check''
          (''In the Audit Log, search events for the same user/IP in the '' @ [CHR 0xC2, CHR 0xB1] @ ''30 min window around the trigger. Look for other accessed resources.'')
          [],
         rb_step 4 ''Contain the account'' ''containment''
          ''Revoke all active sessions for the implicated user. Coordinate with IAM to disable the account until investigation is complete.''
          [],
         rb_step 5 ''Preserve evidence'' ''containment''
          ''Export all relevant event IDs from the Audit Log before the ring buffer overwrites them. Record them in the incident notes.''
          [],
         rb_step 6 ''Escalate to CISO'' ''escalate''
          ''Honey-token access implies insider threat or credential compromise. Escalate to CISO immediately with a written summary.''
          []],
      rb_EstimatedMinutes = 30\<rparr>"

definition book_cross_tenant :: RunBook where
  "book_cross_tenant =
     \<lparr>rb_ID = ''rb-cross-tenant'', rb_Name = ''Cross-Tenant Access Attempt'',
      rb_Description = ''Steps to respond to data isolation violations detected by the Vault module.'',
      rb_Category = ''security'', rb_Severity = ''warning'', rb_Triggers = [''cross_tenant_attempt''],
      rb_Steps =
        [rb_step 1 ''Identify requester and target'' ''check''
          ''Note the source tenant_id and user_id, and the target tenant they attempted to access.''
          [],
         rb_step 2 ''Verify Vault blocked it'' ''check''
          (''If the event status is '' @ [CHR 0x27] @ ''blocked'' @ [CHR 0x27] @ '', data isolation held. If '' @ [CHR 0x27] @ ''passed'' @ [CHR 0x27] @ '', treat as a data breach and escalate immediately.'')
          [],
         rb_step 3 ''Check for repeated probing'' ''check''
          ''Search events for the same user in the past 1 h. Repeated attempts indicate deliberate enumeration.''
          ''GET /v1/events?module=vault&user_id={user}&since=1h'',
         rb_step 4 ''Invalidate user session'' ''containment''
          (''Force-expire the user'' @ [CHR 0x27] @ ''s session tokens to stop any ongoing probing.'')
          [],
         rb_step 5 ''Audit Vault isolation rules'' ''check''
          ''Verify the tenant isolation configuration in the Vault module is correct for both the source and target tenants.''
          [],
         rb_step 6 ''Notify affected tenant (if breach)'' ''notify''
          ''If the access was not blocked, notify the target tenant per your breach disclosure SLA timeline.''
          []],
      rb_EstimatedMinutes = 20\<rparr>"

definition book_bypass_anomaly :: RunBook where
  "book_bypass_anomaly =
     \<lparr>rb_ID = ''rb-bypass-anomaly'', rb_Name = ''Pipeline Bypass Anomaly'',
      rb_Description = ''Investigate unexpected pipeline routing detected for sensitive or high-risk data.'',
      rb_Category = ''security'', rb_Severity = ''warning'', rb_Triggers = [''bypass_anomaly_detected'', ''any_critical_event''],
      rb_Steps =
        [rb_step 1 ''Review the anomaly event'' ''check''
          (''Open Security Events and find the bypass_anomaly_detected event. Note the anomaly_type field: '' @ [CHR 0x27] @ ''sensitive_label_bypass'' @ [CHR 0x27] @ '' or '' @ [CHR 0x27] @ ''pipeline_downgrade'' @ [CHR 0x27] @ ''.'')
          [],
         rb_step 2 ''Assess the risk'' ''check''
          ''If sensitive_label_bypass: PII data traversed lite/minimal pipeline, skipping Vault. If pipeline_downgrade: a tenant abruptly switched from full to lite without explanation.''
          [],
         rb_step 3 ''Review pipeline routing config'' ''check''
          (''Verify the Navigator module'' @ [CHR 0x27] @ ''s routing rules have not been misconfigured or tampered with.'')
          [],
         rb_step 4 ''Determine if intentional'' ''notify''
          ''Contact the team that owns the tenant. Was this an authorized pipeline change, an A/B experiment, or a bug?''
          [],
         rb_step 5 ''Remediate'' ''containment''
          (''If unintentional: revert the Navigator routing config. If intentional: update the bypass monitor'' @ [CHR 0x27] @ ''s sensitive_labels allowlist to prevent future false alerts.'')
          []],
      rb_EstimatedMinutes = 10\<rparr>"

definition book_module_degraded :: RunBook where
  "book_module_degraded =
     \<lparr>rb_ID = ''rb-module-degraded'', rb_Name = ''Module Health Degraded'',
      rb_Description = ''Triage and recovery runbook for a degraded or down pipeline module.'',
      rb_Category = ''operations'', rb_Severity = ''warning'', rb_Triggers = [''module_degraded''],
      rb_Steps =
        [rb_step 1 ''Identify the degraded module'' ''check''
          ''Check the Dashboard topology view. Note which module is degraded and its current error rate and latency.''
          [],
         rb_step 2 ''Review recent errors'' ''check''
          ''Filter the Audit Log by that module and status=error in the last 5 minutes to understand the failure pattern.''
          ''GET /v1/events?module={module}&status=error&since=5m'',
         rb_step 3 ''Check system resources'' ''command''
          ''On the host running the module, check CPU, memory, and network saturation.''
          ''docker stats {module-container}'',
         rb_step 4 ''Check recent deployments'' ''check''
          ''Was anything deployed in the last 30 minutes? Check deployment logs and git history.''
          [],
         rb_step 5 ''Restart module (if no root cause found)'' ''command''
          ''If the issue persists without a clear root cause, restart the module container.''
          ''docker compose restart {module}'',
         rb_step 6 ''Confirm recovery'' ''check''
          (''Wait 60 seconds. Verify the topology view shows the module back to '' @ [CHR 0x27] @ ''healthy'' @ [CHR 0x27] @ ''. Check error rate has returned to baseline.'')
          []],
      rb_EstimatedMinutes = 20\<rparr>"

definition book_high_error_rate :: RunBook where
  "book_high_error_rate =
     \<lparr>rb_ID = ''rb-high-error-rate'', rb_Name = ''High Error Rate Triage'',
      rb_Description = ''General triage for any module showing elevated error rates or critical events.'',
      rb_Category = ''reliability'', rb_Severity = ''error'', rb_Triggers = [''any_critical_event'', ''*''],
      rb_Steps =
        [rb_step 1 ''Gauge the blast radius'' ''check''
          ''Check the Pipeline Distribution chart on the Dashboard. Is the error rate affecting one tenant or all tenants?''
          [],
         rb_step 2 ''Isolate the module'' ''check''
          ''Filter events by each module to find which one is the source. Use the Audit Log with status=error.''
          [],
         rb_step 3 ''Check downstream impact'' ''check''
          ''High error rate in Sentinel means blocked requests. In Vault it means isolation failures. Understand the user-visible impact.''
          [],
         rb_step 4 ''Alert on-call'' ''notify''
          ''If impact is user-visible, page the on-call engineer with the affected module, tenant count, and error rate.''
          [],
         rb_step 5 ''Apply circuit breaker (if available)'' ''containment''
          ''If the module supports it, enable circuit-breaker mode to fail-safe requests while the issue is resolved.''
          []],
      rb_EstimatedMinutes = 10\<rparr>"

definition Runbook_New :: "RunBook list" where
  "Runbook_New =
     [book_prompt_injection, book_honey_token, book_cross_tenant, book_bypass_anomaly, book_module_degraded, book_high_error_rate]"

definition Runbook_Get :: "string \<Rightarrow> RunBook list \<Rightarrow> RunBook option" where
  "Runbook_Get rid books = List.find (\<lambda>rb. rb_ID rb = rid) books"

text \<open>The inner loop of \<open>ForAlert\<close> stops at the first trigger that fits.\<close>

fun trigger_fits :: "string \<Rightarrow> string list \<Rightarrow> bool" where
  "trigger_fits ruleName [] = False"
| "trigger_fits ruleName (t # ts) = (if t = ruleName \<or> t = ''*'' then True else trigger_fits ruleName ts)"

fun ForAlert :: "string \<Rightarrow> RunBook list \<Rightarrow> RunBook list" where
  "ForAlert ruleName [] = []"
| "ForAlert ruleName (rb # rbs) =
     (if trigger_fits ruleName (rb_Triggers rb) then rb # ForAlert ruleName rbs else ForAlert ruleName rbs)"

definition ListRunBooks :: "request \<Rightarrow> RunBook list option \<Rightarrow> RunBook list reply" where
  "ListRunBooks rq books =
     (case books of
        None \<Rightarrow> writeJSON 200 []
      | Some m \<Rightarrow>
          let rule = query_get rq ''alert'' in
          if rule \<noteq> [] then writeJSON 200 (ForAlert rule m) else writeJSON 200 m)"

definition GetRunBook :: "request \<Rightarrow> RunBook list option \<Rightarrow> RunBook reply" where
  "GetRunBook rq books =
     (case books of
        None \<Rightarrow> writeError 404 ''runbook not found''
      | Some m \<Rightarrow>
          (case Runbook_Get (rq_param rq ''id'') m of
             None \<Rightarrow> writeError 404 ''runbook not found''
           | Some rb \<Rightarrow> writeJSON 200 rb))"

lemma trigger_fits_iff: "trigger_fits r ts \<longleftrightarrow> r \<in> set ts \<or> ''*'' \<in> set ts"
  by (induction ts) auto

lemma ForAlert_filter: "ForAlert r rbs = filter (\<lambda>rb. r \<in> set (rb_Triggers rb) \<or> ''*'' \<in> set (rb_Triggers rb)) rbs"
  by (induction rbs) (auto simp: trigger_fits_iff)

subsection \<open>Properties\<close>

text \<open>
  Every alert has a playbook. Whatever the name of the rule, the general triage book is among
  those found, and for each alert rule of the default settings there is a book before it that
  names the rule itself; the identifiers are distinct, so look-up by identifier finds each book.
\<close>

theorem every_alert_has_runbook:
  "book_high_error_rate \<in> set (ForAlert name Runbook_New)
   \<and> list_all (\<lambda>ru. ru_Name ru \<in> set (rb_Triggers (hd (ForAlert (ru_Name ru) Runbook_New)))) default_rules
   \<and> list_all (\<lambda>rb. Runbook_Get (rb_ID rb) Runbook_New = Some rb) Runbook_New"
proof -
  have a: "''*'' \<in> set (rb_Triggers book_high_error_rate)" "book_high_error_rate \<in> set Runbook_New"
    by (simp_all add: book_high_error_rate_def Runbook_New_def)
  have ids: "map rb_ID Runbook_New = [''rb-prompt-injection'', ''rb-honey-token'', ''rb-cross-tenant'',
      ''rb-bypass-anomaly'', ''rb-module-degraded'', ''rb-high-error-rate'']" by code_simp
  have "distinct (map rb_ID Runbook_New)" unfolding ids by simp
  then have get: "Runbook_Get (rb_ID rb) Runbook_New = Some rb" if "rb \<in> set Runbook_New" for rb
  proof -
    have "find (\<lambda>x. rb_ID x = rb_ID rb) xs = Some rb" if "rb \<in> set xs" "distinct (map rb_ID xs)" for xs
      using that by (induction xs) auto
    then show ?thesis using that \<open>distinct (map rb_ID Runbook_New)\<close> by (simp add: Runbook_Get_def)
  qed
  have b: "list_all (\<lambda>ru. ru_Name ru \<in> set (rb_Triggers (hd (ForAlert (ru_Name ru) Runbook_New)))) default_rules"
    by code_simp
  show ?thesis using a b get by (simp add: ForAlert_filter list_all_iff)
qed

end
