(* ===== verification/Rest_Queries.thy ===== *)
theory Rest_Queries
  imports Http Stats Honeytoken Audit_Log Validator Anomaly Events
begin

text \<open>
  The reading endpoints of internal/api/rest/handlers.go: events, security events, traces,
  lineage, topology, dashboards, incidents, alerts, honey-tokens, anomalies. Each handler is a
  function of the request, the clock and the store; what it iterates over in map order takes the
  order as an argument. Handlers that carry the name of the store operation they call have the
  suffix \<open>_handler\<close>. An empty and a missing JSON list are not told apart, and
  \<open>time.Parse\<close> for RFC 3339 is the parameter \<open>rfc3339\<close>.
\<close>

record EventsResponse =
  evr_Events :: "BastionEvent list"
  evr_Total :: nat

record TracesResponse =
  trr_Traces :: "Trace list"
  trr_Total :: nat

record LineageSourcesResponse =
  lsr_TraceID :: string
  lsr_Found :: bool
  lsr_Chunks :: "ChunkLineageEntry list"

record HealthStatus =
  hs_Status :: string
  hs_Version :: string
  hs_Checks :: "(string, string) gomap"

definition events_reply :: "BastionEvent list \<Rightarrow> EventsResponse reply" where
  "events_reply events = writeJSON 200 \<lparr>evr_Events = events, evr_Total = length events\<rparr>"

definition traces_reply :: "Trace list \<Rightarrow> TracesResponse reply" where
  "traces_reply traces = writeJSON 200 \<lparr>trr_Traces = traces, trr_Total = length traces\<rparr>"

text \<open>The filters of a request; \<open>since\<close> is how far back from now.\<close>

definition parseQuery :: "gotime \<Rightarrow> request \<Rightarrow> QueryRequest" where
  "parseQuery now r =
     (let q = zero_query\<lparr>q_TraceID := query_get r ''trace_id'', q_UserID := query_get r ''user_id'',
                q_TenantID := query_get r ''tenant_id'', q_Module := query_get r ''module'',
                q_Severity := query_get r ''severity'', q_Status := query_get r ''status''\<rparr>;
          since = query_get r ''since''
      in if since \<noteq> [] then
           (case ParseDuration since of
              None \<Rightarrow> q
            | Some d \<Rightarrow> q\<lparr>q_Since := time_Add now (wrap64 (- d))\<rparr>)
         else q)"

subsection \<open>Health\<close>

definition Health :: "HealthStatus reply" where
  "Health = writeJSON 200 \<lparr>hs_Status = ''ok'', hs_Version = ''1.0.0'',
     hs_Checks = [(''store'', ''up''), (''websocket'', ''up''), (''demo_engine'', ''up'')]\<rparr>"

definition Live :: "(string, string) gomap reply" where
  "Live = writeJSON 200 [(''status'', ''alive'')]"

definition Ready :: "(string, string) gomap reply" where
  "Ready = writeJSON 200 [(''status'', ''ready'')]"

definition ReloadConfig :: "(string, string) gomap reply" where
  "ReloadConfig = writeJSON 200 [(''status'', ''reloaded'')]"

subsection \<open>Events\<close>

definition ListEvents :: "gotime \<Rightarrow> request \<Rightarrow> Store \<Rightarrow> EventsResponse reply" where
  "ListEvents now r s =
     (let q = parseQuery now r; limit = intParam r ''limit'' 100
      in events_reply (RecentEvents s q limit))"

definition GetEvent_handler :: "request \<Rightarrow> Store \<Rightarrow> BastionEvent reply" where
  "GetEvent_handler r s =
     (case GetEvent s (rq_param r ''event_id'') of
        None \<Rightarrow> writeError 404 ''event not found''
      | Some ev \<Rightarrow> writeJSON 200 ev)"

definition SearchEvents_handler :: "request \<Rightarrow> Store \<Rightarrow> EventsResponse reply" where
  "SearchEvents_handler r s =
     (let keyword = query_get r ''q''; limit = intParam r ''limit'' 100
      in events_reply (SearchEvents s keyword limit))"

definition GetSecurityEvents :: "gotime \<Rightarrow> request \<Rightarrow> Store \<Rightarrow> EventsResponse reply" where
  "GetSecurityEvents now r s =
     (let limit = intParam r ''limit'' 100;
          severity = query_get r ''severity'';
          mod0 = query_get r ''module'';
          mdl = (if mod0 = [] \<and> severity = [] then ''security'' else mod0);
          q = (parseQuery now r)\<lparr>q_Module := mdl, q_Severity := severity\<rparr>;
          events = RecentEvents s q limit
      in if length events = 0 \<and> mdl = ''security'' \<and> severity = []
         then events_reply (RecentEvents s (q\<lparr>q_Module := [], q_Severity := ''critical''\<rparr>) limit)
         else events_reply events)"

definition newer_event :: "BastionEvent \<Rightarrow> BastionEvent \<Rightarrow> bool" where
  "newer_event a b \<longleftrightarrow> time_After (ev_Timestamp a) (ev_Timestamp b)"

definition RecentActivity :: "Store \<Rightarrow> EventsResponse reply" where
  "RecentActivity s =
     (let events = RecentEvents s (zero_query\<lparr>q_Severity := ''warning''\<rparr>) 20;
          crit = RecentEvents s (zero_query\<lparr>q_Severity := ''critical''\<rparr>) 20;
          errs = RecentEvents s (zero_query\<lparr>q_Severity := ''error''\<rparr>) 20;
          sorted_events = exchange_sort newer_event (events @ crit @ errs)
      in events_reply (if length sorted_events > 20 then take 20 sorted_events else sorted_events))"

definition ListEventsPaged :: "gotime \<Rightarrow> request \<Rightarrow> Store \<Rightarrow> EventsPage reply" where
  "ListEventsPaged now r s =
     (let q = parseQuery now r; cursor = query_get r ''cursor''; limit = intParam r ''limit'' 50
      in writeJSON 200 (Store_EventsPage s q cursor limit))"

text \<open>The export: the name of the download, with the time it was taken, and one event per line.\<close>

definition ExportEvents :: "gotime \<Rightarrow> string \<Rightarrow> request \<Rightarrow> Store \<Rightarrow> (string \<times> BastionEvent list) reply" where
  "ExportEvents now stamp r s =
     (let q = parseQuery now r;
          limit0 = intParam r ''limit'' 10000;
          limit = (if limit0 > 10000 then 10000 else limit0);
          evts = RecentEvents s q limit
      in writeJSON 200 (''events-'' @ stamp @ ''.jsonl'', evts))"

subsection \<open>Traces and lineage\<close>

definition ListTraces :: "((string, Trace) gomap \<Rightarrow> (string, Trace) gomap) \<Rightarrow> gotime \<Rightarrow> request \<Rightarrow> Store \<Rightarrow> TracesResponse reply" where
  "ListTraces ord now r s =
     (let q = parseQuery now r; limit = intParam r ''limit'' 50
      in traces_reply (RecentTraces ord s q limit))"

definition ListTracesByUser :: "((string, Trace) gomap \<Rightarrow> (string, Trace) gomap) \<Rightarrow> request \<Rightarrow> Store \<Rightarrow> TracesResponse reply" where
  "ListTracesByUser ord r s =
     (let userID = rq_param r ''user_id''; limit = intParam r ''limit'' 50
      in traces_reply (RecentTraces ord s (zero_query\<lparr>q_UserID := userID\<rparr>) limit))"

definition GetTrace_handler :: "request \<Rightarrow> Store \<Rightarrow> Trace reply" where
  "GetTrace_handler r s =
     (case GetTrace s (rq_param r ''trace_id'') of
        None \<Rightarrow> writeError 404 ''trace not found''
      | Some tr \<Rightarrow> writeJSON 200 tr)"

definition GetTraceTimeline_handler :: "request \<Rightarrow> Store \<Rightarrow> TraceTimeline reply" where
  "GetTraceTimeline_handler r s =
     (case GetTraceTimeline s (rq_param r ''trace_id'') of
        None \<Rightarrow> writeError 404 ''trace not found''
      | Some tt \<Rightarrow> writeJSON 200 tt)"

text \<open>
  The traces that touched a data element: those of the events found by searching for it. The
  second result is what is published when there is a publisher.
\<close>

definition LineageByDataRef ::
    "(string list \<Rightarrow> string list) \<Rightarrow> string \<Rightarrow> gotime \<Rightarrow> Publisher option \<Rightarrow> request \<Rightarrow> Store
       \<Rightarrow> TracesResponse reply \<times> (string \<times> TrackerEvent) list" where
  "LineageByDataRef ord rid now pub r s =
     (let dataRef = rq_param r ''data_ref'';
          limit = intParam r ''limit'' 50;
          evts = SearchEvents s dataRef limit;
          traceIDs = remdups (filter (\<lambda>t. t \<noteq> []) (map ev_TraceID evts));
          traces = List.map_filter (GetTrace s) (ord traceIDs)
      in (traces_reply traces,
          Publish pub (EventLineageCompleted rid now [] ''data_ref'' (query_get r ''tenant_id'') (int (length traces)))))"

definition time_param :: "(string \<Rightarrow> gotime option) \<Rightarrow> request \<Rightarrow> string \<Rightarrow> gotime" where
  "time_param rfc3339 r key =
     (let v = query_get r key
      in if v \<noteq> [] then (case rfc3339 v of None \<Rightarrow> 0 | Some t \<Rightarrow> t) else 0)"

definition LineageAudit ::
    "(string \<Rightarrow> gotime option) \<Rightarrow> string \<Rightarrow> gotime \<Rightarrow> Publisher option \<Rightarrow> request \<Rightarrow> Store
       \<Rightarrow> EventsResponse reply \<times> (string \<times> TrackerEvent) list" where
  "LineageAudit rfc3339 rid now pub r s =
     (let limit = intParam r ''limit'' 200;
          q = zero_query\<lparr>q_TenantID := query_get r ''tenant_id'', q_Since := time_param rfc3339 r ''from'',
                q_Until := time_param rfc3339 r ''to''\<rparr>;
          evts = RecentEvents s q limit
      in (events_reply evts,
          Publish pub (EventLineageCompleted rid now [] ''audit'' (q_TenantID q) (int (length evts)))))"

definition GetLineageSources_handler :: "request \<Rightarrow> Store \<Rightarrow> LineageSourcesResponse reply" where
  "GetLineageSources_handler r s =
     (let traceID = rq_param r ''trace_id'' in
      case GetLineageSources s traceID of
        None \<Rightarrow> writeJSON 200 \<lparr>lsr_TraceID = traceID, lsr_Found = False, lsr_Chunks = []\<rparr>
      | Some chunks \<Rightarrow> writeJSON 200 \<lparr>lsr_TraceID = traceID, lsr_Found = True, lsr_Chunks = chunks\<rparr>)"

subsection \<open>Topology and dashboards\<close>

definition Topology_handler :: "gotime \<Rightarrow> gotime \<Rightarrow> Store \<Rightarrow> TopologySnapshot reply" where
  "Topology_handler now now' s = writeJSON 200 (Topology now now' s)"

definition TopologyHealth :: "gotime \<Rightarrow> gotime \<Rightarrow> Store \<Rightarrow> (gotime \<times> ModuleHealth list) reply" where
  "TopologyHealth now now' s =
     (let snap = Topology now now' s in writeJSON 200 (ts_UpdatedAt snap, ts_Modules snap))"

definition PipelineStats_handler :: "gotime \<Rightarrow> gotime \<Rightarrow> Store \<Rightarrow> PipelineStats reply" where
  "PipelineStats_handler now now' s = writeJSON 200 (Store_PipelineStats now now' s)"

definition DashboardSummary_handler ::
    "((string, int) gomap \<Rightarrow> (string, int) gomap) \<Rightarrow> gotime \<Rightarrow> Store \<Rightarrow> DashboardSummary reply" where
  "DashboardSummary_handler ord now s = writeJSON 200 (Store_DashboardSummary ord now s)"

definition PipelineHealth_handler :: "gotime \<Rightarrow> gotime \<Rightarrow> Store \<Rightarrow> PipelineHealthResponse reply" where
  "PipelineHealth_handler now now' s = writeJSON 200 (PipelineHealth now now' s)"

definition TenantDashboard :: "gotime \<Rightarrow> request \<Rightarrow> Store \<Rightarrow> TenantActivity reply" where
  "TenantDashboard now r s = writeJSON 200 (Store_TenantActivity now s (rq_param r ''tenant_id''))"

subsection \<open>Incidents, alerts, honey-tokens, dead letters, anomalies\<close>

definition ListIncidents_handler ::
    "((string, Incident) gomap \<Rightarrow> (string, Incident) gomap) \<Rightarrow> request \<Rightarrow> Store \<Rightarrow> Incident list reply" where
  "ListIncidents_handler ord r s = writeJSON 200 (ListIncidents ord s (query_get r ''status''))"

definition ListAlerts_handler ::
    "((string, Alert) gomap \<Rightarrow> (string, Alert) gomap) \<Rightarrow> request \<Rightarrow> Store \<Rightarrow> Alert list reply" where
  "ListAlerts_handler ord r s = writeJSON 200 (ListAlerts ord s (query_get r ''status''))"

definition ListHoneyTokens ::
    "((string, HoneyToken) gomap \<Rightarrow> (string, HoneyToken) gomap) \<Rightarrow> Store \<Rightarrow> HoneyToken list reply" where
  "ListHoneyTokens ord s = writeJSON 200 (ListTokens ord s)"

definition HoneyTokenTriggers :: "request \<Rightarrow> Store \<Rightarrow> HoneyTokenTrigger list reply" where
  "HoneyTokenTriggers r s = writeJSON 200 (TokenTriggers s (rq_param r ''id''))"

definition AllHoneyTokenTriggers ::
    "((string, HoneyTokenTrigger list) gomap \<Rightarrow> (string, HoneyTokenTrigger list) gomap) \<Rightarrow> Store
       \<Rightarrow> HoneyTokenTrigger list reply" where
  "AllHoneyTokenTriggers ord s = writeJSON 200 (AllTriggers ord s)"

definition ListDeadLetters :: "Validator option \<Rightarrow> DeadLetterEntry list reply" where
  "ListDeadLetters vo = (case vo of None \<Rightarrow> writeJSON 200 [] | Some v \<Rightarrow> writeJSON 200 (DeadLetters v))"

text \<open>The audit endpoint around \<open>VerifyAuditLog\<close>, which reports \<open>None\<close> without a signer.\<close>

definition VerifyAuditLog_handler ::
    "(string \<Rightarrow> string \<Rightarrow> string) \<Rightarrow> Signer option \<Rightarrow> gotime \<Rightarrow> request \<Rightarrow> Store \<Rightarrow> AuditVerifyResult reply" where
  "VerifyAuditLog_handler mac sg now r s =
     (case VerifyAuditLog mac sg s (parseQuery now r) (intParam r ''limit'' 1000) of
        None \<Rightarrow> writeError 503 ''audit signing not configured''
      | Some result \<Rightarrow> writeJSON 200 result)"

definition AnomalyBaselines ::
    "((baselineKey, AnomalyBaseline) gomap \<Rightarrow> (baselineKey, AnomalyBaseline) gomap) \<Rightarrow> Detector option
       \<Rightarrow> AnomalyBaseline list reply" where
  "AnomalyBaselines ord det =
     (case det of None \<Rightarrow> writeJSON 200 [] | Some d \<Rightarrow> writeJSON 200 (listBaselines ord (dt_baseline d)))"

definition AnomalyEvents :: "gotime \<Rightarrow> Detector option \<Rightarrow> AnomalyEvent list reply" where
  "AnomalyEvents now det =
     (case det of None \<Rightarrow> writeJSON 200 [] | Some d \<Rightarrow> writeJSON 200 (Detector_Recent now d))"

subsection \<open>Recent activity\<close>

interpretation newer_event: strict_weak_order newer_event
  unfolding newer_event_def time_After_def by (rule strict_weak_order_greater)

text \<open>The events the endpoint is about: those retained with severity warning, critical or error.\<close>

definition of_severity :: "string \<Rightarrow> Store \<Rightarrow> BastionEvent list" where
  "of_severity sev s = filter (\<lambda>ev. stored ev \<and> ev_Severity ev = sev) (newest s)"

definition activity :: "Store \<Rightarrow> BastionEvent multiset" where
  "activity s = filter_mset (\<lambda>ev. stored ev \<and> ev_Severity ev \<in> {''warning'', ''critical'', ''error''}) (mset (newest s))"

lemma RecentEvents_severity:
  "sev \<noteq> [] \<Longrightarrow> 0 < n \<Longrightarrow> RecentEvents s (zero_query\<lparr>q_Severity := sev\<rparr>) n = take (nat n) (of_severity sev s)"
  by (simp add: RecentEvents_eq of_severity_def default_limit_def matchEvent_iff zero_query_def stored_def go_simps)

lemma activity_split:
  "mset (concat [of_severity ''warning'' s, of_severity ''critical'' s, of_severity ''error'' s]) = activity s"
proof -
  have "mset (filter (\<lambda>ev. stored ev \<and> ev_Severity ev = ''warning'') xs
        @ filter (\<lambda>ev. stored ev \<and> ev_Severity ev = ''critical'') xs
        @ filter (\<lambda>ev. stored ev \<and> ev_Severity ev = ''error'') xs)
      = filter_mset (\<lambda>ev. stored ev \<and> ev_Severity ev \<in> {''warning'', ''critical'', ''error''}) (mset xs)" for xs
    by (induction xs) auto
  then show ?thesis by (simp add: of_severity_def activity_def)
qed

lemma of_severity_sorted:
  assumes "newest_first (newest s)"
  shows "sorted_wrt (\<lambda>x y. \<not> newer_event y x) (of_severity sev s)"
proof -
  have "of_severity sev s = filter (\<lambda>ev. ev_Severity ev = sev) (filter stored (newest s))"
    by (simp add: of_severity_def conj_commute)
  moreover have "sorted_wrt (\<lambda>x y. \<not> newer_event y x) (filter stored (newest s))"
    using assms by (simp add: newest_first_def newer_event_def go_simps not_less)
  ultimately show ?thesis using sorted_wrt_filter by metis
qed

lemma RecentActivity_eq:
  "RecentActivity s = events_reply (take 20 (exchange_sort newer_event (concat (map (take 20)
      [of_severity ''warning'' s, of_severity ''critical'' s, of_severity ''error'' s]))))"
  by (simp add: RecentActivity_def RecentEvents_severity Let_def)

subsection \<open>Properties\<close>

text \<open>
  The activity feed shows the newest trouble. When events arrive in time order the feed
  holds the newest warnings, errors and critical events of the retained log together: at most
  twenty, newest first, each as often as it is retained, and none left out is newer than one shown.
  Cutting each of the three queries at twenty before merging loses nothing.
\<close>

theorem recent_activity_newest:
  assumes "newest_first (newest s)"
  shows "case RecentActivity s of
      Reply n b \<Rightarrow> n = 200 \<and> evr_Total b = min 20 (size (activity s)) \<and> length (evr_Events b) = evr_Total b
        \<and> sorted_wrt (\<lambda>x y. ev_Timestamp y \<le> ev_Timestamp x) (evr_Events b)
        \<and> mset (evr_Events b) \<subseteq># activity s
        \<and> Ball (set (evr_Events b)) (\<lambda>x. Ball (set_mset (activity s - mset (evr_Events b)))
             (\<lambda>y. ev_Timestamp y \<le> ev_Timestamp x))
    | _ \<Rightarrow> False"
proof -
  let ?xss = "[of_severity ''warning'' s, of_severity ''critical'' s, of_severity ''error'' s]"
  let ?S = "exchange_sort newer_event (concat (map (take 20) ?xss))"
  have size: "size (activity s) = length (concat ?xss)" unfolding activity_split [symmetric] by simp
  have "\<And>xs. xs \<in> set ?xss \<Longrightarrow> sorted_wrt (\<lambda>x y. \<not> newer_event y x) xs"
    using of_severity_sorted [OF assms] by auto
  note merge = newer_event.merge_take [OF this]
  have "ev_Timestamp y \<le> ev_Timestamp x"
    if "x \<in> set (take 20 ?S)" and "y \<in># activity s - mset (take 20 ?S)" for x y
    using merge [OF _ that(1) that(2) [folded activity_split]] by (simp add: newer_event_def go_simps not_less)
  moreover have "sorted_wrt (\<lambda>x y. ev_Timestamp y \<le> ev_Timestamp x) (take 20 ?S)"
    using sorted_wrt_take [OF newer_event.exchange_sort_sorted, of 20 "concat (map (take 20) ?xss)"]
    by (simp add: newer_event_def go_simps not_less)
  ultimately show ?thesis
    unfolding RecentActivity_eq events_reply_def writeJSON_def size reply.case EventsResponse.simps
    using newer_event.merge_length [of 20 ?xss] newer_event.merge_submset [of 20 ?xss, unfolded activity_split]
    by blast
qed

definition demo_activity :: Store where
  "demo_activity = fold AddEvent
     [zero_event\<lparr>ev_EventID := ''a'', ev_Severity := ''warning'', ev_Timestamp := 1\<rparr>,
      zero_event\<lparr>ev_EventID := ''b'', ev_Severity := ''info'', ev_Timestamp := 2\<rparr>,
      zero_event\<lparr>ev_EventID := ''c'', ev_Severity := ''critical'', ev_Timestamp := 3\<rparr>] (Store_New 5)"

lemma demo_activity_times: "map ev_Timestamp (filter stored (newest demo_activity)) = [3, 2, 1]"
  by code_simp

lemma demo_activity_size: "length (of_severity ''warning'' demo_activity) + length (of_severity ''critical'' demo_activity)
      + length (of_severity ''error'' demo_activity) = 2"
  by code_simp

lemma recent_activity_newest_witness:
  "case RecentActivity demo_activity of Reply n b \<Rightarrow> evr_Total b = 2 | _ \<Rightarrow> False"
proof -
  have "sorted_wrt (\<lambda>a b. b \<le> a) (map ev_Timestamp (filter stored (newest demo_activity)))"
    unfolding demo_activity_times by simp
  then have nf: "newest_first (newest demo_activity)" unfolding newest_first_def sorted_wrt_map .
  have sz: "size (activity demo_activity) = 2"
    using demo_activity_size unfolding activity_split [symmetric] by simp
  show ?thesis using recent_activity_newest [OF nf] unfolding sz by (cases "RecentActivity demo_activity") simp_all
qed

end
