(* ===== verification/Rest_Api.thy ===== *)
theory Rest_Api
  imports Config Demo Rest_Queries
begin

text \<open>
  The endpoints of internal/api/rest/handlers.go that change the tracker, over the
  state \<open>handlers\<close> (the struct of that name; its store is the one the processor holds, its user
  manager is theory Users), with what they send collected in \<open>h_out\<close>. \<open>ingest\<close> composes
  \<open>Process\<close> with the hooks that start-up registers: the monitor (cmd/tracker-cli/main.go), the
  anomaly detector (there too) and the recorder (internal/api/rest/server.go). An event that a
  goroutine will process later is an \<open>OutSpawn\<close>; processing it is a later \<open>ingest\<close>.
\<close>

datatype outgoing =
    OutWS WSMessage
  | OutPub "string \<times> TrackerEvent"
  | OutSpawn BastionEvent
  | OutJob DispatchJob
  | OutPush monitor_push
  | OutAnomaly AnomalyEvent

record handlers =
  h_proc :: Processor
  h_demo :: Engine
  h_anomaly :: "Detector option"
  h_recorder :: "Recorder option"
  h_mon :: "Monitor option"
  h_out :: "outgoing list"

definition emit :: "outgoing list \<Rightarrow> handlers \<Rightarrow> handlers" where
  "emit outs h = h\<lparr>h_out := h_out h @ outs\<rparr>"

definition on_store :: "(Store \<Rightarrow> Store \<times> 'a) \<Rightarrow> handlers \<Rightarrow> handlers \<times> 'a" where
  "on_store f h = (let (s', x) = f (pr_store (h_proc h)) in (h\<lparr>h_proc := (h_proc h)\<lparr>pr_store := s'\<rparr>\<rparr>, x))"

text \<open>\<open>rest.New\<close>: the handlers of a started server, with a fresh recorder.\<close>

definition Rest_New :: "components \<Rightarrow> handlers" where
  "Rest_New co = \<lparr>h_proc = co_proc co, h_demo = SetBroadcaster NewEngine, h_anomaly = co_detector co,
     h_recorder = Some NewRecorder, h_mon = Some (co_monitor co), h_out = []\<rparr>"

subsection \<open>An event and the hooks\<close>

text \<open>What one call of \<open>Process\<close> with its hooks reads from outside.\<close>

record IngestEnv =
  ge_env :: Env
  ge_session :: string
  ge_step :: string
  ge_inspect :: InspectEnv

definition fx_outputs :: "Effects \<Rightarrow> outgoing list" where
  "fx_outputs fx = map OutSpawn (fx_spawn fx) @ map OutPub (fx_pub fx) @ map OutJob (fx_jobs fx) @ map OutWS (fx_ws fx)"

definition observe_hook :: "IngestEnv \<Rightarrow> BastionEvent \<Rightarrow> handlers \<Rightarrow> handlers" where
  "observe_hook env ev h =
     (case h_mon h of
        None \<Rightarrow> h
      | Some m \<Rightarrow>
          let (m', ps) = ObserveEvent (GetMode m) (ge_session env) (ge_step env) ev m
          in emit (map OutPush ps) (h\<lparr>h_mon := Some m'\<rparr>))"

definition inspect_hook :: "IngestEnv \<Rightarrow> BastionEvent \<Rightarrow> handlers \<Rightarrow> handlers" where
  "inspect_hook env ev h =
     (case h_anomaly h of
        None \<Rightarrow> h
      | Some d \<Rightarrow>
          let (d', ans) = Inspect (ge_inspect env) ev d
          in emit (concat (map (\<lambda>an. [OutAnomaly an, OutSpawn (OnAnomaly an)]) ans)) (h\<lparr>h_anomaly := Some d'\<rparr>))"

definition record_hook :: "BastionEvent \<Rightarrow> handlers \<Rightarrow> handlers" where
  "record_hook ev h = h\<lparr>h_recorder := map_option (rec_Record ev) (h_recorder h)\<rparr>"

definition run_hooks :: "IngestEnv \<Rightarrow> BastionEvent \<Rightarrow> handlers \<Rightarrow> handlers" where
  "run_hooks env ev h = record_hook ev (inspect_hook env ev (observe_hook env ev h))"

definition ingest ::
    "(string \<Rightarrow> string \<Rightarrow> string) \<Rightarrow> (BastionEvent \<Rightarrow> string) \<Rightarrow> IngestEnv \<Rightarrow> BastionEvent \<Rightarrow> handlers \<Rightarrow> handlers" where
  "ingest mac marshal env ev h =
     (let (p', fx) = Process mac marshal (ge_env env) ev (h_proc h)
      in fold (run_hooks env) (fx_hooks fx) (emit (fx_outputs fx) (h\<lparr>h_proc := p'\<rparr>)))"

fun ingest_list ::
    "(string \<Rightarrow> string \<Rightarrow> string) \<Rightarrow> (BastionEvent \<Rightarrow> string) \<Rightarrow> (nat \<Rightarrow> IngestEnv) \<Rightarrow> nat \<Rightarrow> BastionEvent list \<Rightarrow> handlers \<Rightarrow> handlers" where
  "ingest_list mac marshal envs n [] h = h"
| "ingest_list mac marshal envs n (ev # evs) h =
     ingest_list mac marshal envs (Suc n) evs (ingest mac marshal (envs n) ev h)"

subsection \<open>Event submission\<close>

definition SubmitEvent ::
    "(string \<Rightarrow> string \<Rightarrow> string) \<Rightarrow> (BastionEvent \<Rightarrow> string) \<Rightarrow> IngestEnv \<Rightarrow> BastionEvent decoded \<Rightarrow> handlers
       \<Rightarrow> SubmitResponse reply \<times> handlers" where
  "SubmitEvent mac marshal env body = decodeJSON body (\<lambda>ev h.
     let h' = ingest mac marshal env ev h
     in (writeJSON 202 \<lparr>sr_EventID = ev_EventID ev, sr_Accepted = True\<rparr>, h'))"

definition SubmitBatch ::
    "(string \<Rightarrow> string \<Rightarrow> string) \<Rightarrow> (BastionEvent \<Rightarrow> string) \<Rightarrow> (nat \<Rightarrow> IngestEnv) \<Rightarrow> BastionEvent list decoded \<Rightarrow> handlers
       \<Rightarrow> BatchResponse reply \<times> handlers" where
  "SubmitBatch mac marshal envs body = decodeJSON body (\<lambda>evs h.
     let h' = ingest_list mac marshal envs 0 evs h
     in (writeJSON 202 \<lparr>br_Accepted = length evs, br_Rejected = 0\<rparr>, h'))"

subsection \<open>Incidents, alerts, honey-tokens\<close>

text \<open>The notes of a resolution are empty when the body cannot be decoded: its error is ignored.\<close>

definition ResolveIncident :: "gotime \<Rightarrow> request \<Rightarrow> string decoded \<Rightarrow> handlers \<Rightarrow> Incident reply \<times> handlers" where
  "ResolveIncident now r body h =
     (let notes = (case body of Inl _ \<Rightarrow> [] | Inr n \<Rightarrow> n);
          (h', res) = on_store (\<lambda>s. let (inc, s') = Incident_Resolve now (rq_param r ''id'') notes s in (s', inc)) h
      in case res of
           None \<Rightarrow> (writeError 404 ''incident not found'', h')
         | Some inc \<Rightarrow> (writeJSON 200 inc, h'))"

definition AcknowledgeAlert_handler :: "gotime \<Rightarrow> request \<Rightarrow> handlers \<Rightarrow> (string, string) gomap reply \<times> handlers" where
  "AcknowledgeAlert_handler now r h =
     (let (h', ok) = on_store (AcknowledgeAlert now (rq_param r ''id'')) h
      in if \<not> ok then (writeError 404 ''alert not found'', h')
         else (writeJSON 200 [(''status'', ''acknowledged'')], h'))"

definition ResolveAlert_handler :: "gotime \<Rightarrow> request \<Rightarrow> handlers \<Rightarrow> (string, string) gomap reply \<times> handlers" where
  "ResolveAlert_handler now r h =
     (let (h', ok) = on_store (ResolveAlert now (rq_param r ''id'')) h
      in if \<not> ok then (writeError 404 ''alert not found'', h')
         else (writeJSON 200 [(''status'', ''resolved'')], h'))"

record HoneyTokenBody =
  hb_Name :: string
  hb_Description :: string
  hb_Location :: string
  hb_Type :: string

definition CreateHoneyToken :: "gotime \<Rightarrow> HoneyTokenBody decoded \<Rightarrow> handlers \<Rightarrow> HoneyToken reply \<times> handlers" where
  "CreateHoneyToken now body = decodeJSON body (\<lambda>b h.
     let (tok, hm', s') = HT_Create now (hb_Name b) (hb_Description b) (hb_Location b) (hb_Type b)
                            (pr_honey (h_proc h), pr_store (h_proc h))
     in (writeJSON 201 tok, h\<lparr>h_proc := (h_proc h)\<lparr>pr_honey := hm', pr_store := s'\<rparr>\<rparr>))"

definition DeleteHoneyToken :: "request \<Rightarrow> handlers \<Rightarrow> unit reply \<times> handlers" where
  "DeleteHoneyToken r h =
     (let (h', ok) = on_store (HT_Delete (rq_param r ''id'')) h
      in if \<not> ok then (writeError 404 ''token not found'', h') else (NoContent, h'))"

text \<open>The lifecycle tick of the alert manager, which runs beside the requests.\<close>

definition alerts_tick ::
    "((string, Alert) gomap \<Rightarrow> (string, Alert) gomap) \<Rightarrow> gotime \<Rightarrow> (string \<Rightarrow> gotime) \<Rightarrow> handlers \<Rightarrow> handlers" where
  "alerts_tick ord now clk h =
     (let p = h_proc h;
          (s', mx', jobs) = runLifecycleTick ord now clk (pr_alerts p) (pr_store p, pr_metrics p)
      in emit (map OutJob jobs) (h\<lparr>h_proc := p\<lparr>pr_store := s', pr_metrics := mx'\<rparr>\<rparr>))"

subsection \<open>Demo and recording\<close>

definition ListScenarios ::
    "((string, DemoScenario) gomap \<Rightarrow> (string, DemoScenario) gomap) \<Rightarrow> handlers \<Rightarrow> DemoScenario list reply" where
  "ListScenarios ord h = writeJSON 200 (map (\<lambda>sc. sc\<lparr>sc_Events := []\<rparr>) (Engine_List ord (h_demo h)))"

definition GetScenario :: "request \<Rightarrow> handlers \<Rightarrow> DemoScenario reply" where
  "GetScenario r h =
     (case Engine_Get (rq_param r ''name'') (h_demo h) of
        None \<Rightarrow> writeError 404 ''scenario not found''
      | Some sc \<Rightarrow> writeJSON 200 sc)"

definition ReplayScenario ::
    "(string \<Rightarrow> string) \<Rightarrow> (string \<times> rat) decoded \<Rightarrow> handlers \<Rightarrow> (string, string) gomap reply \<times> handlers" where
  "ReplayScenario quote body = decodeJSON body (\<lambda>(name, speed) h.
     let (err, e') = Replay name speed (h_demo h); h' = h\<lparr>h_demo := e'\<rparr>
     in case err of
          Some e \<Rightarrow> (writeError 400 (replay_error_text quote e), h')
        | None \<Rightarrow> (writeJSON 200 [(''status'', ''started''), (''scenario'', name)], h'))"

definition InjectEvent ::
    "(string \<Rightarrow> string \<Rightarrow> string) \<Rightarrow> (BastionEvent \<Rightarrow> string) \<Rightarrow> IngestEnv \<Rightarrow> gotime \<Rightarrow> BastionEvent decoded \<Rightarrow> handlers
       \<Rightarrow> (string, string) gomap reply \<times> handlers" where
  "InjectEvent mac marshal env now body = decodeJSON body (\<lambda>ev h.
     let h' = ingest mac marshal env (Inject now ev) h in (writeJSON 200 [(''status'', ''injected'')], h'))"

definition ActiveScenarios_handler ::
    "((string, nat) gomap \<Rightarrow> (string, nat) gomap) \<Rightarrow> handlers \<Rightarrow> (string, string list) gomap reply" where
  "ActiveScenarios_handler ord h = writeJSON 200 [(''active'', ActiveScenarios ord (h_demo h))]"

definition StopScenario :: "string decoded \<Rightarrow> handlers \<Rightarrow> (string, string) gomap reply \<times> handlers" where
  "StopScenario body = decodeJSON body (\<lambda>name h.
     (writeJSON 200 [(''status'', ''stopped'')], h\<lparr>h_demo := snd (Engine_Stop name (h_demo h))\<rparr>))"

text \<open>The name and description of a recording; \<open>stamp\<close> is the time as written into a default name.\<close>

definition StartRecording ::
    "gotime \<Rightarrow> string \<Rightarrow> (string \<times> string) decoded \<Rightarrow> handlers \<Rightarrow> RecordingStatus reply \<times> handlers" where
  "StartRecording now stamp body h =
     (case h_recorder h of
        None \<Rightarrow> (writeError 503 ''recorder not available'', h)
      | Some rec \<Rightarrow> decodeJSON body (\<lambda>(name0, desc) h.
          let name = (if name0 = [] then ''recorded-'' @ stamp else name0);
              (rec', ok) = rec_Start now name desc rec
          in if \<not> ok then (writeError 409 ''recording already in progress'', h)
             else (writeJSON 200 (rec_Status rec'), h\<lparr>h_recorder := Some rec'\<rparr>)) h)"

definition StopRecording :: "gotime \<Rightarrow> handlers \<Rightarrow> RecordingStatus reply \<times> handlers" where
  "StopRecording now h =
     (case h_recorder h of
        None \<Rightarrow> (writeError 503 ''recorder not available'', h)
      | Some rec \<Rightarrow>
          (case rec_Stop now rec of
             (rec', None) \<Rightarrow> (writeError 409 ''no active recording'', h)
           | (rec', Some sc) \<Rightarrow>
               (writeJSON 200 (rec_Status rec'),
                h\<lparr>h_demo := AddScenario sc (h_demo h), h_recorder := Some rec'\<rparr>)))"

definition RecordingStatus_handler :: "handlers \<Rightarrow> RecordingStatus reply" where
  "RecordingStatus_handler h =
     (case h_recorder h of
        None \<Rightarrow> writeError 503 ''recorder not available''
      | Some rec \<Rightarrow> writeJSON 200 (rec_Status rec))"

subsection \<open>Monitor\<close>

definition no_monitor :: "'b reply" where
  "no_monitor = writeError 503 ''monitoring not available''"

record MonitorOverview =
  mo_mode :: string
  mo_active_sessions :: nat
  mo_pending_checkpoints :: nat

definition MonitorGetMode ::
    "((string, Checkpoint) gomap \<Rightarrow> (string, Checkpoint) gomap) \<Rightarrow> ((string, nat) gomap \<Rightarrow> (string, nat) gomap) \<Rightarrow> handlers
       \<Rightarrow> MonitorOverview reply" where
  "MonitorGetMode ord1 ord2 h =
     (case h_mon h of
        None \<Rightarrow> no_monitor
      | Some m \<Rightarrow>
          writeJSON 200 \<lparr>mo_mode = GetMode m,
            mo_active_sessions = length (filter (\<lambda>s. ss_Status s = ''active'') (ListSessions ord2 m)),
            mo_pending_checkpoints = length (ListCheckpoints ord1 True m)\<rparr>)"

record ModeChange =
  mg_previous_mode :: string
  mg_mode :: string
  mg_reason :: string
  mg_changed_at :: gotime

definition mode_of_text :: "string \<Rightarrow> string option" where
  "mode_of_text x =
     (if x = ''off'' then Some ModeOff else if x = ''observe'' then Some ModeObserve
      else if x = ''gate'' then Some ModeGate else None)"

text \<open>
  The two requests below hold the mutex of the monitor while they send to a channel: they are
  \<open>None\<close> when that send would block. The operator's name is always empty, because the token
  middleware stores the claims under another context key than the one that is read here.
\<close>

definition decodeBlocking ::
    "'a decoded \<Rightarrow> ('a \<Rightarrow> 's \<Rightarrow> ('b reply \<times> 's) option) \<Rightarrow> 's \<Rightarrow> ('b reply \<times> 's) option" where
  "decodeBlocking body k s =
     (case body of Inl err \<Rightarrow> Some (writeError 400 (''invalid JSON: '' @ err), s) | Inr req \<Rightarrow> k req s)"

definition invalid_mode :: string where
  "invalid_mode = ''invalid mode '' @ [CHR 0xE2, CHR 0x80, CHR 0x94] @ '' must be one of: '' @ go_quote ''off'' @ '', ''
     @ go_quote ''observe'' @ '', '' @ go_quote ''gate''"

definition MonitorSetMode ::
    "(string list \<Rightarrow> string list) \<Rightarrow> gotime \<Rightarrow> (string \<times> string) decoded \<Rightarrow> handlers \<Rightarrow> (ModeChange reply \<times> handlers) option" where
  "MonitorSetMode ord now body h =
     (case h_mon h of
        None \<Rightarrow> Some (no_monitor, h)
      | Some m \<Rightarrow>
          decodeBlocking body (\<lambda>(modeText, reason) h.
            (case mode_of_text modeText of
               None \<Rightarrow> Some (writeError 400 invalid_mode, h)
             | Some md \<Rightarrow>
                 map_option (\<lambda>m'. (writeJSON 200 \<lparr>mg_previous_mode = GetMode m, mg_mode = md, mg_reason = reason,
                     mg_changed_at = now\<rparr>, h\<lparr>h_mon := Some m'\<rparr>)) (SetMode ord md m))) h)"

definition MonitorListSessions ::
    "((string, nat) gomap \<Rightarrow> (string, nat) gomap) \<Rightarrow> request \<Rightarrow> handlers \<Rightarrow> (Session list \<times> nat \<times> string) reply" where
  "MonitorListSessions ord r h =
     (case h_mon h of
        None \<Rightarrow> no_monitor
      | Some m \<Rightarrow>
          let statusFilter = query_get r ''status'';
              out = filter (\<lambda>s. statusFilter = [] \<or> ss_Status s = statusFilter) (ListSessions ord m)
          in writeJSON 200 (out, length out, GetMode m))"

definition MonitorGetSession :: "request \<Rightarrow> handlers \<Rightarrow> Session reply" where
  "MonitorGetSession r h =
     (case h_mon h of
        None \<Rightarrow> no_monitor
      | Some m \<Rightarrow> (case GetSession (rq_param r ''session_id'') m of
                      None \<Rightarrow> writeError 404 ''session not found''
                    | Some s \<Rightarrow> writeJSON 200 s))"

definition MonitorDeleteSession :: "request \<Rightarrow> handlers \<Rightarrow> unit reply \<times> handlers" where
  "MonitorDeleteSession r h =
     (case h_mon h of
        None \<Rightarrow> (no_monitor, h)
      | Some m \<Rightarrow>
          let (m', ok) = DeleteSession (rq_param r ''session_id'') m; h' = h\<lparr>h_mon := Some m'\<rparr>
          in if \<not> ok then (writeError 404 ''session not found'', h') else (NoContent, h'))"

definition MonitorAnnotateStep :: "request \<Rightarrow> string decoded \<Rightarrow> handlers \<Rightarrow> (string, string) gomap reply \<times> handlers" where
  "MonitorAnnotateStep r body h =
     (case h_mon h of
        None \<Rightarrow> (no_monitor, h)
      | Some m \<Rightarrow> decodeJSON body (\<lambda>note h.
          let (m', ok) = AnnotateStep (rq_param r ''session_id'') (rq_param r ''step_id'') note m;
              h' = h\<lparr>h_mon := Some m'\<rparr>
          in if \<not> ok then (writeError 404 ''session or step not found'', h')
             else (writeJSON 200 [(''status'', ''annotated'')], h')) h)"

definition MonitorListCheckpoints ::
    "((string, Checkpoint) gomap \<Rightarrow> (string, Checkpoint) gomap) \<Rightarrow> request \<Rightarrow> handlers
       \<Rightarrow> (Checkpoint list \<times> nat \<times> string) reply" where
  "MonitorListCheckpoints ord r h =
     (case h_mon h of
        None \<Rightarrow> no_monitor
      | Some m \<Rightarrow>
          let cps = ListCheckpoints ord (query_get r ''pending'' = ''true'') m
          in writeJSON 200 (cps, length cps, GetMode m))"

definition MonitorGetCheckpoint :: "request \<Rightarrow> handlers \<Rightarrow> Checkpoint reply" where
  "MonitorGetCheckpoint r h =
     (case h_mon h of
        None \<Rightarrow> no_monitor
      | Some m \<Rightarrow> (case GetCheckpoint (rq_param r ''checkpoint_id'') m of
                      None \<Rightarrow> writeError 404 ''checkpoint not found''
                    | Some cp \<Rightarrow> writeJSON 200 cp))"

text \<open>
  The operator's name is read from the context of the request, under the key \<open>ctxKeyUsername\<close>.
\<close>

definition MonitorDecideCheckpoint ::
    "gotime \<Rightarrow> go_context \<Rightarrow> request \<Rightarrow> (string \<times> string) decoded \<Rightarrow> handlers \<Rightarrow> (Checkpoint reply \<times> handlers) option" where
  "MonitorDecideCheckpoint now ctx r body h =
     (case h_mon h of
        None \<Rightarrow> Some (no_monitor, h)
      | Some m \<Rightarrow>
          decodeBlocking body (\<lambda>(decision, notes) h.
               if decision \<noteq> ''approve'' \<and> decision \<noteq> ''reject''
               then Some (writeError 400 (''decision must be '' @ go_quote ''approve'' @ '' or '' @ go_quote ''reject''), h)
               else let decidedBy = username_of ctx in map_option (\<lambda>(res, m', ps).
                      let h' = emit (map OutPush ps) (h\<lparr>h_mon := Some m'\<rparr>)
                      in case res of
                           None \<Rightarrow> (writeError 404 ''checkpoint not found or already decided'', h')
                         | Some cp \<Rightarrow> (writeJSON 200 cp, h'))
                    (Decide now (rq_param r ''checkpoint_id'') decidedBy decision notes m)) h)"

record CheckpointBody =
  cb_TraceID :: string
  cb_TenantID :: string
  cb_Stage :: string
  cb_RequestData :: "(string, goany) gomap"

definition gate_inactive :: string where
  "gate_inactive = ''gate mode is not active '' @ [CHR 0xE2, CHR 0x80, CHR 0x94]
     @ '' set monitor mode to '' @ [CHR 0x27] @ ''gate'' @ [CHR 0x27] @ '' first''"

definition MonitorCreateCheckpoint ::
    "gotime \<Rightarrow> gotime \<Rightarrow> string \<Rightarrow> CheckpointBody decoded \<Rightarrow> handlers \<Rightarrow> Checkpoint reply \<times> handlers" where
  "MonitorCreateCheckpoint now now2 cid body h =
     (case h_mon h of
        None \<Rightarrow> (no_monitor, h)
      | Some m \<Rightarrow> decodeJSON body (\<lambda>b h.
          let (res, m', ps) = CreateCheckpoint now now2 cid (cb_TraceID b) (cb_TenantID b) (cb_Stage b) (cb_RequestData b) m;
              h' = emit (map OutPush ps) (h\<lparr>h_mon := Some m'\<rparr>)
          in case res of
               None \<Rightarrow> (writeError 409 gate_inactive, h')
             | Some cp \<Rightarrow> (writeJSON 201 cp, h')) h)"

text \<open>The time-out goroutine of a checkpoint, which runs beside the requests.\<close>

definition checkpoint_timeout :: "gotime \<Rightarrow> string \<Rightarrow> handlers \<Rightarrow> handlers option" where
  "checkpoint_timeout now cid h =
     (case h_mon h of
        None \<Rightarrow> Some h
      | Some m \<Rightarrow> map_option (\<lambda>(m', ps). emit (map OutPush ps) (h\<lparr>h_mon := Some m'\<rparr>)) (enforceTimeout now cid m))"

end
