(* ===== verification/Grpc.thy ===== *)
theory Grpc
  imports Rest_Api
begin

text \<open>
  internal/api/grpc/server.go: the methods of the tracker service. Events go the same way as those
  submitted over REST (\<open>ingest\<close>, theory Rest_Api). \<open>fails n\<close> is the error of the n-th
  \<open>SendMsg\<close> on a stream, if it fails. What the JSON round trip of a payload yields when
  \<open>StreamEvents\<close> reads it back as an event is the parameter \<open>reread\<close>. The handlers,
  the interceptor and the registration with the gRPC library are theory Grpc_Service, listening and stopping
  theory Lifecycle.
\<close>

record IncidentRequest =
  ir_Status :: string
  ir_TenantID :: string
  ir_Limit :: int

record IncidentResponse =
  irs_Incidents :: "Incident list"
  irs_Total :: nat

record LineageResponse =
  lr_TraceID :: string
  lr_Found :: bool
  lr_Spans :: "Span list"

record StreamEventsRequest =
  ser_Module :: string
  ser_Severity :: string
  ser_TenantID :: string

subsection \<open>Unary methods\<close>

definition Grpc_SubmitEvent ::
    "(string \<Rightarrow> string \<Rightarrow> string) \<Rightarrow> (BastionEvent \<Rightarrow> string) \<Rightarrow> IngestEnv \<Rightarrow> BastionEvent \<Rightarrow> handlers
       \<Rightarrow> SubmitResponse \<times> handlers" where
  "Grpc_SubmitEvent mac marshal env req h =
     (let h' = ingest mac marshal env req h in (\<lparr>sr_EventID = ev_EventID req, sr_Accepted = True\<rparr>, h'))"

definition Grpc_SubmitBatchEvents ::
    "(string \<Rightarrow> string \<Rightarrow> string) \<Rightarrow> (BastionEvent \<Rightarrow> string) \<Rightarrow> (nat \<Rightarrow> IngestEnv) \<Rightarrow> BastionEvent list \<Rightarrow> handlers
       \<Rightarrow> BatchResponse \<times> handlers" where
  "Grpc_SubmitBatchEvents mac marshal envs events h =
     (let h' = ingest_list mac marshal envs 0 events h in (\<lparr>br_Accepted = length events, br_Rejected = 0\<rparr>, h'))"

definition zero_trace :: Trace where
  "zero_trace = \<lparr>tr_TraceID = [], tr_RequestID = [], tr_TenantID = [], tr_UserID = [], tr_PipelineType = [],
     tr_ModulesUsed = [], tr_ModulesSkipped = [], tr_StartTime = 0, tr_EndTime = None, tr_TotalMs = 0,
     tr_Status = [], tr_Spans = []\<rparr>"

definition Grpc_GetTrace :: "string \<Rightarrow> Store \<Rightarrow> Trace" where
  "Grpc_GetTrace traceID s = (case GetTrace s traceID of None \<Rightarrow> zero_trace | Some tr \<Rightarrow> tr)"

definition Grpc_GetLineage :: "string \<Rightarrow> Store \<Rightarrow> LineageResponse" where
  "Grpc_GetLineage traceID s =
     (case GetTrace s traceID of
        None \<Rightarrow> \<lparr>lr_TraceID = traceID, lr_Found = False, lr_Spans = []\<rparr>
      | Some tr \<Rightarrow> \<lparr>lr_TraceID = traceID, lr_Found = True, lr_Spans = tr_Spans tr\<rparr>)"

text \<open>The loop of \<open>GetIncidents\<close>: it stops as soon as \<open>limit\<close> incidents are collected.\<close>

fun incidents_loop :: "string \<Rightarrow> nat \<Rightarrow> Incident list \<Rightarrow> Incident list \<Rightarrow> Incident list" where
  "incidents_loop tenantID limit filtered [] = filtered"
| "incidents_loop tenantID limit filtered (inc # incs) =
     (if tenantID \<noteq> [] \<and> inc_TenantID inc \<noteq> tenantID then incidents_loop tenantID limit filtered incs
      else let filtered' = filtered @ [inc]
           in if length filtered' \<ge> limit then filtered' else incidents_loop tenantID limit filtered' incs)"

definition Grpc_GetIncidents ::
    "((string, Incident) gomap \<Rightarrow> (string, Incident) gomap) \<Rightarrow> IncidentRequest \<Rightarrow> Store \<Rightarrow> IncidentResponse" where
  "Grpc_GetIncidents ord req s =
     (let limit = (if ir_Limit req \<le> 0 then 50 else nat (ir_Limit req));
          all_incidents = ListIncidents ord s (ir_Status req);
          filtered = incidents_loop (ir_TenantID req) limit [] all_incidents
      in \<lparr>irs_Incidents = filtered, irs_Total = length filtered\<rparr>)"

definition Grpc_Health :: HealthStatus where
  "Grpc_Health = \<lparr>hs_Status = ''ok'', hs_Version = ''3.0.0'', hs_Checks = [(''grpc'', ''up'')]\<rparr>"

subsection \<open>Streams\<close>

fun send_all :: "(nat \<Rightarrow> string option) \<Rightarrow> nat \<Rightarrow> 'a list \<Rightarrow> 'a list \<times> string option" where
  "send_all fails n [] = ([], None)"
| "send_all fails n (x # xs) =
     (case fails n of
        Some err \<Rightarrow> ([], Some err)
      | None \<Rightarrow> let (ys, res) = send_all fails (Suc n) xs in (x # ys, res))"

text \<open>\<open>QueryEvents\<close>: what is sent, and the error it returns.\<close>

definition QueryEvents :: "(nat \<Rightarrow> string option) \<Rightarrow> QueryRequest \<Rightarrow> Store \<Rightarrow> BastionEvent list \<times> string option" where
  "QueryEvents fails req s = send_all fails 0 (RecentEvents s req (q_Limit req))"

text \<open>
  The loop of \<open>StreamEvents\<close> over the messages its subscription receives; it ends when a send fails,
  or with \<open>stop\<close> when they run out: the context's error, or no error when the channel is closed.
\<close>

fun stream_loop ::
    "(ws_payload \<Rightarrow> BastionEvent option) \<Rightarrow> (nat \<Rightarrow> string option) \<Rightarrow> string option \<Rightarrow> StreamEventsRequest \<Rightarrow> nat
       \<Rightarrow> WSMessage list \<Rightarrow> BastionEvent list \<times> string option" where
  "stream_loop reread fails stop req n [] = ([], stop)"
| "stream_loop reread fails stop req n (msg # msgs) =
     (if ws_Type msg \<noteq> ''event'' then stream_loop reread fails stop req n msgs
      else case reread (ws_Payload msg) of
        None \<Rightarrow> stream_loop reread fails stop req n msgs
      | Some ev \<Rightarrow>
          if ser_Module req \<noteq> [] \<and> ev_Module ev \<noteq> ser_Module req then stream_loop reread fails stop req n msgs
          else if ser_Severity req \<noteq> [] \<and> ev_Severity ev \<noteq> ser_Severity req then stream_loop reread fails stop req n msgs
          else if ser_TenantID req \<noteq> [] \<and> ev_TenantID ev \<noteq> ser_TenantID req then stream_loop reread fails stop req n msgs
          else (case fails n of
                  Some err \<Rightarrow> ([], Some err)
                | None \<Rightarrow> let (evs, res) = stream_loop reread fails stop req (Suc n) msgs in (ev # evs, res)))"

text \<open>Its subscription: registered with a buffer of 256 before the loop, removed after it.\<close>

definition stream_open :: "nat \<Rightarrow> Hub \<Rightarrow> Hub" where
  "stream_open i h = hub_subscribe 256 i h"

definition stream_close :: "nat \<Rightarrow> Hub \<Rightarrow> Hub option" where
  "stream_close i h = hub_unsubscribe i h"

subsection \<open>What is sent\<close>

lemma incidents_loop_eq:
  "length acc < limit \<Longrightarrow> incidents_loop tenantID limit acc incs =
     acc @ take (limit - length acc) (filter (\<lambda>inc. tenantID = [] \<or> inc_TenantID inc = tenantID) incs)"
proof (induction incs arbitrary: acc)
  case (Cons inc incs)
  show ?case
  proof (cases "tenantID = [] \<or> inc_TenantID inc = tenantID")
    case True
    show ?thesis
    proof (cases "length acc + 1 < limit")
      case less: True
      then have "limit - length acc = Suc (limit - (length acc + 1))" by simp
      then show ?thesis using True less Cons.IH [of "acc @ [inc]"] by auto
    next
      case False
      then have "limit - length acc = 1" using Cons.prems by simp
      then show ?thesis using True False by auto
    qed
  next
    case False
    then show ?thesis using Cons by auto
  qed
qed simp

lemma send_all_prefix:
  "(\<forall>i < k. fails (n + i) = None) \<Longrightarrow> k < length xs \<Longrightarrow> fails (n + k) = Some err \<Longrightarrow>
     send_all fails n xs = (take k xs, Some err)"
proof (induction xs arbitrary: n k)
  case (Cons x xs)
  show ?case
  proof (cases k)
    case (Suc j)
    have "send_all fails (Suc n) xs = (take j xs, Some err)"
      by (rule Cons.IH) (use Cons.prems Suc in auto)
    moreover have "fails n = None" using Cons.prems(1) Suc by (metis add_0_right zero_less_Suc)
    ultimately show ?thesis by (simp add: Suc)
  qed (use Cons.prems in simp)
qed simp

lemma send_all_ok: "(\<forall>i < length xs. fails (n + i) = None) \<Longrightarrow> send_all fails n xs = (xs, None)"
proof (induction xs arbitrary: n)
  case (Cons x xs)
  have "send_all fails (Suc n) xs = (xs, None)" by (rule Cons.IH) (use Cons.prems in auto)
  moreover have "fails n = None" using Cons.prems by auto
  ultimately show ?case by simp
qed simp

text \<open>The events of a list of messages that a request asks for.\<close>

definition asked_for :: "StreamEventsRequest \<Rightarrow> BastionEvent \<Rightarrow> bool" where
  "asked_for req ev \<longleftrightarrow> (ser_Module req = [] \<or> ev_Module ev = ser_Module req)
     \<and> (ser_Severity req = [] \<or> ev_Severity ev = ser_Severity req)
     \<and> (ser_TenantID req = [] \<or> ev_TenantID ev = ser_TenantID req)"

definition wanted :: "(ws_payload \<Rightarrow> BastionEvent option) \<Rightarrow> StreamEventsRequest \<Rightarrow> WSMessage list \<Rightarrow> BastionEvent list" where
  "wanted reread req msgs = filter (asked_for req)
     (List.map_filter (\<lambda>msg. if ws_Type msg = ''event'' then reread (ws_Payload msg) else None) msgs)"

lemma stream_loop_event:
  assumes "ws_Type msg = ''event''" and "reread (ws_Payload msg) = Some ev"
  shows "stream_loop reread fails stop req n (msg # msgs) =
     (if asked_for req ev then
        (case fails n of Some err \<Rightarrow> ([], Some err)
         | None \<Rightarrow> let (evs, res) = stream_loop reread fails stop req (Suc n) msgs in (ev # evs, res))
      else stream_loop reread fails stop req n msgs)"
  using assms by (simp add: asked_for_def del: Let_def)

lemma stream_loop_eq:
  "stream_loop reread fails stop req n msgs =
     (case send_all fails n (wanted reread req msgs) of (evs, None) \<Rightarrow> (evs, stop) | r \<Rightarrow> r)"
proof (induction msgs arbitrary: n)
  case (Cons msg msgs)
  show ?case
  proof (cases "ws_Type msg = ''event'' \<and> reread (ws_Payload msg) \<noteq> None")
    case True
    then obtain ev where ev: "ws_Type msg = ''event''" "reread (ws_Payload msg) = Some ev" by auto
    have w: "wanted reread req (msg # msgs) = (if asked_for req ev then ev # wanted reread req msgs else wanted reread req msgs)"
      using ev by (simp add: wanted_def map_filter_simps)
    obtain evs res where s: "send_all fails (Suc n) (wanted reread req msgs) = (evs, res)" by fastforce
    show ?thesis
      unfolding stream_loop_event [of msg reread, OF ev] w Cons.IH
      by (cases "asked_for req ev"; cases "fails n"; cases res) (simp_all add: s)
  next
    case False
    then have "wanted reread req (msg # msgs) = wanted reread req msgs"
      and "stream_loop reread fails stop req n (msg # msgs) = stream_loop reread fails stop req n msgs"
      by (auto simp: wanted_def map_filter_simps)
    then show ?thesis using Cons.IH by simp
  qed
qed (simp add: wanted_def map_filter_simps)

lemma wanted_allowed:
  assumes "\<And>msg. msg \<in> set msgs \<Longrightarrow> ws_Type msg = ''event'' \<Longrightarrow> \<exists>ev. ws_Payload msg = PEvent ev \<and> reread (PEvent ev) = Some (rd ev)
      \<and> ev_Module (rd ev) = ev_Module ev \<and> ev_Severity (rd ev) = ev_Severity ev \<and> ev_TenantID (rd ev) = ev_TenantID ev"
  shows "wanted reread req msgs = map (\<lambda>msg. the (reread (ws_Payload msg)))
    (filter (\<lambda>msg. ws_Type msg = ''event'') (filter (allowsMessage (Some
       \<lparr>cf_Module = ser_Module req, cf_Severity = ser_Severity req, cf_TenantID = ser_TenantID req\<rparr>)) msgs))"
  using assms
proof (induction msgs)
  case (Cons msg msgs)
  let ?f = "\<lparr>cf_Module = ser_Module req, cf_Severity = ser_Severity req, cf_TenantID = ser_TenantID req\<rparr>"
  show ?case
  proof (cases "ws_Type msg = ''event''")
    case True
    then obtain ev where ev: "ws_Payload msg = PEvent ev" "reread (PEvent ev) = Some (rd ev)"
        "ev_Module (rd ev) = ev_Module ev" "ev_Severity (rd ev) = ev_Severity ev" "ev_TenantID (rd ev) = ev_TenantID ev"
      using Cons.prems [of msg] by auto
    have "allowsMessage (Some ?f) msg \<longleftrightarrow> asked_for req (rd ev)"
      using ev True by (simp add: allowsMessage_def asked_for_def)
    then show ?thesis using Cons ev True by (simp add: wanted_def map_filter_simps)
  next
    case False
    then show ?thesis using Cons by (simp add: wanted_def map_filter_simps)
  qed
qed (simp add: wanted_def map_filter_simps)

subsection \<open>Properties\<close>

text \<open>
  C38: a stream is the event part of a filtered WebSocket. Whatever messages its subscription carries, \<open>StreamEvents\<close> sends,
  while no send fails, exactly the messages of type \<open>event\<close> that a WebSocket client with the same filter would be
  allowed, in order and each once, read back as events, until the subscription ends; when the k-th
  send fails, exactly the first k of them have been sent and its error is returned. All other messages
  (alerts, incidents, annotations, dashboard summaries, pushes of the monitor) pass the filter of any WebSocket client,
  and no stream ever sends one. What is asked of JSON is that an event it reads back has the
  three fields of the filter unchanged.
\<close>

theorem stream_is_event_part_of_websocket:
  assumes "\<And>msg. msg \<in> set msgs \<Longrightarrow> ws_Type msg = ''event'' \<Longrightarrow> \<exists>ev. ws_Payload msg = PEvent ev \<and> reread (PEvent ev) = Some (rd ev)
      \<and> ev_Module (rd ev) = ev_Module ev \<and> ev_Severity (rd ev) = ev_Severity ev \<and> ev_TenantID (rd ev) = ev_TenantID ev"
  shows "let allowed = filter (allowsMessage (Some \<lparr>cf_Module = ser_Module req, cf_Severity = ser_Severity req,
           cf_TenantID = ser_TenantID req\<rparr>)) msgs;
         evs = map (\<lambda>msg. the (reread (ws_Payload msg))) (filter (\<lambda>msg. ws_Type msg = ''event'') allowed)
    in filter (\<lambda>msg. ws_Type msg \<noteq> ''event'') allowed = filter (\<lambda>msg. ws_Type msg \<noteq> ''event'') msgs
     \<and> stream_loop reread (\<lambda>n. None) stop req 0 msgs = (evs, stop)
     \<and> (if k < length evs then stream_loop reread (\<lambda>n. if n = k then Some err else None) stop req 0 msgs = (take k evs, Some err)
        else stream_loop reread (\<lambda>n. if n = k then Some err else None) stop req 0 msgs = (evs, stop))"
proof -
  let ?f = "\<lparr>cf_Module = ser_Module req, cf_Severity = ser_Severity req, cf_TenantID = ser_TenantID req\<rparr>"
  define evs where "evs = map (\<lambda>msg. the (reread (ws_Payload msg)))
    (filter (\<lambda>msg. ws_Type msg = ''event'') (filter (allowsMessage (Some ?f)) msgs))"
  have w: "wanted reread req msgs = evs"
    using assms unfolding evs_def by (rule wanted_allowed)
  have other: "filter (\<lambda>msg. ws_Type msg \<noteq> ''event'') (filter (allowsMessage (Some ?f)) msgs) = filter (\<lambda>msg. ws_Type msg \<noteq> ''event'') msgs"
    unfolding filter_filter by (rule filter_cong) (auto simp: allowsMessage_def)
  have all_ok: "send_all (\<lambda>n. None) 0 evs = (evs, None)" by (rule send_all_ok) simp
  have late: "send_all (\<lambda>n. if n = k then Some err else None) 0 evs = (evs, None)" if "\<not> k < length evs"
    using that by (intro send_all_ok) auto
  have fail: "send_all (\<lambda>n. if n = k then Some err else None) 0 evs = (take k evs, Some err)" if "k < length evs"
    using that by (intro send_all_prefix) auto
  show ?thesis unfolding Let_def stream_loop_eq w evs_def [symmetric] using other all_ok late fail by simp
qed

text \<open>
  The incidents a gRPC client asks for: the first of the matching ones, of its tenant when it
  names one, at most its limit and at most 50 when it gives none.
\<close>

theorem grpc_incidents_bounded:
  "irs_Incidents (Grpc_GetIncidents ord req s) =
     take (if ir_Limit req \<le> 0 then 50 else nat (ir_Limit req))
       (filter (\<lambda>inc. ir_TenantID req = [] \<or> inc_TenantID inc = ir_TenantID req) (ListIncidents ord s (ir_Status req)))"
  by (simp add: Grpc_GetIncidents_def incidents_loop_eq Let_def)

lemma stream_is_event_part_of_websocket_witness:
  "let ev = zero_event\<lparr>ev_TenantID := ''a''\<rparr>; msg = \<lparr>ws_Type = ''event'', ws_Payload = PEvent ev\<rparr>;
       other = \<lparr>ws_Type = ''event'', ws_Payload = PEvent (zero_event\<lparr>ev_TenantID := ''b''\<rparr>)\<rparr>;
       note = \<lparr>ws_Type = ''annotation'', ws_Payload = PEvent ev\<rparr>;
       reread = (\<lambda>p. case p of PEvent e \<Rightarrow> Some e | _ \<Rightarrow> None)
   in stream_loop reread (\<lambda>n. None) None \<lparr>ser_Module = [], ser_Severity = [], ser_TenantID = ''a''\<rparr> 0 [msg, other, note] = ([ev], None)"
proof -
  let ?ev = "zero_event\<lparr>ev_TenantID := ''a''\<rparr>" and ?o = "zero_event\<lparr>ev_TenantID := ''b''\<rparr>"
  let ?msgs = "[\<lparr>ws_Type = ''event'', ws_Payload = PEvent ?ev\<rparr>, \<lparr>ws_Type = ''event'', ws_Payload = PEvent ?o\<rparr>,
    \<lparr>ws_Type = ''annotation'', ws_Payload = PEvent ?ev\<rparr>]"
  let ?reread = "\<lambda>p. case p of PEvent e \<Rightarrow> Some e | _ \<Rightarrow> None"
  let ?req = "\<lparr>ser_Module = [], ser_Severity = [], ser_TenantID = ''a''\<rparr> :: StreamEventsRequest"
  have "\<And>msg. msg \<in> set ?msgs \<Longrightarrow> ws_Type msg = ''event'' \<Longrightarrow> \<exists>ev. ws_Payload msg = PEvent ev \<and> ?reread (PEvent ev) = Some (id ev)
      \<and> ev_Module (id ev) = ev_Module ev \<and> ev_Severity (id ev) = ev_Severity ev \<and> ev_TenantID (id ev) = ev_TenantID ev"
    by auto
  from stream_is_event_part_of_websocket [of ?msgs ?reread id, OF this, of ?req None, unfolded Let_def, THEN conjunct2, THEN conjunct1]
  have "stream_loop ?reread (\<lambda>n. None) None ?req 0 ?msgs = (map (\<lambda>msg. the (?reread (ws_Payload msg)))
      (filter (\<lambda>msg. ws_Type msg = ''event'') (filter (allowsMessage (Some \<lparr>cf_Module = ser_Module ?req, cf_Severity = ser_Severity ?req,
           cf_TenantID = ser_TenantID ?req\<rparr>)) ?msgs)), None)" .
  also have "map (\<lambda>msg. the (?reread (ws_Payload msg)))
      (filter (\<lambda>msg. ws_Type msg = ''event'') (filter (allowsMessage (Some \<lparr>cf_Module = ser_Module ?req, cf_Severity = ser_Severity ?req,
           cf_TenantID = ser_TenantID ?req\<rparr>)) ?msgs)) = [?ev]"
    by (simp add: allowsMessage_def)
  finally show ?thesis unfolding Let_def .
qed

end
