(* ===== verification/Startup.thy ===== *)
theory Startup
  imports Grpc
begin

text \<open>
  internal/collector/nats.go, the constructor of internal/events/publisher.go, and the two start
  commands of cmd/tracker-cli/main.go. The NATS library is a parameter: the outcome of connecting for
  the collector and for the publisher, of each subscription, and which subjects a subscription
  matches. A started server is the state its requests begin with; listening, signals and the end of the
  process are theory Lifecycle.
\<close>

record nats_lib =
  nl_connect :: "string \<Rightarrow> string option"
  nl_connect_pub :: "string \<Rightarrow> string option"
  nl_subscribe :: "string \<Rightarrow> string option"
  nl_matches :: "string \<Rightarrow> string \<Rightarrow> bool"

subsection \<open>The collector\<close>

record NATSCollector =
  nt_subs :: "string list"

text \<open>The loop of \<open>Connect\<close>: a failed subscription closes the connection with those made before.\<close>

fun subscribe_all :: "nats_lib \<Rightarrow> string list \<Rightarrow> string list \<Rightarrow> string + string list" where
  "subscribe_all lib subs [] = Inr subs"
| "subscribe_all lib subs (subj # subjects) =
     (case nl_subscribe lib subj of
        Some err \<Rightarrow> Inl err
      | None \<Rightarrow> subscribe_all lib (subs @ [subj]) subjects)"

definition Collector_Connect :: "nats_lib \<Rightarrow> string \<Rightarrow> string list \<Rightarrow> string + NATSCollector" where
  "Collector_Connect lib url subjects =
     (case nl_connect lib url of
        Some err \<Rightarrow> Inl err
      | None \<Rightarrow> (case subscribe_all lib [] subjects of
                  Inl err \<Rightarrow> Inl err
                | Inr subs \<Rightarrow> Inr \<lparr>nt_subs = subs\<rparr>))"

text \<open>\<open>handle\<close>: the message's data, as JSON decoding leaves it; its sink is the processor.\<close>

definition collector_handle ::
    "(string \<Rightarrow> string \<Rightarrow> string) \<Rightarrow> (BastionEvent \<Rightarrow> string) \<Rightarrow> IngestEnv \<Rightarrow> BastionEvent decoded \<Rightarrow> handlers \<Rightarrow> handlers" where
  "collector_handle mac marshal env data h =
     (case data of
        Inl err \<Rightarrow> h
      | Inr ev \<Rightarrow> ingest mac marshal env ev h)"

subsection \<open>The start commands\<close>

definition Publisher_New :: "nats_lib \<Rightarrow> string \<Rightarrow> Publisher" where
  "Publisher_New lib natsURL =
     (if natsURL = [] then \<lparr>pub_connected = False\<rparr>
      else case nl_connect_pub lib natsURL of
             Some err \<Rightarrow> \<lparr>pub_connected = False\<rparr>
           | None \<Rightarrow> \<lparr>pub_connected = True\<rparr>)"

definition server_config_path :: "string \<Rightarrow> string \<Rightarrow> string" where
  "server_config_path flag env_path =
     (let p1 = flag;
          p2 = (if p1 = [] then env_path else p1)
      in if p2 = [] then ''./config/config.yaml'' else p2)"

text \<open>The wiring of NATS: without a connection the server runs with no collector.\<close>

definition wire_nats :: "nats_lib \<Rightarrow> Config \<Rightarrow> Processor \<Rightarrow> NATSCollector option \<times> Processor" where
  "wire_nats lib cfg p =
     (if nc_URL (cf_NATS cfg) \<noteq> [] then
        (let col = (case Collector_Connect lib (nc_URL (cf_NATS cfg)) (nc_Subjects (cf_NATS cfg)) of
                      Inl err \<Rightarrow> None
                    | Inr c \<Rightarrow> Some c)
         in (col, SetPublisher (Publisher_New lib (nc_URL (cf_NATS cfg))) p))
      else (None, p))"

definition start_up :: "nats_lib \<Rightarrow> (nat \<Rightarrow> gotime) \<Rightarrow> Config \<Rightarrow> NATSCollector option \<times> handlers" where
  "start_up lib clk cfg =
     (let co = buildComponents clk cfg;
          (col, p) = wire_nats lib cfg (co_proc co)
      in (col, Rest_New (co\<lparr>co_proc := p\<rparr>)))"

datatype start_error = ConfigError string | Insecure insecure

text \<open>\<open>runServer\<close> up to the listeners; \<open>readFile\<close> is what the file system holds.\<close>

definition runServer ::
    "(string \<Rightarrow> Config \<Rightarrow> Config \<times> string option) \<Rightarrow> (string \<Rightarrow> string option) \<Rightarrow> (string \<Rightarrow> string) \<Rightarrow> nats_lib
       \<Rightarrow> (nat \<Rightarrow> gotime) \<Rightarrow> string \<Rightarrow> start_error + (NATSCollector option \<times> handlers)" where
  "runServer yaml readFile getenv lib clk flag =
     (let cfgPath = server_config_path flag (getenv ''CONFIG_PATH'');
          (cfg, err) = Load yaml (readFile cfgPath) (getenv ''TRACKER_AUDIT_SECRET'') (getenv ''TRACKER_JWT_SECRET'')
      in case err of
           Some e \<Rightarrow> Inl (ConfigError e)
         | None \<Rightarrow> (case ValidateSecurity cfg of
                      Some bad \<Rightarrow> Inl (Insecure bad)
                    | None \<Rightarrow> Inr (start_up lib clk cfg)))"

text \<open>\<open>runDemoServer\<close>: the defaults, unchecked and without NATS, and a replay of every scenario.\<close>

definition runDemoServer ::
    "((string, DemoScenario) gomap \<Rightarrow> (string, DemoScenario) gomap) \<Rightarrow> (nat \<Rightarrow> gotime) \<Rightarrow> handlers" where
  "runDemoServer ord clk =
     (let h = Rest_New (buildComponents clk Defaults)
      in h\<lparr>h_demo := fold (\<lambda>sc e. snd (Replay (sc_Name sc) 2 e)) (Engine_List ord (h_demo h)) (h_demo h)\<rparr>)"

subsection \<open>What a published event becomes when it is received\<close>

text \<open>Values of a \<open>map[string]any\<close> after a round trip through JSON: every number is a float.\<close>

primrec json_any :: "goany \<Rightarrow> goany" where
  "json_any GNil = GNil"
| "json_any (GBool b) = GBool b"
| "json_any (GInt n) = GFloat (of_int (f64_of_int n))"
| "json_any (GFloat v) = GFloat v"
| "json_any (GStr s) = GStr s"
| "json_any (GList xs) = GList (map json_any xs)"
| "json_any (GMap kvs) = GMap (map (map_prod id json_any) kvs)"

text \<open>
  The JSON of a \<open>TrackerEvent\<close> read as a \<open>BastionEvent\<close>: the fields whose tags agree. Empty
  strings and what \<open>omitempty\<close> leaves out are the same.
\<close>

definition received :: "(string \<Rightarrow> string \<Rightarrow> gotime option) \<Rightarrow> TrackerEvent \<Rightarrow> BastionEvent" where
  "received parse tv =
     zero_event\<lparr>ev_EventID := tv_EventID tv, ev_EventType := tv_EventType tv, ev_SchemaVersion := tv_SchemaVersion tv,
       ev_TraceID := tv_TraceID tv, ev_Module := tv_Module tv, ev_ModuleVersion := tv_ModuleVersion tv,
       ev_Timestamp := UnmarshalTimestamp parse (json_number (tv_Timestamp tv)) (ev_Timestamp zero_event),
       ev_TenantID := tv_TenantID tv, ev_Severity := tv_Severity tv, ev_Category := tv_Category tv,
       ev_Status := tv_Status tv, ev_ActionTaken := tv_ActionTaken tv,
       ev_Data := map (map_prod id json_any) (tv_Data tv)\<rparr>"

text \<open>NATS: the wildcard \<open>>\<close> at the end of a subscription stands for one or more tokens.\<close>

definition subject_token :: "string \<Rightarrow> bool" where
  "subject_token t \<longleftrightarrow> t \<noteq> [] \<and> list_all (\<lambda>c. c \<notin> set '' .*>'') t"

definition nats_ok :: "nats_lib \<Rightarrow> bool" where
  "nats_ok lib \<longleftrightarrow> (\<forall>pre t u. subject_token t \<longrightarrow> subject_token u \<longrightarrow>
     nl_matches lib (pre @ ''.>'') (pre @ ''.'' @ t @ ''.'' @ u))"

definition own_events :: "TrackerEvent set" where
  "own_events = {tv. \<exists>rid now a b c d e. tv = EventIncidentCreated rid now a b c d e}
     \<union> {tv. \<exists>rid now a b c d. tv = EventHoneyTokenAlert rid now a b c d}
     \<union> {tv. \<exists>rid now a b c n. tv = EventLineageCompleted rid now a b c n}"

lemma own_eventsI [intro]:
  "EventIncidentCreated rid now a b c d e \<in> own_events"
  "EventHoneyTokenAlert rid now a b c d \<in> own_events"
  "EventLineageCompleted rid now a b c n \<in> own_events"
  unfolding own_events_def by blast+

lemma AutoCreate_severity:
  "Some inc = fst (AutoCreate now now' ev st) \<Longrightarrow> inc_Severity inc = ev_Severity ev"
  by (cases st) (auto simp: AutoCreate_def Let_def split: option.splits if_splits)

lemma Publish_mem: "x \<in> set (Publish pb tv) \<Longrightarrow> x = (subjectPfx @ ''.'' @ tv_EventType tv, tv)"
  by (auto simp: Publish_def split: option.splits if_splits)

text \<open>\<open>own_event tv subj sev\<close>: a published event, its subject, and the severities it can have.\<close>

definition own_event :: "string set \<Rightarrow> string \<times> TrackerEvent \<Rightarrow> bool" where
  "own_event sevs x \<longleftrightarrow> snd x \<in> own_events \<and> fst x = subjectPfx @ ''.'' @ tv_EventType (snd x) \<and> tv_Severity (snd x) \<in> sevs"

lemma honey_publication_own:
  "x \<in> set (honey_publication env pb e t) \<Longrightarrow> own_event {''critical''} x"
  by (cases "t = []") (auto simp: honey_publication_def own_event_def EventHoneyTokenAlert_def newEvent_def
      own_events_def dest!: Publish_mem)

lemma incident_publication_own:
  "x \<in> set (incident_publication env pb e i) \<Longrightarrow> own_event {inc_Severity i} x"
  by (auto simp: incident_publication_def own_event_def dest!: Publish_mem)
    (simp add: EventIncidentCreated_def newEvent_def)

lemma own_event_mono: "own_event A x \<Longrightarrow> A \<subseteq> B \<Longrightarrow> own_event B x"
  by (auto simp: own_event_def)

lemma accept_publishes:
  assumes "x \<in> set (fx_pub (snd (accept_step mac env e p)))"
  shows "own_event {''critical'', ev_Severity e} x"
proof -
  let ?ev = "sign_stage mac p e"
  have honey: "own_event {''critical'', ev_Severity e} y" if "y \<in> set (honey_publication env (pr_pub p) ?ev t)" for y t
    using honey_publication_own [OF that] own_event_mono by blast
  have incident: "own_event {''critical'', ev_Severity e} y"
    if "y \<in> set (incident_publication env (pr_pub p) ?ev inc)" "Some inc = fst (AutoCreate (env_clk env 5) (env_clk env 6) ?ev st)"
    for y inc st
    using incident_publication_own [OF that(1)] AutoCreate_severity [OF that(2)] by (auto intro: own_event_mono)
  show ?thesis
    using assms by (auto simp: accept_step_def Let_def split_beta prod_eq_iff split: option.splits dest: honey incident)
qed

lemma Process_publishes:
  assumes "x \<in> set (fx_pub (snd (Process mac marshal env ev p)))" and "pr_validator p \<noteq> None"
  shows "own_event severities x"
proof -
  obtain "rejection p (enrich env ev) = None" "x \<in> set (fx_pub (snd (accept_step mac env (enrich env ev) p)))"
    using assms(1) by (auto simp: Process_def no_effects_def Let_def split: option.splits)
  moreover from this have "ev_Severity (enrich env ev) \<in> severities"
    using assms(2) by (auto simp: rejection_def Validate_None validSeverities_set enrich_fields)
  ultimately show ?thesis
    by (intro own_event_mono [OF accept_publishes]) (auto simp: severities_def)
qed

lemma own_event_parts:
  assumes "tv \<in> own_events"
  shows "ev_Status (received parse tv) \<notin> set validStatuses" and "subject_token (tv_EventType tv)"
    and "tv_EventType tv \<in> {''incident_created'', ''honey_token_alert'', ''lineage_completed''}"
    and "ev_EventType (received parse tv) = tv_EventType tv" "ev_Status (received parse tv) = tv_Status tv"
    and "ev_Module (received parse tv) = ''tracker''"
  using assms
  by (auto simp: own_events_def received_def EventIncidentCreated_def EventHoneyTokenAlert_def
      EventLineageCompleted_def newEvent_def validStatuses_def subject_token_def)

lemma own_event_rejected:
  assumes "own_event severities (subj, tv)"
  shows "Validate (enrich env (received parse tv)) = Some (InvalidStatus (tv_Status tv))"
proof -
  have tv: "tv \<in> own_events" and sev: "tv_Severity tv \<in> severities" using assms by (simp_all add: own_event_def)
  note parts = own_event_parts [OF tv]
  have "ev_Severity (received parse tv) = tv_Severity tv" by (simp add: received_def)
  moreover have "\<not> blank ''incident_created''" "\<not> blank ''honey_token_alert''" "\<not> blank ''lineage_completed''"
      "\<not> blank ''tracker''" by code_simp+
  then have "\<not> blank (tv_EventType tv)" "\<not> blank ''tracker''" using parts(3) by auto
  moreover have "''info'' \<in> severities" by (simp add: severities_def)
  ultimately show ?thesis
    using parts sev by (auto simp: Validate_def enrich_fields validSeverities_set)
qed

lemma decoy_alert:
  assumes "Validate (enrich env ev) = None" and "HasPrefix (ev_EventType ev) ''honey_token_''"
    and "pr_pub p = Some pub" and "pub_connected pub"
  shows "\<exists>tv. (subjectPfx @ ''.honey_token_alert'', tv) \<in> set (fx_pub (snd (Process mac marshal env ev p)))
    \<and> tv_Status tv = ''alerted''"
proof -
  let ?ev = "sign_stage mac p (enrich env ev)"
  have "fst (CheckEvent now ?ev (s, mx)) \<noteq> []" for now s mx
    unfolding CheckEvent_detects using assms(2) by (simp add: enrich_fields)
  then obtain tok where tok: "tok \<noteq> []"
    and pub: "set (honey_publication env (pr_pub p) ?ev tok) \<subseteq> set (fx_pub (snd (accept_step mac env (enrich env ev) p)))"
    by (simp add: accept_step_def Let_def split_beta) blast
  let ?tv = "EventHoneyTokenAlert (env_rid env 0) (env_clk env 4) tok (tok @ ''-trg-'' @ ev_EventID ?ev) (ev_TenantID ?ev) (ev_TraceID ?ev)"
  have ty: "tv_EventType ?tv = ''honey_token_alert''" "tv_Status ?tv = ''alerted''"
    by (simp_all add: EventHoneyTokenAlert_def newEvent_def)
  then have "(subjectPfx @ ''.honey_token_alert'', ?tv) \<in> set (honey_publication env (pr_pub p) ?ev tok)"
    using tok assms(3,4) by (simp add: honey_publication_def Publish_def)
  moreover have "rejection p (enrich env ev) = None" using assms(1) by (simp add: rejection_def split: option.split)
  ultimately show ?thesis using pub ty(2) by (intro exI [of _ ?tv]) (auto simp: Process_def Let_def)
qed

end
