(* ===== verification/Server.thy ===== *)
theory Server
  imports Startup
begin

text \<open>
  The started server as a transition system: every request of internal/api/rest/handlers.go that
  changes the tracker, the goroutines beside them (deferred events, replays, the alert tick, checkpoint
  time-outs, a module that receives a decision), in any order. A step that would block under the
  monitor's mutex is \<open>None\<close>. The invariant of the server collects those of its components; the
  properties are what holds in every state the server can reach.
\<close>

inductive server_step ::
    "(string \<Rightarrow> string \<Rightarrow> string) \<Rightarrow> (BastionEvent \<Rightarrow> string) \<Rightarrow> handlers \<Rightarrow> handlers option \<Rightarrow> bool"
  for mac :: "string \<Rightarrow> string \<Rightarrow> string" and marshal :: "BastionEvent \<Rightarrow> string" where
  submit: "env_ok (ge_env env) \<Longrightarrow> server_step mac marshal h (Some (snd (SubmitEvent mac marshal env body h)))"
| batch: "\<forall>n. env_ok (ge_env (envs n)) \<Longrightarrow> server_step mac marshal h (Some (snd (SubmitBatch mac marshal envs bodies h)))"
| nats: "env_ok (ge_env env) \<Longrightarrow> server_step mac marshal h (Some (collector_handle mac marshal env body h))"
| grpc_submit: "env_ok (ge_env env) \<Longrightarrow> server_step mac marshal h (Some (snd (Grpc_SubmitEvent mac marshal env ev h)))"
| grpc_batch: "\<forall>n. env_ok (ge_env (envs n)) \<Longrightarrow> server_step mac marshal h (Some (snd (Grpc_SubmitBatchEvents mac marshal envs evs h)))"
| inject: "env_ok (ge_env env) \<Longrightarrow> server_step mac marshal h (Some (snd (InjectEvent mac marshal env now body h)))"
| spawned: "env_ok (ge_env env) \<Longrightarrow> OutSpawn ev \<in> set (h_out h) \<Longrightarrow>
     server_step mac marshal h (Some (ingest mac marshal env ev h))"
| replay_event: "env_ok (ge_env env) \<Longrightarrow> replay_emit i (h_demo h) = Some (EmitEvent de, e') \<Longrightarrow>
     server_step mac marshal h (Some (ingest mac marshal env (replayed now de) (h\<lparr>h_demo := e'\<rparr>)))"
| replay_note: "replay_emit i (h_demo h) = Some (EmitAnnotation an, e') \<Longrightarrow>
     server_step mac marshal h (Some (h\<lparr>h_demo := e'\<rparr>))"
| replay_end: "replay_return i (h_demo h) = Some e' \<Longrightarrow> server_step mac marshal h (Some (h\<lparr>h_demo := e'\<rparr>))"
| replay: "server_step mac marshal h (Some (snd (ReplayScenario quote named h)))"
| stop: "server_step mac marshal h (Some (snd (StopScenario nbody h)))"
| start_recording: "server_step mac marshal h (Some (snd (StartRecording now stamp rbody h)))"
| stop_recording: "server_step mac marshal h (Some (snd (StopRecording now h)))"
| resolve_incident: "server_step mac marshal h (Some (snd (ResolveIncident now r nbody h)))"
| ack_alert: "server_step mac marshal h (Some (snd (AcknowledgeAlert_handler now r h)))"
| resolve_alert: "server_step mac marshal h (Some (snd (ResolveAlert_handler now r h)))"
| tick: "server_step mac marshal h (Some (alerts_tick ord now clk h))"
| create_token: "server_step mac marshal h (Some (snd (CreateHoneyToken now tbody h)))"
| delete_token: "server_step mac marshal h (Some (snd (DeleteHoneyToken r h)))"
| set_mode: "\<forall>xs. mset (ord xs) = mset xs \<Longrightarrow> server_step mac marshal h (map_option snd (MonitorSetMode ord now rbody h))"
| delete_session: "server_step mac marshal h (Some (snd (MonitorDeleteSession r h)))"
| annotate: "server_step mac marshal h (Some (snd (MonitorAnnotateStep r nbody h)))"
| create_checkpoint: "\<forall>m. h_mon h = Some m \<longrightarrow> mget (mon_checkpoints m) cid = None \<Longrightarrow>
     server_step mac marshal h (Some (snd (MonitorCreateCheckpoint now now2 cid cbody h)))"
| decide: "guarded jwt t authCfg g hdr = Invoke ctx \<Longrightarrow>
     server_step mac marshal h (map_option snd (MonitorDecideCheckpoint now ctx r rbody h))"
| timeout: "server_step mac marshal h (checkpoint_timeout now cid h)"
| login: "server_step mac marshal h (Some (fst (on_store (\<lambda>s. prod.swap (Login jwt cmp clk authCfg us r lbody s)) h)))"
| refresh: "server_step mac marshal h (Some (fst (on_store (\<lambda>s. prod.swap (RefreshToken_handler jwt clk authCfg r tok s)) h)))"
| receive: "h_mon h = Some m \<Longrightarrow> server_step mac marshal h (Some (h\<lparr>h_mon := Some (take_decision cid m)\<rparr>))"

abbreviation server_init :: "Config \<Rightarrow> handlers \<Rightarrow> bool" where
  "server_init cfg h \<equiv> \<exists>lib clk. h = snd (start_up lib clk cfg)"

abbreviation server_reach ::
    "(string \<Rightarrow> string \<Rightarrow> string) \<Rightarrow> (BastionEvent \<Rightarrow> string) \<Rightarrow> Config \<Rightarrow> handlers \<Rightarrow> bool" where
  "server_reach mac marshal cfg \<equiv> reachable (server_init cfg) (server_step mac marshal)"

subsection \<open>The invariant\<close>

definition incidents_keyed :: "Store \<Rightarrow> bool" where
  "incidents_keyed s \<longleftrightarrow> (\<forall>k inc. GetIncident s k = Some inc \<longrightarrow> inc_IncidentID inc = k)"

definition proc_inv :: "(string \<Rightarrow> string \<Rightarrow> string) \<Rightarrow> Signer \<Rightarrow> Processor \<Rightarrow> bool" where
  "proc_inv mac sg p \<longleftrightarrow> tracker_inv mac p \<and> incidents_keyed (pr_store p) \<and> pr_signer p = Some sg \<and> pr_validator p \<noteq> None"

definition mon_inv :: "Monitor \<Rightarrow> bool" where
  "mon_inv m \<longleftrightarrow> gate_inv True m \<and> (\<forall>cid cp. mget (mon_checkpoints m) cid = Some cp \<longrightarrow> ck_DecidedBy cp = [])"

definition server_inv :: "(string \<Rightarrow> string \<Rightarrow> string) \<Rightarrow> Signer \<Rightarrow> handlers \<Rightarrow> bool" where
  "server_inv mac sg h \<longleftrightarrow> proc_inv mac sg (h_proc h) \<and> pred_option mon_inv (h_mon h) \<and> pred_option detected_ok (h_anomaly h)"

lemma server_inv_demo [simp]:
  "server_inv mac sg (h\<lparr>h_demo := e\<rparr>) = server_inv mac sg h"
  "server_inv mac sg (h\<lparr>h_recorder := rc\<rparr>) = server_inv mac sg h"
  "server_inv mac sg (emit outs h) = server_inv mac sg h"
  "server_inv mac sg (record_hook ev h) = server_inv mac sg h"
  by (simp_all add: server_inv_def emit_def record_hook_def)

subsection \<open>The store behind the requests\<close>

lemma tracker_inv_store:
  assumes "tracker_inv mac p" and "same_ring (pr_store p) s" and "honey_inv (hm_seq ht) s"
    and "issued (GetIncident s) inc_ident (im_seq (pr_incidents p))" and "alerts_inv (am_seq (pr_alerts p)) s"
  shows "tracker_inv mac (p\<lparr>pr_honey := ht, pr_store := s\<rparr>)"
    and "ht = pr_honey p \<Longrightarrow> tracker_inv mac (p\<lparr>pr_store := s\<rparr>)"
proof -
  have "ring_ok s" "newest s = newest (pr_store p)"
    using assms(1,2) same_ring_newest [of "pr_store p" s] by (simp_all add: tracker_inv_def)
  then show "tracker_inv mac (p\<lparr>pr_honey := ht, pr_store := s\<rparr>)"
    and "ht = pr_honey p \<Longrightarrow> tracker_inv mac (p\<lparr>pr_store := s\<rparr>)"
    using assms by (simp_all add: tracker_inv_def event_ok_def)
qed

lemma proc_inv_metrics [simp]: "proc_inv mac sg (p\<lparr>pr_metrics := mx\<rparr>) = proc_inv mac sg p"
  by (simp add: proc_inv_def tracker_inv_def event_ok_def)

text \<open>The alert operations leave everything but the alerts alone, and these keyed.\<close>

definition alerts_only :: "nat \<Rightarrow> Store \<Rightarrow> Store \<Rightarrow> bool" where
  "alerts_only n s s' \<longleftrightarrow> same_ring s s' \<and> st_incidents s' = st_incidents s \<and> st_tokens s' = st_tokens s
     \<and> st_triggers s' = st_triggers s \<and> (alerts_inv n s \<longrightarrow> alerts_inv n s')"

lemma alerts_only_refl: "alerts_only n s s"
  by (simp add: alerts_only_def same_ring_def)

lemma alerts_only_trans: "alerts_only n s t \<Longrightarrow> alerts_only n t u \<Longrightarrow> alerts_only n s u"
  by (auto simp: alerts_only_def intro: same_ring_trans)

lemma alert_ops_only:
  "alerts_only n s (fst (AcknowledgeAlert now aid s))" "alerts_only n s (fst (ResolveAlert now aid s))"
  "alerts_only n s (fst (EscalateAlert now aid s))"
proof -
  have inv: "alerts_inv n s'" if "alerts_inv n s" "map_ok (st_alerts s')"
      and "\<And>k. GetAlert s' k = (if k = aid then map_option f (GetAlert s k) else GetAlert s k)"
      and "\<And>al. al_AlertID (f al) = al_AlertID al" for s' f
    using that by (fastforce simp: alerts_inv_def issued_def split: if_splits)
  have fr: "same_ring s (fst (AcknowledgeAlert now aid s))" "same_ring s (fst (ResolveAlert now aid s))"
      "same_ring s (fst (EscalateAlert now aid s))"
    by (auto simp: AcknowledgeAlert_def ResolveAlert_def EscalateAlert_def same_ring_def split: option.split)
  have ok: "map_ok (st_alerts s)" if "alerts_inv n s" using that by (simp add: alerts_inv_def)
  show "alerts_only n s (fst (AcknowledgeAlert now aid s))"
    using inv [OF _ alert_ops_map_ok(1) [OF ok] alert_ops_get(1)] fr(1)
    by (auto simp: alerts_only_def) (simp_all add: AcknowledgeAlert_def split: option.split)
  show "alerts_only n s (fst (ResolveAlert now aid s))"
    using inv [OF _ alert_ops_map_ok(2) [OF ok] alert_ops_get(2)] fr(2)
    by (auto simp: alerts_only_def) (simp_all add: ResolveAlert_def split: option.split)
  show "alerts_only n s (fst (EscalateAlert now aid s))"
    using inv [OF _ alert_ops_map_ok(3) [OF ok] alert_ops_get(3)] fr(3)
    by (auto simp: alerts_only_def) (simp_all add: EscalateAlert_def split: option.split)
qed

lemma tick_loop_only: "alerts_only n s (fst (tick_loop rules now clk als (s, mx)))"
proof (induction als arbitrary: s mx)
  case Nil
  show ?case by (simp add: alerts_only_refl)
next
  case (Cons al als)
  have IH: "alerts_only n s t \<Longrightarrow> alerts_only n s (fst (tick_loop rules now clk als (t, mx')))" for t mx'
    using Cons.IH alerts_only_trans by blast
  show ?case
    using IH [OF alerts_only_refl] IH [OF alert_ops_only(2)] IH [OF alert_ops_only(3)]
    by (simp add: Let_def split_beta split: option.split)
qed

lemma proc_inv_alerts:
  "proc_inv mac sg p \<Longrightarrow> alerts_only (am_seq (pr_alerts p)) (pr_store p) s \<Longrightarrow> proc_inv mac sg (p\<lparr>pr_store := s\<rparr>)"
  unfolding proc_inv_def
  using tracker_inv_store(2) [of mac p s "pr_honey p"] honey_inv_frame [of s "pr_store p"]
    issued_incidents_frame [of s "pr_store p"]
  by (simp add: alerts_only_def incidents_keyed_def) (simp add: tracker_inv_def)

lemma proc_inv_resolve:
  assumes "proc_inv mac sg p" and res: "Incident_Resolve now iid notes (pr_store p) = (r, s)"
  shows "proc_inv mac sg (p\<lparr>pr_store := s\<rparr>)"
proof -
  have keyed: "\<And>k inc. GetIncident (pr_store p) k = Some inc \<Longrightarrow> inc_IncidentID inc = k"
    and inv: "tracker_inv mac p" using assms(1) by (simp_all add: proc_inv_def incidents_keyed_def)
  have fr: "same_ring (pr_store p) s" "st_tokens s = st_tokens (pr_store p)" "st_triggers s = st_triggers (pr_store p)"
      "st_alerts s = st_alerts (pr_store p)" "incidents_keyed s"
    using res keyed by (auto simp: Incident_Resolve_def UpdateIncident_def same_ring_def incidents_keyed_def
        GetIncident_def Let_def split: option.splits if_splits)
  have "issued (GetIncident s) inc_ident (im_seq (pr_incidents p))"
    by (rule Resolve_issued [OF _ res keyed]) (use inv in \<open>simp add: tracker_inv_def\<close>)
  then show ?thesis
    using assms(1) fr tracker_inv_store(2) [OF inv fr(1), of "pr_honey p"] honey_inv_frame [OF fr(2,3)] alerts_inv_frame [OF fr(4)]
    by (simp add: proc_inv_def) (simp add: tracker_inv_def)
qed

lemma proc_inv_tokens:
  assumes "proc_inv mac sg p" and "same_ring (pr_store p) s" and "honey_inv (hm_seq ht) s"
    and "st_incidents s = st_incidents (pr_store p)" and "st_alerts s = st_alerts (pr_store p)"
  shows "proc_inv mac sg (p\<lparr>pr_honey := ht, pr_store := s\<rparr>)"
proof -
  have inv: "tracker_inv mac p" using assms(1) by (simp add: proc_inv_def)
  have "tracker_inv mac (p\<lparr>pr_honey := ht, pr_store := s\<rparr>)"
    by (rule tracker_inv_store(1) [OF inv assms(2,3)])
      (use inv issued_incidents_frame [OF assms(4)] alerts_inv_frame [OF assms(5)] in \<open>simp_all add: tracker_inv_def\<close>)
  then show ?thesis using assms(1) issued_incidents_frame [OF assms(4)]
    by (simp add: proc_inv_def incidents_keyed_def)
qed

lemma proc_inv_Process:
  assumes "proc_inv mac sg p" and "env_ok env" and "mac_ok mac"
  shows "proc_inv mac sg (fst (Process mac marshal env ev p))"
proof -
  obtain p' fx where run: "Process mac marshal env ev p = (p', fx)" by fastforce
  have inv: "tracker_inv mac p" and keyed: "incidents_keyed (pr_store p)" using assms(1) by (simp_all add: proc_inv_def)
  have "incidents_keyed (pr_store p')"
  proof (cases "rejection p (enrich env ev)")
    case (Some err)
    then show ?thesis using run keyed by (auto simp: Process_def Let_def reject_step_def Reject_def split: option.splits)
  next
    case None
    then have step: "accept_step mac env (enrich env ev) p = (p', fx)" using run by (simp add: Process_def Let_def)
    show ?thesis
    proof (rule accept_step_cases [OF step])
      fix e mx2 tok s2 mx3 inc s3 mx4 s4 mx5 fired jobs
      assume ht: "CheckEvent (env_clk env 3) e (store_stage e (pr_store p), mx2) = (tok, s2, mx3)"
        and ac: "AutoCreate (env_clk env 5) (env_clk env 6) e (pr_incidents p, s2, mx3) = (inc, pr_incidents p', s3, mx4)"
        and al: "Evaluate (env_alert env) e (pr_alerts p, s3, mx4) = (pr_alerts p', s4, mx5, fired, jobs)"
        and s4: "pr_store p' = s4"
      have "GetIncident s2 = GetIncident (pr_store p)"
        using CheckEvent_frame [OF ht] by (intro issued_incidents_frame) (simp add: store_stage_tables)
      then have "incidents_keyed s2" using keyed by (simp add: incidents_keyed_def)
      then have "incidents_keyed s3"
        using ac by (auto simp: incidents_keyed_def AutoCreate_def AddIncident_def GetIncident_def Let_def
            split: option.splits if_splits)
      then show ?thesis using Evaluate_frame [OF al] by (simp add: s4 incidents_keyed_def GetIncident_def)
    qed
  qed
  then show ?thesis
    using tracker_inv_Process [OF inv assms(2,3) run] Process_keeps [OF run] assms(1) run by (simp add: proc_inv_def)
qed

subsection \<open>The monitor behind the requests\<close>

lemma mon_inv_frame:
  "mon_checkpoints m' = mon_checkpoints m \<Longrightarrow> mon_chans m' = mon_chans m \<Longrightarrow> mon_pendingCh m' = mon_pendingCh m \<Longrightarrow>
     mon_inv m' = mon_inv m"
  by (simp add: mon_inv_def gate_inv_def)

lemma mon_inv_sessions [simp]:
  "mon_inv (fst (ObserveEvent md sid stid ev m)) = mon_inv m"
  "mon_inv (fst (DeleteSession sid m)) = mon_inv m"
  "mon_inv (fst (AnnotateStep sid stid note m)) = mon_inv m"
  by (rule mon_inv_frame; auto simp: ObserveEvent_def session_for_def DeleteSession_def AnnotateStep_def Let_def
      split: option.split)+

lemma mon_inv_take: "mon_inv m \<Longrightarrow> mon_inv (take_decision cid m)"
  using take_decision_inv [of True m cid] by (auto simp: mon_inv_def take_decision_def split: option.splits)

lemma mon_inv_SetMode:
  "mon_inv m \<Longrightarrow> \<forall>xs. mset (ord xs) = mset xs \<Longrightarrow> pred_option mon_inv (SetMode ord md m) \<and> SetMode ord md m \<noteq> None"
  using SetMode_inv [of True m md ord] by (auto simp: mon_inv_def)

lemma mon_inv_Create:
  "mon_inv m \<Longrightarrow> mget (mon_checkpoints m) cid = None \<Longrightarrow>
     mon_inv (fst (snd (CreateCheckpoint now now2 cid t tn st data m)))"
  using CreateCheckpoint_inv [of True m cid now now2 t tn st data]
  by (auto simp: mon_inv_def CreateCheckpoint_def Let_def)

lemma mon_inv_Decide:
  assumes "mon_inv m"
  shows "\<exists>r. Decide now cid [] dec' nts m = Some r \<and> mon_inv (fst (snd r))"
proof -
  from Decide_inv [of True m now cid "[]" dec' nts] assms
  obtain r where r: "Decide now cid [] dec' nts m = Some r" "gate_inv True (fst (snd r))" by (auto simp: mon_inv_def)
  moreover have "ck_DecidedBy cp = []" if "mget (mon_checkpoints (fst (snd r))) c = Some cp" for c cp
    using r(1) that assms by (auto simp: Decide_def deliver_decision_def mon_inv_def Let_def split: option.splits if_splits)
  ultimately show ?thesis by (auto simp: mon_inv_def)
qed

lemma mon_inv_timeout:
  assumes "mon_inv m"
  shows "\<exists>r. enforceTimeout now cid m = Some r \<and> mon_inv (fst r)"
proof -
  from enforceTimeout_inv [of True m now cid] assms
  obtain r where r: "enforceTimeout now cid m = Some r" "gate_inv True (fst r)" by (auto simp: mon_inv_def)
  moreover have "ck_DecidedBy cp = []" if "mget (mon_checkpoints (fst r)) c = Some cp" for c cp
    using r(1) that assms by (auto simp: enforceTimeout_def deliver_decision_def mon_inv_def Let_def split: option.splits if_splits)
  ultimately show ?thesis by (auto simp: mon_inv_def)
qed

subsection \<open>An event with its hooks\<close>

lemma Inspect_detected: "detected_ok d \<Longrightarrow> detected_ok (fst (Inspect env ev d))"
  using run_rules_detected [of "inspect_rules env (inspected_at env ev) ev" d] inspect_detected
  by (simp add: Inspect_def inspected_at_def Let_def)

lemma observe_hook_inv: "server_inv mac sg h \<Longrightarrow> server_inv mac sg (observe_hook env ev h)"
  by (cases "h_mon h") (simp_all add: observe_hook_def server_inv_def emit_def split_beta Let_def)

lemma inspect_hook_inv: "server_inv mac sg h \<Longrightarrow> server_inv mac sg (inspect_hook env ev h)"
  using Inspect_detected
  by (cases "h_anomaly h") (simp_all add: inspect_hook_def server_inv_def emit_def split_beta Let_def)

lemma ingest_inv:
  assumes "server_inv mac sg h" and "env_ok (ge_env env)" and "mac_ok mac"
  shows "server_inv mac sg (ingest mac marshal env ev h)"
proof -
  obtain p' fx where run: "Process mac marshal (ge_env env) ev (h_proc h) = (p', fx)" by fastforce
  have "proc_inv mac sg p'"
    using proc_inv_Process [of mac sg "h_proc h" "ge_env env" marshal ev] assms run by (simp add: server_inv_def)
  then have "server_inv mac sg (emit (fx_outputs fx) (h\<lparr>h_proc := p'\<rparr>))"
    using assms(1) by (simp add: server_inv_def emit_def)
  moreover have "server_inv mac sg (run_hooks env e h)" if "server_inv mac sg h" for e h
    using that by (simp add: run_hooks_def inspect_hook_inv observe_hook_inv)
  then have "server_inv mac sg (fold (run_hooks env) evs h)" if "server_inv mac sg h" for evs h
    using that by (induction evs arbitrary: h) simp_all
  ultimately show ?thesis by (simp add: ingest_def run)
qed

lemma ingest_list_inv:
  "server_inv mac sg h \<Longrightarrow> \<forall>n. env_ok (ge_env (envs n)) \<Longrightarrow> mac_ok mac \<Longrightarrow>
     server_inv mac sg (ingest_list mac marshal envs n evs h)"
  by (induction evs arbitrary: n h) (simp_all add: ingest_inv)

subsection \<open>Every request keeps the invariant\<close>

lemma server_inv_store:
  assumes "server_inv mac sg h" and "proc_inv mac sg ((h_proc h)\<lparr>pr_store := fst (f (pr_store (h_proc h)))\<rparr>)"
  shows "server_inv mac sg (fst (on_store f h))"
  using assms by (simp add: server_inv_def on_store_def split_beta Let_def)

lemma server_inv_mon:
  "server_inv mac sg h \<Longrightarrow> mon_inv m \<Longrightarrow> server_inv mac sg (h\<lparr>h_mon := Some m\<rparr>)"
  by (simp add: server_inv_def)

lemma store_requests_inv:
  assumes "server_inv mac sg h"
  shows "server_inv mac sg (snd (ResolveIncident now r nbody h))"
    and "server_inv mac sg (snd (AcknowledgeAlert_handler now r h))"
    and "server_inv mac sg (snd (ResolveAlert_handler now r h))"
    and "server_inv mac sg (snd (DeleteHoneyToken r h))"
    and "server_inv mac sg (alerts_tick ord now clk h)"
    and "server_inv mac sg (snd (CreateHoneyToken now tbody h))"
proof -
  let ?p = "h_proc h"
  have p: "proc_inv mac sg ?p" using assms by (simp add: server_inv_def)
  have honey: "honey_inv (hm_seq (pr_honey ?p)) (pr_store ?p)" using p by (simp add: proc_inv_def tracker_inv_def)
  have "server_inv mac sg (fst (on_store (\<lambda>s. let (inc, s') = Incident_Resolve now iid nts s in (s', inc)) h))" for iid nts
    by (rule server_inv_store [OF assms])
      (use proc_inv_resolve [OF p prod.collapse [symmetric]] in \<open>simp add: split_beta Let_def\<close>)
  then show "server_inv mac sg (snd (ResolveIncident now r nbody h))"
    by (simp add: ResolveIncident_def split_beta Let_def split: option.split)
  have "server_inv mac sg (fst (on_store (AcknowledgeAlert now aid) h))" for aid
    by (rule server_inv_store [OF assms]) (rule proc_inv_alerts [OF p alert_ops_only(1)])
  then show "server_inv mac sg (snd (AcknowledgeAlert_handler now r h))"
    by (simp add: AcknowledgeAlert_handler_def split_beta Let_def)
  have "server_inv mac sg (fst (on_store (ResolveAlert now aid) h))" for aid
    by (rule server_inv_store [OF assms]) (rule proc_inv_alerts [OF p alert_ops_only(2)])
  then show "server_inv mac sg (snd (ResolveAlert_handler now r h))"
    by (simp add: ResolveAlert_handler_def split_beta Let_def)
  have del: "same_ring s (fst (HT_Delete tid s)) \<and> st_incidents (fst (HT_Delete tid s)) = st_incidents s
      \<and> st_alerts (fst (HT_Delete tid s)) = st_alerts s" for tid s
    by (simp add: HT_Delete_def DeleteToken_def same_ring_def split: option.split)
  have "server_inv mac sg (fst (on_store (HT_Delete tid) h))" for tid
    by (rule server_inv_store [OF assms])
      (use proc_inv_tokens [OF p, of "fst (HT_Delete tid (pr_store ?p))" "pr_honey ?p"] del honey_inv_Delete [OF honey] in simp)
  then show "server_inv mac sg (snd (DeleteHoneyToken r h))"
    by (simp add: DeleteHoneyToken_def split_beta Let_def)
  have "proc_inv mac sg (?p\<lparr>pr_store := fst (runLifecycleTick ord now clk (pr_alerts ?p) (pr_store ?p, pr_metrics ?p))\<rparr>)"
    by (rule proc_inv_alerts [OF p]) (simp add: runLifecycleTick_def tick_loop_only)
  then show "server_inv mac sg (alerts_tick ord now clk h)"
    using assms proc_inv_metrics by (simp add: alerts_tick_def server_inv_def emit_def split_beta Let_def)
  have "proc_inv mac sg (?p\<lparr>pr_honey := ht, pr_store := s\<rparr>)"
    if "HT_Create now nm d l ty (pr_honey ?p, pr_store ?p) = (tok, ht, s)" for nm d l ty tok ht s
    by (rule proc_inv_tokens [OF p]) (use honey_inv_Create [OF honey that] that in
      \<open>auto simp: HT_Create_def AddToken_def same_ring_def Let_def\<close>)
  then show "server_inv mac sg (snd (CreateHoneyToken now tbody h))"
    using assms by (cases tbody) (auto simp: CreateHoneyToken_def server_inv_def split: prod.split)
qed

text \<open>The login endpoints touch the login trail only.\<close>

lemma trail_only:
  "\<exists>evs. snd (Login jwt cmp clk authCfg us r lbody s) = fold RecordLogin evs s"
  "\<exists>evs. snd (RefreshToken_handler jwt clk authCfg r tok s) = fold RecordLogin evs s"
proof -
  have one: "\<exists>evs. s = fold RecordLogin evs s" "\<exists>evs. RecordLogin ev s = fold RecordLogin evs s" for ev
    by (rule exI [of _ "[]"], simp) (rule exI [of _ "[ev]"], simp)
  show "\<exists>evs. snd (Login jwt cmp clk authCfg us r lbody s) = fold RecordLogin evs s"
    using one by (cases lbody) (auto simp: Login_def loginAuditRecord_def Let_def split: option.split sum.split prod.split)
  show "\<exists>evs. snd (RefreshToken_handler jwt clk authCfg r tok s) = fold RecordLogin evs s"
    using one by (cases tok) (auto simp: RefreshToken_handler_def Let_def split: option.split sum.split prod.split)
qed

lemma trail_frame:
  "same_ring s (fold RecordLogin evs s)" "st_incidents (fold RecordLogin evs s) = st_incidents s"
  "st_alerts (fold RecordLogin evs s) = st_alerts s" "st_tokens (fold RecordLogin evs s) = st_tokens s"
  "st_triggers (fold RecordLogin evs s) = st_triggers s"
  by (induction evs arbitrary: s) (auto simp: RecordLogin_def same_ring_def Let_def)

lemma login_requests_inv:
  assumes "server_inv mac sg h"
  shows "server_inv mac sg (fst (on_store (\<lambda>s. prod.swap (Login jwt cmp clk authCfg us r lbody s)) h))"
    and "server_inv mac sg (fst (on_store (\<lambda>s. prod.swap (RefreshToken_handler jwt clk authCfg r tok s)) h))"
proof -
  let ?p = "h_proc h"
  have p: "proc_inv mac sg ?p" using assms by (simp add: server_inv_def)
  have honey: "honey_inv (hm_seq (pr_honey ?p)) (pr_store ?p)" using p by (simp add: proc_inv_def tracker_inv_def)
  have trail: "proc_inv mac sg (?p\<lparr>pr_store := fold RecordLogin evs (pr_store ?p)\<rparr>)" for evs
    using proc_inv_tokens [OF p, of "fold RecordLogin evs (pr_store ?p)" "pr_honey ?p"]
      honey honey_inv_frame [OF trail_frame(4,5)] by (simp add: trail_frame)
  show "server_inv mac sg (fst (on_store (\<lambda>s. prod.swap (Login jwt cmp clk authCfg us r lbody s)) h))"
    by (rule server_inv_store [OF assms]) (use trail trail_only(1) in \<open>metis fst_swap\<close>)
  show "server_inv mac sg (fst (on_store (\<lambda>s. prod.swap (RefreshToken_handler jwt clk authCfg r tok s)) h))"
    by (rule server_inv_store [OF assms]) (use trail trail_only(2) in \<open>metis fst_swap\<close>)
qed

lemma demo_requests_inv:
  assumes "server_inv mac sg h"
  shows "server_inv mac sg (snd (ReplayScenario quote named h))"
    and "server_inv mac sg (snd (StopScenario nbody h))"
    and "server_inv mac sg (snd (StartRecording now stamp rbody h))"
    and "server_inv mac sg (snd (StopRecording now h))"
  using assms
  by (cases named; cases nbody; cases rbody; auto simp: ReplayScenario_def StopScenario_def StartRecording_def
      StopRecording_def Let_def split: option.split prod.split)+

lemma monitor_requests_inv:
  assumes "server_inv mac sg h"
  shows "server_inv mac sg (snd (MonitorDeleteSession r h))"
    and "server_inv mac sg (snd (MonitorAnnotateStep r nbody h))"
    and "\<forall>m. h_mon h = Some m \<longrightarrow> mget (mon_checkpoints m) cid = None \<Longrightarrow>
           server_inv mac sg (snd (MonitorCreateCheckpoint now now2 cid cbody h))"
    and "h_mon h = Some m \<Longrightarrow> server_inv mac sg (h\<lparr>h_mon := Some (take_decision cid' m)\<rparr>)"
proof -
  show "server_inv mac sg (snd (MonitorDeleteSession r h))"
    using assms by (auto simp: MonitorDeleteSession_def server_inv_def split_beta Let_def split: option.split)
  show "server_inv mac sg (snd (MonitorAnnotateStep r nbody h))"
    using assms by (cases nbody) (auto simp: MonitorAnnotateStep_def server_inv_def split_beta Let_def split: option.split)
  show "server_inv mac sg (snd (MonitorCreateCheckpoint now now2 cid cbody h))"
    if "\<forall>m. h_mon h = Some m \<longrightarrow> mget (mon_checkpoints m) cid = None"
    using assms that mon_inv_Create
    by (cases cbody) (auto simp: MonitorCreateCheckpoint_def server_inv_def emit_def split_beta Let_def split: option.split)
  show "server_inv mac sg (h\<lparr>h_mon := Some (take_decision cid' m)\<rparr>)" if "h_mon h = Some m"
    using assms that by (intro server_inv_mon mon_inv_take) (simp_all add: server_inv_def)
qed

lemma set_mode_inv:
  assumes "server_inv mac sg h" and ord: "\<forall>xs. mset (ord xs) = mset xs"
  shows "\<exists>h'. map_option snd (MonitorSetMode ord now rbody h) = Some h' \<and> server_inv mac sg h'"
proof (cases "h_mon h")
  case None
  then show ?thesis using assms(1) by (simp add: MonitorSetMode_def)
next
  case (Some m)
  then have "mon_inv m" using assms(1) by (simp add: server_inv_def)
  then have set: "\<exists>m'. SetMode ord md m = Some m' \<and> mon_inv m'" for md
    using mon_inv_SetMode [OF _ ord, of m md] by auto
  show ?thesis
  proof (cases rbody)
    case (Inl err)
    then show ?thesis using Some assms(1) by (simp add: MonitorSetMode_def decodeBlocking_def)
  next
    case (Inr b)
    obtain x reason where b: "b = (x, reason)" by fastforce
    show ?thesis
    proof (cases "mode_of_text x")
      case (Some md)
      obtain m' where "SetMode ord md m = Some m'" "mon_inv m'" using set by blast
      then show ?thesis using \<open>h_mon h = Some m\<close> Some assms(1)
        by (simp add: MonitorSetMode_def decodeBlocking_def Inr b server_inv_mon)
    qed (use Some assms(1) Inr b in \<open>simp add: MonitorSetMode_def decodeBlocking_def\<close>)
  qed
qed

lemma decide_inv:
  assumes "server_inv mac sg h" and user: "username_of ctx = []"
  shows "\<exists>h'. map_option snd (MonitorDecideCheckpoint now ctx r rbody h) = Some h' \<and> server_inv mac sg h'"
proof (cases "h_mon h")
  case (Some m)
  then have "mon_inv m" using assms by (simp add: server_inv_def)
  then have d: "\<exists>res m' ps. Decide now cid [] dec' nts m = Some (res, m', ps) \<and> mon_inv m'" for cid dec' nts
    using mon_inv_Decide [of m now cid dec' nts] by auto
  show ?thesis
  proof (cases rbody)
    case (Inr b)
    obtain dec' nts where b: "b = (dec', nts)" by fastforce
    obtain res m' ps where "Decide now (rq_param r ''checkpoint_id'') [] dec' nts m = Some (res, m', ps)" "mon_inv m'"
      using d by blast
    then show ?thesis using Some assms
      by (auto simp: MonitorDecideCheckpoint_def decodeBlocking_def Inr b user server_inv_mon Let_def split: option.split)
  qed (use Some assms in \<open>simp add: MonitorDecideCheckpoint_def decodeBlocking_def\<close>)
qed (use assms in \<open>simp add: MonitorDecideCheckpoint_def\<close>)

lemma timeout_inv:
  assumes "server_inv mac sg h"
  shows "\<exists>h'. checkpoint_timeout now cid h = Some h' \<and> server_inv mac sg h'"
proof (cases "h_mon h")
  case (Some m)
  then obtain m' ps where "enforceTimeout now cid m = Some (m', ps)" "mon_inv m'"
    using mon_inv_timeout [of m now cid] assms by (auto simp: server_inv_def)
  then show ?thesis using Some assms by (simp add: checkpoint_timeout_def server_inv_mon)
qed (use assms in \<open>simp add: checkpoint_timeout_def\<close>)

lemma submit_requests_inv:
  assumes "server_inv mac sg h" and "mac_ok mac"
  shows "env_ok (ge_env env) \<Longrightarrow> server_inv mac sg (collector_handle mac marshal env body h)"
    and "env_ok (ge_env env) \<Longrightarrow> server_inv mac sg (snd (Grpc_SubmitEvent mac marshal env ev h))"
    and "\<forall>n. env_ok (ge_env (envs n)) \<Longrightarrow> server_inv mac sg (snd (Grpc_SubmitBatchEvents mac marshal envs evs h))"
    and "env_ok (ge_env env) \<Longrightarrow> server_inv mac sg (snd (SubmitEvent mac marshal env body h))"
    and "\<forall>n. env_ok (ge_env (envs n)) \<Longrightarrow> server_inv mac sg (snd (SubmitBatch mac marshal envs bodies h))"
    and "env_ok (ge_env env) \<Longrightarrow> server_inv mac sg (snd (InjectEvent mac marshal env now body h))"
  using assms
  by (cases body; cases bodies; simp add: SubmitEvent_def SubmitBatch_def InjectEvent_def
      collector_handle_def Grpc_SubmitEvent_def Grpc_SubmitBatchEvents_def ingest_inv ingest_list_inv Let_def)+

lemma server_step_inv:
  assumes "server_step mac marshal h r" and "server_inv mac sg h" and "mac_ok mac"
  shows "\<exists>h'. r = Some h' \<and> server_inv mac sg h'"
  using assms(1)
proof cases
  case (set_mode ord now rbody)
  then show ?thesis using set_mode_inv [OF assms(2)] by blast
next
  case (decide jwt t authCfg g hdr ctx now r rbody)
  then show ?thesis using decide_inv [OF assms(2) guarded_username] by blast
next
  case (timeout now cid)
  then show ?thesis using timeout_inv [OF assms(2)] by blast
next
  case (spawned env ev)
  then show ?thesis using ingest_inv [OF assms(2) _ assms(3)] by blast
next
  case (replay_event env i de e' now)
  then show ?thesis using ingest_inv [OF _ _ assms(3), of sg "h\<lparr>h_demo := e'\<rparr>"] assms(2) by simp
qed (use assms submit_requests_inv [OF assms(2,3)] store_requests_inv [OF assms(2)] demo_requests_inv [OF assms(2)]
    monitor_requests_inv [OF assms(2)] login_requests_inv [OF assms(2)] in simp_all)

lemma started_parts:
  "co_monitor (buildComponents clk cfg) = SetBroadcast (Monitor_New (cf_Monitor cfg))"
  "pred_option detected_ok (co_detector (buildComponents clk cfg))"
  "newest (pr_store (co_proc (buildComponents clk cfg))) = []"
  "GetIncident (pr_store (co_proc (buildComponents clk cfg))) k = None"
proof -
  let ?n = "so_MaxEventsMemory (cf_Storage cfg)"
  show "co_monitor (buildComponents clk cfg) = SetBroadcast (Monitor_New (cf_Monitor cfg))"
    and "pred_option detected_ok (co_detector (buildComponents clk cfg))"
    by (simp_all add: buildComponents_def Detector_New_def Let_def split: prod.split)
  obtain ht s where sd: "SeedDefaults clk (\<lparr>hm_seq = 0\<rparr>, Store_New ?n) = (ht, s)" by fastforce
  note parts = SeedDefaults_parts [OF sd]
  have "newest s = []" using parts same_ring_newest [of "Store_New ?n" s] by simp
  then show "newest (pr_store (co_proc (buildComponents clk cfg))) = []"
    and "GetIncident (pr_store (co_proc (buildComponents clk cfg))) k = None"
    using parts sd by (simp_all add: buildComponents_def GetIncident_def SetValidator_def SetSigner_def
        SetBypassMonitor_def Processor_New_def Let_def)
qed

lemma start_up_parts:
  "\<exists>pub. snd (start_up lib clk cfg) = (Rest_New (buildComponents clk cfg))
     \<lparr>h_proc := (co_proc (buildComponents clk cfg))\<lparr>pr_pub := pub\<rparr>\<rparr>"
proof -
  have "\<exists>pub. snd (wire_nats lib cfg p) = p\<lparr>pr_pub := pub\<rparr>" for p
  proof (cases "nc_URL (cf_NATS cfg) = []")
    case True
    then show ?thesis by (intro exI [of _ "pr_pub p"]) (simp add: wire_nats_def)
  next
    case False
    then show ?thesis by (simp add: wire_nats_def SetPublisher_def) blast
  qed
  then obtain pub where "snd (wire_nats lib cfg (co_proc (buildComponents clk cfg)))
      = (co_proc (buildComponents clk cfg))\<lparr>pr_pub := pub\<rparr>" by blast
  then show ?thesis by (intro exI [of _ pub]) (simp add: start_up_def Rest_New_def split_beta Let_def)
qed

lemma proc_inv_pub [simp]: "proc_inv mac sg (p\<lparr>pr_pub := pub\<rparr>) = proc_inv mac sg p"
  by (simp add: proc_inv_def tracker_inv_def event_ok_def)

lemma server_inv_start:
  "server_inv mac (Signer_New (so_AuditSecret (cf_Storage cfg))) (snd (start_up lib clk cfg))"
proof -
  obtain pub where start: "snd (start_up lib clk cfg) = (Rest_New (buildComponents clk cfg))
     \<lparr>h_proc := (co_proc (buildComponents clk cfg))\<lparr>pr_pub := pub\<rparr>\<rparr>" using start_up_parts by blast
  have "gate_inv True (SetBroadcast (Monitor_New (cf_Monitor cfg)))"
    using gate_inv_New [of True "cf_Monitor cfg"] by (simp add: gate_inv_def SetBroadcast_def)
  moreover have "mget (mon_checkpoints (SetBroadcast (Monitor_New (cf_Monitor cfg)))) k = None" for k
    by (simp add: SetBroadcast_def Monitor_New_def Let_def)
  ultimately show ?thesis
    using started_inv(1) [of mac clk cfg] started_inv(2,3) [of clk cfg] started_parts [of clk cfg]
    by (simp add: start server_inv_def) (simp add: proc_inv_def incidents_keyed_def mon_inv_def Rest_New_def)
qed

interpretation server_sys:
  safe_system "\<lambda>h. mac_ok mac \<and> server_init cfg h" "server_step mac marshal"
    "\<lambda>h. mac_ok mac \<and> server_inv mac (Signer_New (so_AuditSecret (cf_Storage cfg))) h"
  for mac marshal cfg
  by unfold_locales (use server_inv_start server_step_inv in blast)+

lemma server_reach_inv:
  assumes "server_reach mac marshal cfg h" and "mac_ok mac"
  shows "server_inv mac (Signer_New (so_AuditSecret (cf_Storage cfg))) h"
  using server_sys.reach_inv [OF reachable_from [OF assms(1)]] assms(2) by blast

lemmas server_next = reachable.step_on [where step = "server_step mac marshal"] for mac marshal

subsection \<open>What a run of events leaves\<close>

fun batch_runs :: "(nat \<Rightarrow> IngestEnv) \<Rightarrow> nat \<Rightarrow> BastionEvent list \<Rightarrow> (Env \<times> BastionEvent) list" where
  "batch_runs envs n [] = []"
| "batch_runs envs n (ev # evs) = (ge_env (envs n), ev) # batch_runs envs (Suc n) evs"

lemma hooks_frame [simp]:
  "h_proc (run_hooks env ev h) = h_proc h" "h_demo (run_hooks env ev h) = h_demo h"
  "h_recorder (run_hooks env ev h) = map_option (rec_Record ev) (h_recorder h)"
  by (simp_all add: run_hooks_def record_hook_def inspect_hook_def observe_hook_def emit_def Let_def split_beta
      split: option.split)

lemma hooks_fold:
  "h_proc (fold (run_hooks env) evs h) = h_proc h" "h_demo (fold (run_hooks env) evs h) = h_demo h"
  "h_recorder (fold (run_hooks env) evs h) = map_option (fold rec_Record evs) (h_recorder h)"
  by (induction evs arbitrary: h) (simp_all add: option.map_comp comp_def option.map_id)

lemma ingest_frame:
  "h_proc (ingest mac marshal env ev h) = fst (Process mac marshal (ge_env env) ev (h_proc h))"
  "h_demo (ingest mac marshal env ev h) = h_demo h"
  "h_recorder (ingest mac marshal env ev h) =
     map_option (fold rec_Record (fx_hooks (snd (Process mac marshal (ge_env env) ev (h_proc h))))) (h_recorder h)"
  by (simp_all add: ingest_def split_beta Let_def hooks_fold emit_def)

lemma Process_hooks:
  assumes "pr_validator p \<noteq> None" and "pr_signer p = Some sg"
  shows "fx_hooks (snd (Process mac marshal env ev p)) = map (Sign mac sg) (accepted [(env, ev)])"
proof (cases "Validate (enrich env ev)")
  case None
  obtain p' fx where step: "accept_step mac env (enrich env ev) p = (p', fx)" by fastforce
  have "fx_hooks fx = [sign_stage mac p (enrich env ev)]"
    using step by (rule accept_step_cases) simp
  then show ?thesis using None step assms
    by (auto simp: Process_def rejection_def accepted_def sign_stage_def Let_def)
next
  case (Some err)
  then show ?thesis using assms by (auto simp: Process_def rejection_def accepted_def no_effects_def Let_def)
qed

lemma accepted_Cons: "accepted (e # evs) = accepted [e] @ accepted evs"
  by (simp add: accepted_def split_beta)

lemma ingest_list_frame:
  assumes "pr_validator (h_proc h) \<noteq> None" and "pr_signer (h_proc h) = Some sg"
  shows "h_proc (ingest_list mac marshal envs n evs h) = process_all mac marshal (batch_runs envs n evs) (h_proc h)
    \<and> h_demo (ingest_list mac marshal envs n evs h) = h_demo h
    \<and> h_recorder (ingest_list mac marshal envs n evs h)
        = map_option (fold rec_Record (map (Sign mac sg) (accepted (batch_runs envs n evs)))) (h_recorder h)"
  using assms
proof (induction evs arbitrary: n h)
  case Nil
  show ?case by (simp add: process_all_def accepted_def option.map_id0 [unfolded id_def] option.map_ident)
next
  case (Cons ev evs)
  let ?h = "ingest mac marshal (envs n) ev h"
  obtain p' fx where run: "Process mac marshal (ge_env (envs n)) ev (h_proc h) = (p', fx)" by fastforce
  have "pr_validator (h_proc ?h) \<noteq> None" "pr_signer (h_proc ?h) = Some sg"
    using Process_keeps [OF run] Cons.prems run by (simp_all add: ingest_frame)
  note IH = Cons.IH [OF this, of "Suc n"]
  show ?case
    unfolding ingest_list.simps batch_runs.simps process_all_Cons accepted_Cons [of _ "batch_runs envs (Suc n) evs"]
    using IH Process_hooks [OF Cons.prems, of mac marshal "ge_env (envs n)" ev]
    by (simp add: ingest_frame option.map_comp comp_def)
qed

lemma ingest_list_store:
  assumes "mac_ok mac" and "server_reach mac marshal cfg h" and "\<forall>n. env_ok (ge_env (envs n))"
  shows "newest (pr_store (h_proc (ingest_list mac marshal envs 0 evs h))) = take (st_maxEvents (pr_store (h_proc h)))
        (rev (map (Sign mac (Signer_New (so_AuditSecret (cf_Storage cfg)))) (accepted (batch_runs envs 0 evs)))
           @ newest (pr_store (h_proc h)))
    \<and> map dl_Reason (va_deadLetters (the (pr_validator (h_proc (ingest_list mac marshal envs 0 evs h))))) = keep_last maxDeadLetters
        (map dl_Reason (va_deadLetters (the (pr_validator (h_proc h))))
           @ map (\<lambda>(ev, err). invalid_text go_quote err) (rejected (batch_runs envs 0 evs)))
    \<and> letters_ok (the (pr_validator (h_proc h)))"
proof -
  let ?sg = "Signer_New (so_AuditSecret (cf_Storage cfg))" and ?p = "h_proc h"
  have p: "tracker_inv mac ?p" "pr_signer ?p = Some ?sg" "pr_validator ?p \<noteq> None"
    using server_reach_inv [OF assms(2,1)] by (simp_all add: server_inv_def proc_inv_def)
  obtain v where v: "pr_validator ?p = Some v" using p(3) by auto
  have envs: "list_all (\<lambda>(env, ev). env_ok env) (batch_runs envs n evs)" for n
    using assms(3) by (induction evs arbitrary: n) simp_all
  show ?thesis
    using run_store [OF p(1) assms(1) envs v p(2), of marshal 0] ingest_list_frame [OF p(3,2), of mac marshal envs 0 evs] p(1)
    by (simp add: v tracker_inv_def)
qed

lemma Defaults_nats: "nc_URL (cf_NATS Defaults) = ''nats://localhost:4222''" "nc_Subjects (cf_NATS Defaults) = [''bastion.events.>'']"
  by (simp_all add: Defaults_def)

subsection \<open>Properties\<close>

text \<open>
  C1: the server stays sound under every interleaving of requests. In any state reachable from start-up
  no request or background step can block on the monitor's mutex, the tracker's invariant holds,
  every stored event is valid and carries the signature of the configured key, so the audit
  endpoint answers any query with nothing but valid events, and the anomaly detector holds at
  most 1000 anomalies.
\<close>

theorem server_stays_sound:
  assumes "mac_ok mac" and "server_reach mac marshal cfg h"
  shows "\<not> server_step mac marshal h None \<and> tracker_inv mac (h_proc h)
    \<and> list_all (\<lambda>ev. Validate ev = None \<and> Verify mac (Signer_New (so_AuditSecret (cf_Storage cfg))) ev)
        (newest (pr_store (h_proc h)))
    \<and> (case VerifyAuditLog_handler mac (pr_signer (h_proc h)) now r (pr_store (h_proc h)) of
         Reply n res \<Rightarrow> n = 200 \<and> av_Valid res = av_Total res \<and> av_Invalid res = 0 \<and> av_Unsigned res = 0
           \<and> av_Tampered res = []
       | _ \<Rightarrow> False)
    \<and> pred_option (\<lambda>d. length (dt_detected d) \<le> 1000) (h_anomaly h)"
proof -
  let ?sg = "Signer_New (so_AuditSecret (cf_Storage cfg))" and ?p = "h_proc h"
  have inv: "server_inv mac ?sg h" by (rule server_reach_inv [OF assms(2,1)])
  then have p: "tracker_inv mac ?p" "pr_signer ?p = Some ?sg" "pr_validator ?p \<noteq> None"
    by (simp_all add: server_inv_def proc_inv_def)
  then have ev: "Validate ev = None \<and> Verify mac ?sg ev" if "ev \<in> set (newest (pr_store ?p))" for ev
    using that by (simp add: tracker_inv_def event_ok_def)
  have ver: "Verify mac ?sg ev" if "ev \<in> set (RecentEvents (pr_store ?p) q limit)" for ev q limit
    using ev that RecentEvents_subset by blast
  then have "filter (Verify mac ?sg) (RecentEvents (pr_store ?p) q limit) = RecentEvents (pr_store ?p) q limit" for q limit
    by (simp add: filter_id_conv)
  moreover have "ev_Signature ev \<noteq> []" if "ev \<in> set (RecentEvents (pr_store ?p) q limit)" for ev q limit
    using ver [OF that] by (auto simp: Verify_def)
  ultimately have "case VerifyAuditLog_handler mac (pr_signer ?p) now r (pr_store ?p) of
         Reply n res \<Rightarrow> n = 200 \<and> av_Valid res = av_Total res \<and> av_Invalid res = 0 \<and> av_Unsigned res = 0 \<and> av_Tampered res = []
       | _ \<Rightarrow> False"
    using ver by (simp add: VerifyAuditLog_handler_def VerifyAuditLog_def writeJSON_def p(2) Let_def audit_fold filter_empty_conv)
  moreover have "\<not> server_step mac marshal h None" using server_step_inv [OF _ inv assms(1)] by blast
  ultimately show ?thesis using p(1) ev inv by (simp add: server_inv_def list_all_iff)
qed

text \<open>
  C36: who decided a checkpoint is never recorded. In every reachable state \<open>DecidedBy\<close> of every
  checkpoint is empty. When a request that the middleware lets through, whatever the settings and the token, decides
  a checkpoint, then the context it runs in holds no user name, because the handler reads a key that
  nothing sets: the record has the decision, the time and the notes, but no name. The request is answered 400 when the
  decision is neither of the two words, 404 when the checkpoint does not exist or is decided, and else 200.
\<close>

theorem operator_never_recorded:
  assumes "mac_ok mac" and "server_reach mac marshal cfg h" and "h_mon h = Some m"
    and "guarded jwt t authCfg g hdr = Invoke ctx" and "cid = rq_param r ''checkpoint_id''"
  shows "(\<forall>k cp. GetCheckpoint k m = Some cp \<longrightarrow> ck_DecidedBy cp = [])
    \<and> map_option fst (MonitorDecideCheckpoint now ctx r (Inr (decision, why)) h) =
        Some (if decision \<noteq> ''approve'' \<and> decision \<noteq> ''reject''
              then ErrorReply 400 (''decision must be '' @ go_quote ''approve'' @ '' or '' @ go_quote ''reject'')
              else case GetCheckpoint cid m of
                     None \<Rightarrow> ErrorReply 404 ''checkpoint not found or already decided''
                   | Some cp \<Rightarrow>
                       if ck_Status cp \<noteq> StatusPending then ErrorReply 404 ''checkpoint not found or already decided''
                       else Reply 200 (cp\<lparr>ck_Status := if decision = ''approve'' then StatusApproved else StatusRejected,
                              ck_DecidedAt := Some now, ck_DecidedBy := [], ck_Notes := why\<rparr>))"
proof
  have m: "mon_inv m" using server_reach_inv [OF assms(2,1)] assms(3) by (simp add: server_inv_def)
  then show "\<forall>k cp. GetCheckpoint k m = Some cp \<longrightarrow> ck_DecidedBy cp = []" by (simp add: mon_inv_def GetCheckpoint_def)
  obtain res m' ps where d: "Decide now cid [] decision why m = Some (res, m', ps)"
    using mon_inv_Decide [OF m, of now cid decision why] by auto
  have res: "res = (case GetCheckpoint cid m of None \<Rightarrow> None | Some cp \<Rightarrow>
      if ck_Status cp \<noteq> StatusPending then None
      else Some (cp\<lparr>ck_Status := if decision = ''approve'' then StatusApproved else StatusRejected,
        ck_DecidedAt := Some now, ck_DecidedBy := [], ck_Notes := why\<rparr>))"
    if "decision = ''approve'' \<or> decision = ''reject''"
    using d that by (auto simp: Decide_def GetCheckpoint_def decision_status_def Let_def split: if_splits option.splits)
  show "map_option fst (MonitorDecideCheckpoint now ctx r (Inr (decision, why)) h) = Some (if decision \<noteq> ''approve'' \<and> decision \<noteq> ''reject''
              then ErrorReply 400 (''decision must be '' @ go_quote ''approve'' @ '' or '' @ go_quote ''reject'')
              else case GetCheckpoint cid m of
                     None \<Rightarrow> ErrorReply 404 ''checkpoint not found or already decided''
                   | Some cp \<Rightarrow>
                       if ck_Status cp \<noteq> StatusPending then ErrorReply 404 ''checkpoint not found or already decided''
                       else Reply 200 (cp\<lparr>ck_Status := if decision = ''approve'' then StatusApproved else StatusRejected,
                              ck_DecidedAt := Some now, ck_DecidedBy := [], ck_Notes := why\<rparr>))"
    using assms(3) d res guarded_username [OF assms(4)]
    by (auto simp: MonitorDecideCheckpoint_def decodeBlocking_def writeJSON_def writeError_def assms(5) [symmetric] Let_def
        split: option.splits)
qed

text \<open>
  C11: a batch is answered as accepted whatever happens to it. In every reachable state the reply to a
  batch is 202 with all events counted as accepted and none as rejected, while the store gains
  exactly the valid ones, enriched and signed, newest first, and the dead letters the others.
\<close>

theorem batch_reply_and_store:
  assumes "mac_ok mac" and "server_reach mac marshal cfg h" and "\<forall>n. env_ok (ge_env (envs n))"
    and "SubmitBatch mac marshal envs (Inr evs) h = (rep, h')"
  shows "rep = Reply 202 \<lparr>br_Accepted = length evs, br_Rejected = 0\<rparr>
    \<and> newest (pr_store (h_proc h')) = take (st_maxEvents (pr_store (h_proc h)))
        (rev (map (Sign mac (Signer_New (so_AuditSecret (cf_Storage cfg)))) (accepted (batch_runs envs 0 evs)))
           @ newest (pr_store (h_proc h)))
    \<and> map dl_Reason (va_deadLetters (the (pr_validator (h_proc h')))) = keep_last maxDeadLetters
        (map dl_Reason (va_deadLetters (the (pr_validator (h_proc h))))
           @ map (\<lambda>(ev, err). invalid_text go_quote err) (rejected (batch_runs envs 0 evs)))"
proof -
  have "rep = Reply 202 \<lparr>br_Accepted = length evs, br_Rejected = 0\<rparr>" "h' = ingest_list mac marshal envs 0 evs h"
    using assms(4) by (simp_all add: SubmitBatch_def writeJSON_def Let_def)
  then show ?thesis using ingest_list_store [OF assms(1-3)] by simp
qed

text \<open>
  A recording captures what the tracker accepted. Whatever events arrive between a successful
  start and the stop of a recording, stopping succeeds and registers a scenario under the given
  name whose events are exactly the accepted ones, as they were stored (defaults filled in,
  signed), in the order of their arrival; rejected events are not recorded.
\<close>

theorem recording_captures_accepted:
  assumes "pr_validator (h_proc h) \<noteq> None" and "pr_signer (h_proc h) = Some sg" and "name \<noteq> []"
    and "StartRecording now stamp (Inr (name, desc)) h = (Reply 200 st, h1)"
    and "StopRecording now2 (ingest_list mac marshal envs 0 evs h1) = (rep, h2)"
  shows "reply_status rep = 200
    \<and> map_option (map de_Event \<circ> sc_Events) (Engine_Get name (h_demo h2))
        = Some (map (Sign mac sg) (accepted (batch_runs envs 0 evs)))"
proof -
  obtain rc where rc: "h_recorder h = Some rc"
    using assms(4) by (cases "h_recorder h") (auto simp: StartRecording_def writeError_def)
  obtain r1 where r1: "rec_Start now name desc rc = (r1, True)" "h1 = h\<lparr>h_recorder := Some r1\<rparr>"
    using assms(3,4) rc by (auto simp: StartRecording_def writeError_def Let_def split: prod.splits if_splits)
  have s: "rec_startedAt r1 = Some now" "rec_state r1 = RecordingActive" "rec_events r1 = []" "rec_name r1 = name"
    using r1(1) by (auto simp: rec_Start_def split: if_splits)
  let ?evs = "map (Sign mac sg) (accepted (batch_runs envs 0 evs))"
  have "pr_validator (h_proc h1) \<noteq> None" "pr_signer (h_proc h1) = Some sg" using assms(1,2) r1(2) by simp_all
  note f = ingest_list_frame [OF this, of mac marshal envs 0 evs]
  show ?thesis
    using assms(5) f r1(2) record_fold [OF s(1,2), of ?evs] s
    by (auto simp: StopRecording_def rec_Stop_def writeJSON_def Engine_Get_def AddScenario_def Let_def comp_def)
qed

text \<open>
  C28: the tracker dead-letters its own publications. Whatever it publishes while processing an event
  lies under the subject that the default settings subscribe to, so NATS delivers it back; received
  as an event it fails the schema check, because its status is not one of those the tracker accepts.
  Nothing is stored, broadcast or published, but an entry is added to the dead letters, where it can
  displace those of the modules.
\<close>

theorem own_events_dead_lettered:
  assumes "mac_ok mac" and "nats_ok lib" and "server_reach mac marshal cfg h" and "server_reach mac marshal cfg h2"
    and "(subj, tv) \<in> set (fx_pub (snd (Process mac marshal env ev (h_proc h))))"
  shows "(\<exists>s \<in> set (nc_Subjects (cf_NATS Defaults)). nl_matches lib s subj)
    \<and> (let h3 = collector_handle mac marshal env2 (Inr (received parse tv)) h2
       in pr_store (h_proc h3) = pr_store (h_proc h2) \<and> h_out h3 = h_out h2
        \<and> map dl_Reason (va_deadLetters (the (pr_validator (h_proc h3)))) = keep_last maxDeadLetters
            (map dl_Reason (va_deadLetters (the (pr_validator (h_proc h2))))
              @ [invalid_text go_quote (InvalidStatus (tv_Status tv))]))"
proof -
  have val: "pr_validator (h_proc h') \<noteq> None" if "server_reach mac marshal cfg h'" for h'
    using server_reach_inv [OF that assms(1)] by (simp add: server_inv_def proc_inv_def)
  have own: "own_event severities (subj, tv)" by (rule Process_publishes [OF assms(5) val [OF assms(3)]])
  then have "subj = ''bastion.events'' @ ''.'' @ ''tracker'' @ ''.'' @ tv_EventType tv" "tv \<in> own_events"
    by (simp_all add: own_event_def subjectPfx_def)
  moreover have "subject_token ''tracker''" by (simp add: subject_token_def)
  ultimately have "nl_matches lib (''bastion.events'' @ ''.>'') subj"
    using assms(2) own_event_parts(2) unfolding nats_ok_def by blast
  moreover obtain v where "pr_validator (h_proc h2) = Some v" using val [OF assms(4)] by auto
  ultimately show ?thesis
    by (simp add: Defaults_nats collector_handle_def ingest_def Process_def rejection_def own_event_rejected [OF own]
        reject_step_def Reject_def no_effects_def fx_outputs_def emit_def add_dead_letter_def keep_last_def drop_map maxDeadLetters_def Let_def)
qed

subsection \<open>Witnesses\<close>

definition demo_ingest :: IngestEnv where
  "demo_ingest = \<lparr>ge_env = demo_env, ge_session = ''s'', ge_step = ''p'', ge_inspect = demo_inspect_env\<rparr>"

text \<open>A NATS server that accepts everything and matches subjects by the part before the wildcard.\<close>

definition demo_nats :: nats_lib where
  "demo_nats = \<lparr>nl_connect = \<lambda>url. None, nl_connect_pub = \<lambda>url. None, nl_subscribe = \<lambda>s. None,
     nl_matches = \<lambda>s subj. HasPrefix subj (butlast s)\<rparr>"

lemma demo_nats_ok: "nats_ok demo_nats"
  by (simp add: nats_ok_def demo_nats_def butlast_append)

definition demo_server :: handlers where
  "demo_server = snd (start_up demo_nats (\<lambda>i. 5) Defaults)"

definition demo_raw :: "BastionEvent \<Rightarrow> string" where
  "demo_raw ev = []"

lemma demo_ingest_ok: "env_ok (ge_env demo_ingest)"
  by (simp add: demo_ingest_def demo_env_def env_ok_def unix_epoch_def)

lemma demo_server_reach: "server_reach toy_mac demo_raw Defaults demo_server"
  unfolding demo_server_def by (rule reachable.begin_here) blast

lemma demo_server_parts:
  "newest (pr_store (h_proc demo_server)) = []" "h_recorder demo_server = Some NewRecorder"
  "pr_validator (h_proc demo_server) \<noteq> None" "pr_signer (h_proc demo_server) = Some (Signer_New (so_AuditSecret (cf_Storage Defaults)))"
  "h_mon demo_server = Some (SetBroadcast (Monitor_New (cf_Monitor Defaults)))"
  "pr_pub (h_proc demo_server) = Some \<lparr>pub_connected = True\<rparr>"
  using started_parts [of "\<lambda>i. 5" Defaults] started_inv(2,3) [of "\<lambda>i. 5" Defaults]
  by (simp_all add: demo_server_def start_up_def wire_nats_def SetPublisher_def Publisher_New_def demo_nats_def
      Defaults_nats Rest_New_def split_beta Let_def)

lemma server_stays_sound_witness:
  "\<not> server_step toy_mac demo_raw (snd (SubmitEvent toy_mac demo_raw demo_ingest (Inr zero_event) demo_server)) None"
  using server_stays_sound [OF toy_mac_ok
      server_next [OF demo_server_reach server_step.submit [OF demo_ingest_ok, where body = "Inr zero_event"]]] by blast

definition demo_decoy :: BastionEvent where
  "demo_decoy = zero_event\<lparr>ev_Module := ''vault'', ev_EventType := ''honey_token_accessed'', ev_Severity := ''critical''\<rparr>"

lemma own_events_dead_lettered_witness:
  "\<exists>tv. tv_Status tv = ''alerted'' \<and> (\<exists>s \<in> set (nc_Subjects (cf_NATS Defaults)).
        nl_matches demo_nats s (subjectPfx @ ''.honey_token_alert''))
    \<and> pr_store (h_proc (collector_handle toy_mac demo_raw demo_ingest (Inr (received (\<lambda>l s. None) tv)) demo_server))
        = pr_store (h_proc demo_server)"
proof -
  have "Validate (enrich demo_env demo_decoy) = None" by code_simp
  then obtain tv where tv: "(subjectPfx @ ''.honey_token_alert'', tv)
      \<in> set (fx_pub (snd (Process toy_mac demo_raw demo_env demo_decoy (h_proc demo_server))))" "tv_Status tv = ''alerted''"
    using decoy_alert [OF _ _ demo_server_parts(6), of demo_env demo_decoy toy_mac demo_raw] by (auto simp: demo_decoy_def)
  from own_events_dead_lettered [OF toy_mac_ok demo_nats_ok demo_server_reach demo_server_reach tv(1),
      of demo_ingest "\<lambda>l s. None"]
  show ?thesis using tv(2) by (auto simp: Let_def)
qed

definition demo_gate :: Monitor where
  "demo_gate = the (SetMode (\<lambda>xs. xs) ModeGate (SetBroadcast (Monitor_New (cf_Monitor Defaults))))"

definition demo_gated :: handlers where
  "demo_gated = demo_server\<lparr>h_mon := Some demo_gate\<rparr>"

definition demo_body :: CheckpointBody where
  "demo_body = \<lparr>cb_TraceID = ''t'', cb_TenantID = ''acme'', cb_Stage = ''vault'', cb_RequestData = []\<rparr>"

lemma demo_gate_parts:
  "SetMode (\<lambda>xs. xs) ModeGate (SetBroadcast (Monitor_New (cf_Monitor Defaults))) = Some demo_gate"
  "mget (mon_checkpoints demo_gate) ''c'' = None"
  "map_option ck_Status (mget (mon_checkpoints (fst (snd (CreateCheckpoint 5 6 ''c'' ''t'' ''acme'' ''vault'' [] demo_gate)))) ''c'')
     = Some StatusPending"
  by code_simp+

lemma demo_gated_reach: "server_reach toy_mac demo_raw Defaults demo_gated"
proof -
  have "map_option snd (MonitorSetMode (\<lambda>xs. xs) 5 (Inr (''gate'', [])) demo_server) = Some demo_gated"
    using demo_gate_parts(1) by (simp add: MonitorSetMode_def decodeBlocking_def mode_of_text_def demo_server_parts demo_gated_def)
  then have "server_step toy_mac demo_raw demo_server (Some demo_gated)"
    using server_step.set_mode [of "\<lambda>xs. xs" toy_mac demo_raw demo_server 5 "Inr (''gate'', [])"] by (simp del: map_option_eq_Some)
  then show ?thesis by (rule server_next [OF demo_server_reach])
qed

lemma operator_never_recorded_witness:
  "let h = snd (MonitorCreateCheckpoint 5 6 ''c'' (Inr demo_body) demo_gated);
       r = \<lparr>rq_query = [], rq_param = (\<lambda>k. ''c''), rq_remote = []\<rparr>
   in case MonitorDecideCheckpoint 7 (claims_context demo_claims) r (Inr (''approve'', ''ok'')) h of
        None \<Rightarrow> False | Some (rep, h') \<Rightarrow> (case rep of Reply n cp \<Rightarrow> n = 200 \<and> ck_DecidedBy cp = [] | _ \<Rightarrow> False)"
proof -
  let ?h = "snd (MonitorCreateCheckpoint 5 6 ''c'' (Inr demo_body) demo_gated)"
    and ?r = "\<lparr>rq_query = [], rq_param = (\<lambda>k. ''c''), rq_remote = []\<rparr>"
    and ?m = "fst (snd (CreateCheckpoint 5 6 ''c'' ''t'' ''acme'' ''vault'' [] demo_gate))"
  have m: "h_mon ?h = Some ?m"
    by (simp add: MonitorCreateCheckpoint_def demo_gated_def demo_body_def emit_def split_beta Let_def split: option.split)
  obtain cp where cp: "mget (mon_checkpoints ?m) ''c'' = Some cp" "ck_Status cp = StatusPending"
    using demo_gate_parts(3) by auto
  have reach: "server_reach toy_mac demo_raw Defaults ?h"
    by (rule server_next [OF demo_gated_reach server_step.create_checkpoint])
      (simp add: demo_gated_def demo_gate_parts)
  have get: "GetCheckpoint ''c'' ?m = Some cp" using cp(1) by (simp add: GetCheckpoint_def)
  have ctx: "guarded demo_jwt 200 (Some demo_auth) OperatorOrOpen (bearer ''tok'') = Invoke (claims_context demo_claims)"
    by code_simp
  have id: "''c'' = rq_param ?r ''checkpoint_id''" by simp
  from operator_never_recorded [OF toy_mac_ok reach m ctx id, where now = 7 and decision = "''approve''" and why = "''ok''"]
  show ?thesis unfolding Let_def get using cp(2) by (auto split: option.splits)
qed

lemma batch_reply_and_store_witness:
  "let (rep, h') = SubmitBatch toy_mac demo_raw (\<lambda>n. demo_ingest) (Inr [zero_event\<lparr>ev_Module := ''vault''\<rparr>]) demo_server
   in rep = Reply 202 \<lparr>br_Accepted = 1, br_Rejected = 0\<rparr> \<and> newest (pr_store (h_proc h')) = []"
proof -
  let ?evs = "[zero_event\<lparr>ev_Module := ''vault''\<rparr>]"
  obtain rep h' where run: "SubmitBatch toy_mac demo_raw (\<lambda>n. demo_ingest) (Inr ?evs) demo_server = (rep, h')" by fastforce
  have "accepted (batch_runs (\<lambda>n. demo_ingest) 0 ?evs) = []" by code_simp
  then show ?thesis
    using batch_reply_and_store [OF toy_mac_ok demo_server_reach _ run] demo_ingest_ok demo_server_parts(1) run by simp
qed

lemma recording_captures_accepted_witness:
  "let h2 = snd (StopRecording 9 (ingest_list toy_mac demo_raw (\<lambda>n. demo_ingest) 0
       [zero_event\<lparr>ev_Module := ''vault'', ev_EventType := ''read''\<rparr>, zero_event\<lparr>ev_Module := ''vault''\<rparr>]
       (snd (StartRecording 5 [] (Inr (''r'', [])) demo_server))))
   in map_option (length \<circ> sc_Events) (Engine_Get ''r'' (h_demo h2)) = Some 1"
proof -
  let ?evs = "[zero_event\<lparr>ev_Module := ''vault'', ev_EventType := ''read''\<rparr>, zero_event\<lparr>ev_Module := ''vault''\<rparr>]"
  let ?S = "StartRecording 5 [] (Inr (''r'', [])) demo_server"
  obtain st h1 where s: "?S = (Reply 200 st, h1)"
    by (simp add: StartRecording_def demo_server_parts rec_Start_def NewRecorder_def writeJSON_def Let_def)
  obtain rep h2 where t: "StopRecording 9 (ingest_list toy_mac demo_raw (\<lambda>n. demo_ingest) 0 ?evs h1) = (rep, h2)" by fastforce
  have l: "length (accepted (batch_runs (\<lambda>n. demo_ingest) 0 ?evs)) = 1" by code_simp
  from recording_captures_accepted [OF demo_server_parts(3,4) _ s t]
  have "map_option (map de_Event \<circ> sc_Events) (Engine_Get ''r'' (h_demo h2))
      = Some (map (Sign toy_mac (Signer_New (so_AuditSecret (cf_Storage Defaults)))) (accepted (batch_runs (\<lambda>n. demo_ingest) 0 ?evs)))"
    by simp
  then have "map_option (length \<circ> sc_Events) (Engine_Get ''r'' (h_demo h2)) = Some 1"
    using l by (cases "Engine_Get ''r'' (h_demo h2)") (simp, metis comp_apply length_map option.inject option.map(2))
  then show ?thesis using s t by simp
qed

end
