(* ===== verification/Cli.thy ===== *)
theory Cli
  imports Server
begin

text \<open>
  internal/cli/commands.go: what each command asks of the server and how it reads the answer. The
  command line and its flags are the arguments; \<open>clock t\<close> is a time in the format of the listing,
  and widths count bytes. A reply of the server reaches a command as its body only, since \<open>apiGet\<close> and
  \<open>apiPost\<close> ignore the status: \<open>read_reply\<close> is what decoding that body yields. The command
  tree and the bodies of the commands around these are theory Commands.
\<close>

datatype cli_request = CliGet string | CliPostEvent string BastionEvent | CliPostReplay string string rat

subsection \<open>Helpers\<close>

definition severityIcon :: "string \<Rightarrow> string" where
  "severityIcon sev =
     (if sev = ''critical'' then [CHR 0xF0, CHR 0x9F, CHR 0x9A, CHR 0xA8]
      else if sev = ''error'' then [CHR 0xE2, CHR 0x9D, CHR 0x8C]
      else if sev = ''warning'' then [CHR 0xE2, CHR 0x9A, CHR 0xA0, CHR 0xEF, CHR 0xB8, CHR 0x8F, CHR 0x20]
      else [CHR 0xE2, CHR 0x84, CHR 0xB9, CHR 0xEF, CHR 0xB8, CHR 0x8F, CHR 0x20])"

function padRight :: "string \<Rightarrow> nat \<Rightarrow> string" where
  "padRight s n = (if length s < n then padRight (s @ '' '') n else take n s)"
  by pat_completeness auto
termination padRight
  by (relation "measure (\<lambda>(s, n). n - length s)") auto

declare padRight.simps [simp del]

lemma padRight_eq: "padRight s n = take n (s @ replicate (n - length s) (CHR '' ''))"
proof (induction s n rule: padRight.induct)
  case (1 s n)
  show ?case
  proof (cases "length s < n")
    case True
    have "replicate (n - length s) (CHR '' '') = '' '' @ replicate (n - length (s @ '' '')) (CHR '' '')"
      using True by (cases "n - length s") (simp_all add: Suc_diff_Suc)
    then show ?thesis using 1 [OF True] True by (subst padRight.simps) simp
  qed (subst padRight.simps, simp)
qed

text \<open>The verbs \<open>%-ns\<close> and \<open>%nd\<close> fill up, but never cut.\<close>

definition fmt_left :: "nat \<Rightarrow> string \<Rightarrow> string" where
  "fmt_left n s = s @ replicate (n - length s) (CHR '' '')"

definition fmt_right :: "nat \<Rightarrow> string \<Rightarrow> string" where
  "fmt_right n s = replicate (n - length s) (CHR '' '') @ s"

subsection \<open>stream\<close>

definition stream_line :: "(gotime \<Rightarrow> string) \<Rightarrow> BastionEvent \<Rightarrow> string" where
  "stream_line clock ev =
     clock (ev_Timestamp ev) @ '' '' @ severityIcon (ev_Severity ev) @ '' ['' @ padRight (ev_Module ev) 10 @ ''] ''
       @ ev_EventType ev
       @ (if ev_DurationMs ev > 0 then '' ('' @ itoa (ev_DurationMs ev) @ ''ms)'' else [])
       @ (if ev_TenantID ev \<noteq> [] then '' tenant='' @ ev_TenantID ev else [])"

text \<open>The loop over the messages of the socket; \<open>None\<close> is one that is not JSON.\<close>

fun stream_lines ::
    "(ws_payload \<Rightarrow> BastionEvent option) \<Rightarrow> (gotime \<Rightarrow> string) \<Rightarrow> string \<Rightarrow> string \<Rightarrow> WSMessage option list \<Rightarrow> string list" where
  "stream_lines reread clock modl severity [] = []"
| "stream_lines reread clock modl severity (None # msgs) = stream_lines reread clock modl severity msgs"
| "stream_lines reread clock modl severity (Some wsMsg # msgs) =
     (if ws_Type wsMsg \<noteq> ''event'' then stream_lines reread clock modl severity msgs
      else case reread (ws_Payload wsMsg) of
        None \<Rightarrow> stream_lines reread clock modl severity msgs
      | Some ev \<Rightarrow>
          if modl \<noteq> [] \<and> ev_Module ev \<noteq> modl then stream_lines reread clock modl severity msgs
          else if severity \<noteq> [] \<and> ev_Severity ev \<noteq> severity then stream_lines reread clock modl severity msgs
          else stream_line clock ev # stream_lines reread clock modl severity msgs)"

subsection \<open>traces, trace, lineage\<close>

definition traces_request :: "int \<Rightarrow> cli_request" where
  "traces_request limit = CliGet (''/v1/traces?limit='' @ itoa limit)"

definition traces_output :: "(gotime \<Rightarrow> string) \<Rightarrow> TracesResponse \<Rightarrow> string list" where
  "traces_output clock r =
     [fmt_left 38 ''TRACE ID'' @ '' '' @ fmt_left 10 ''PIPELINE'' @ '' '' @ fmt_left 10 ''STATUS'' @ '' ''
        @ fmt_left 12 ''TOTAL (ms)'' @ '' TIME'',
      concat (replicate 80 [CHR 0xE2, CHR 0x94, CHR 0x80])]
     @ map (\<lambda>tr. fmt_left 38 (tr_TraceID tr) @ '' '' @ fmt_left 10 (tr_PipelineType tr) @ '' ''
          @ fmt_left 10 (tr_Status tr) @ '' '' @ fmt_left 12 (itoa (tr_TotalMs tr)) @ '' '' @ clock (tr_StartTime tr)) (trr_Traces r)
     @ [[], dec (trr_Total r) @ '' trace(s)'']"

text \<open>An error body has none of the fields of the expected object, which stays zero.\<close>

fun read_reply :: "'b \<Rightarrow> 'b reply \<Rightarrow> 'b" where
  "read_reply zero (Reply n b) = b"
| "read_reply zero (ErrorReply n msg) = zero"
| "read_reply zero NoContent = zero"

definition traces_cmd :: "(gotime \<Rightarrow> string) \<Rightarrow> string + TracesResponse reply \<Rightarrow> string + string list" where
  "traces_cmd clock resp =
     (case resp of
        Inl err \<Rightarrow> Inl err
      | Inr rep \<Rightarrow> Inr (traces_output clock (read_reply \<lparr>trr_Traces = [], trr_Total = 0\<rparr> rep)))"

definition trace_request :: "string \<Rightarrow> cli_request" where
  "trace_request tid = CliGet (''/v1/traces/'' @ tid)"

definition span_line :: "Span \<Rightarrow> string" where
  "span_line sp =
     (let icon = (if sp_Status sp = ''blocked'' \<or> sp_Status sp = ''error''
                  then [CHR 0xF0, CHR 0x9F, CHR 0x9A, CHR 0xAB] else [CHR 0xE2, CHR 0x9C, CHR 0x85])
      in ''  '' @ fmt_left 12 (sp_Module sp) @ ''  ['' @ fmt_right 4 (itoa (sp_DurationMs sp)) @ ''ms]  '' @ icon
         @ ''  '' @ sp_EventType sp)"

definition trace_output :: "Trace \<Rightarrow> string list" where
  "trace_output tr =
     (let rule = concat (replicate 43 [CHR 0xE2, CHR 0x95, CHR 0x90])
      in [rule, ''  Request Trace: '' @ tr_TraceID tr, rule, ''Total Time : '' @ itoa (tr_TotalMs tr) @ ''ms'',
          ''Pipeline   : '' @ tr_PipelineType tr, ''Status     : '' @ tr_Status tr, ''Tenant     : '' @ tr_TenantID tr, []]
         @ map span_line (tr_Spans tr))"

definition lineage_request :: "string \<Rightarrow> string \<Rightarrow> string \<Rightarrow> cli_request" where
  "lineage_request arg from_flag to_flag =
     CliGet (if length arg > 5 \<and> take 5 arg = ''user:'' then ''/v1/lineage/user/'' @ drop 5 arg
       else if arg = ''audit'' then
         (let path = ''/v1/lineage/audit''; sep = ''?'';
              (path1, sep1) = (if from_flag \<noteq> [] then (path @ sep @ ''from='' @ from_flag, ''&'') else (path, sep))
          in if to_flag \<noteq> [] then path1 @ sep1 @ ''to='' @ to_flag else path1)
       else ''/v1/lineage/'' @ arg)"

subsection \<open>security, demo, inject, generate\<close>

definition incidents_request :: cli_request where
  "incidents_request = CliGet ''/v1/security/incidents?status=open''"

definition alerts_request :: cli_request where
  "alerts_request = CliGet ''/v1/alerts?status=firing''"

definition demo_list_request :: cli_request where
  "demo_list_request = CliGet ''/v1/demo/scenarios''"

definition demo_replay_request :: "string \<Rightarrow> cli_request" where
  "demo_replay_request name = CliPostReplay ''/v1/demo/replay'' name 1"

definition inject_request :: "gotime \<Rightarrow> string \<Rightarrow> string \<Rightarrow> string \<Rightarrow> string \<Rightarrow> cli_request" where
  "inject_request now modl eventType tenantID pipeline =
     CliPostEvent ''/v1/demo/inject''
       (zero_event\<lparr>ev_Module := modl, ev_EventType := eventType, ev_Severity := ''info'', ev_Timestamp := now,
          ev_TenantID := tenantID, ev_PipelineType := pipeline, ev_Status := ''passed''\<rparr>)"

text \<open>
  \<open>generate\<close>: the period of the ticker, none when \<open>time.Second / time.Duration(rate)\<close> or
  \<open>NewTicker\<close> panics, and the event of the i-th tick.
\<close>

definition generate_period :: "int \<Rightarrow> duration option" where
  "generate_period rate =
     (if rate = 0 then None
      else let d = go_div Second rate in if d \<le> 0 then None else Some d)"

definition generate_event :: "gotime \<Rightarrow> nat \<Rightarrow> BastionEvent" where
  "generate_event now i =
     (let modules = [''sentinel'', ''vault'', ''navigator'', ''anchor''];
          events = [''request_received'', ''validation_passed'', ''search_completed'', ''embedding_secured''];
          pipelines = [''full'', ''lite'', ''minimal'']
      in zero_event\<lparr>ev_Module := modules ! (i mod length modules), ev_EventType := events ! (i mod length events),
           ev_Severity := ''info'', ev_Timestamp := now, ev_TenantID := ''demo-tenant'',
           ev_PipelineType := pipelines ! (i mod length pipelines), ev_Status := ''passed'',
           ev_DurationMs := int (10 + i mod 90)\<rparr>)"

definition generate_request :: "gotime \<Rightarrow> nat \<Rightarrow> cli_request" where
  "generate_request now i = CliPostEvent ''/v1/events'' (generate_event now i)"

subsection \<open>The commands\<close>

datatype command =
    Traces int
  | TraceDetail string
  | Lineage string string string
  | Incidents
  | FiringAlerts
  | DemoList
  | DemoReplay string
  | InjectEv string string string string
  | Generate nat

fun command_request :: "gotime \<Rightarrow> command \<Rightarrow> cli_request" where
  "command_request now (Traces limit) = traces_request limit"
| "command_request now (TraceDetail tid) = trace_request tid"
| "command_request now (Lineage arg from_flag to_flag) = lineage_request arg from_flag to_flag"
| "command_request now Incidents = incidents_request"
| "command_request now FiringAlerts = alerts_request"
| "command_request now DemoList = demo_list_request"
| "command_request now (DemoReplay name) = demo_replay_request name"
| "command_request now (InjectEv modl et tenant pipeline) = inject_request now modl et tenant pipeline"
| "command_request now (Generate i) = generate_request now i"

subsection \<open>Which route a request reaches\<close>

text \<open>
  Routing as chi documents it: a pattern and the path without its query agree segment by segment,
  a segment in braces standing for any non-empty one.
\<close>

fun segments :: "string \<Rightarrow> string list" where
  "segments [] = [[]]"
| "segments (c # s) =
     (if c = CHR ''/'' then [] # segments s
      else (case segments s of [] \<Rightarrow> [[c]] | x # xs \<Rightarrow> (c # x) # xs))"

definition route_matches :: "string \<Rightarrow> string \<Rightarrow> bool" where
  "route_matches pat path \<longleftrightarrow>
     list_all2 (\<lambda>p s. p = s \<or> (HasPrefix p ''{'' \<and> s \<noteq> [])) (segments pat) (segments (takeWhile (\<lambda>c. c \<noteq> CHR ''?'') path))"

fun request_method :: "cli_request \<Rightarrow> string" where
  "request_method (CliGet path) = ''GET''"
| "request_method (CliPostEvent path ev) = ''POST''"
| "request_method (CliPostReplay path name speed) = ''POST''"

fun request_path :: "cli_request \<Rightarrow> string" where
  "request_path (CliGet path) = path"
| "request_path (CliPostEvent path ev) = path"
| "request_path (CliPostReplay path name speed) = path"

text \<open>Arguments that are one segment of a path.\<close>

definition plain_arg :: "string \<Rightarrow> bool" where
  "plain_arg s \<longleftrightarrow> s \<noteq> [] \<and> CHR ''/'' \<notin> set s \<and> CHR ''?'' \<notin> set s"

fun plain_command :: "command \<Rightarrow> bool" where
  "plain_command (TraceDetail tid) = plain_arg tid"
| "plain_command (Lineage arg from_flag to_flag) = plain_arg arg"
| "plain_command cmd = True"

lemma segments_plain: "CHR ''/'' \<notin> set s \<Longrightarrow> segments s = [s]"
  by (induction s) auto

lemma plain_arg_parts:
  "plain_arg s \<Longrightarrow> segments s = [s]" "plain_arg s \<Longrightarrow> takeWhile (\<lambda>c. c \<noteq> CHR ''?'') s = s" "plain_arg s \<Longrightarrow> s \<noteq> []"
  by (auto simp: plain_arg_def segments_plain takeWhile_eq_all_conv)

lemma plain_arg_drop: "plain_arg s \<Longrightarrow> n < length s \<Longrightarrow> plain_arg (drop n s)"
  by (auto simp: plain_arg_def dest: in_set_dropD)

text \<open>The route of each command.\<close>

fun command_route :: "command \<Rightarrow> route" where
  "command_route (Traces limit) = GET ''/v1/traces'' AnyToken"
| "command_route (TraceDetail tid) = GET ''/v1/traces/{trace_id}'' AnyToken"
| "command_route (Lineage arg from_flag to_flag) =
     GET (if length arg > 5 \<and> take 5 arg = ''user:'' then ''/v1/lineage/user/{user_id}''
          else if arg = ''audit'' then ''/v1/lineage/audit'' else ''/v1/lineage/{trace_id}'') AnyToken"
| "command_route Incidents = GET ''/v1/security/incidents'' AnyToken"
| "command_route FiringAlerts = GET ''/v1/alerts'' AnyToken"
| "command_route DemoList = GET ''/v1/demo/scenarios'' AnyToken"
| "command_route (DemoReplay name) = POST ''/v1/demo/replay'' OperatorOrOpen"
| "command_route (InjectEv modl et tenant pipeline) = POST ''/v1/demo/inject'' OperatorOrOpen"
| "command_route (Generate i) = POST ''/v1/events'' OperatorOrOpen"

lemma command_route_protected: "command_route cmd \<in> set protected_routes"
  by (cases cmd) (simp_all add: protected_routes_def)

lemma lineage_matches:
  assumes "plain_arg arg"
  shows "route_matches (rt_path (command_route (Lineage arg from_flag to_flag))) (request_path (lineage_request arg from_flag to_flag))"
proof -
  note drop = plain_arg_parts [OF plain_arg_drop [OF assms]]
  consider "length arg > 5 \<and> take 5 arg = ''user:''" | "arg = ''audit''" | "\<not> (length arg > 5 \<and> take 5 arg = ''user:'')" "arg \<noteq> ''audit''"
    by blast
  then show ?thesis
    by cases (simp_all add: GET_def lineage_request_def route_matches_def plain_arg_parts [OF assms] drop Let_def
      del: takeWhile_eq_all_conv)
qed

lemma command_routed:
  assumes "plain_command cmd"
  shows "rt_method (command_route cmd) = request_method (command_request now cmd)
    \<and> route_matches (rt_path (command_route cmd)) (request_path (command_request now cmd))"
proof (cases cmd)
  case (Lineage arg from_flag to_flag)
  then show ?thesis using assms lineage_matches by (simp add: GET_def lineage_request_def)
qed (use assms in \<open>simp_all add: GET_def POST_def route_matches_def plain_arg_parts traces_request_def trace_request_def
    incidents_request_def alerts_request_def demo_list_request_def demo_replay_request_def inject_request_def generate_request_def\<close>)

subsection \<open>The stream\<close>

text \<open>\<open>stream\<close> prints what a gRPC stream with the same filter would send.\<close>

lemma stream_lines_grpc:
  "stream_lines reread clock modl severity msgs = map (stream_line clock)
     (fst (stream_loop reread (\<lambda>n. None) stop \<lparr>ser_Module = modl, ser_Severity = severity, ser_TenantID = []\<rparr> n
        (List.map_filter id msgs)))"
  by (induction reread clock modl severity msgs arbitrary: n rule: stream_lines.induct)
    (auto simp: map_filter_simps split_beta Let_def split: option.split)

subsection \<open>Generated traffic\<close>

text \<open>An event without labels and data, posted as JSON and decoded by the server: only its time can change.\<close>

definition posted :: "(string \<Rightarrow> string \<Rightarrow> gotime option) \<Rightarrow> BastionEvent \<Rightarrow> BastionEvent" where
  "posted parse ev = ev\<lparr>ev_Timestamp := UnmarshalTimestamp parse (json_number (MarshalTimestamp (ev_Timestamp ev))) 0\<rparr>"

text \<open>The first \<open>n\<close> ticks of \<open>generate\<close> against the server's \<open>SubmitEvent\<close>.\<close>

fun generate_run ::
    "(string \<Rightarrow> string \<Rightarrow> string) \<Rightarrow> (BastionEvent \<Rightarrow> string) \<Rightarrow> (nat \<Rightarrow> IngestEnv) \<Rightarrow> (string \<Rightarrow> string \<Rightarrow> gotime option)
       \<Rightarrow> (nat \<Rightarrow> gotime) \<Rightarrow> nat \<Rightarrow> handlers \<Rightarrow> handlers" where
  "generate_run mac marshal envs parse now 0 h = h"
| "generate_run mac marshal envs parse now (Suc n) h =
     snd (SubmitEvent mac marshal (envs n) (Inr (posted parse (generate_event (now n) n)))
       (generate_run mac marshal envs parse now n h))"

definition generated :: "(string \<Rightarrow> string \<Rightarrow> gotime option) \<Rightarrow> (nat \<Rightarrow> gotime) \<Rightarrow> nat \<Rightarrow> BastionEvent list" where
  "generated parse now n = map (\<lambda>i. posted parse (generate_event (now i) i)) [0..<n]"

lemma ingest_list_append:
  "ingest_list mac marshal envs k (xs @ ys) h = ingest_list mac marshal envs (k + length xs) ys (ingest_list mac marshal envs k xs h)"
  by (induction xs arbitrary: k h) simp_all

lemma generate_run_list:
  "generate_run mac marshal envs parse now n h = ingest_list mac marshal envs 0 (generated parse now n) h"
  by (induction n) (simp_all add: generated_def ingest_list_append SubmitEvent_def Let_def)

lemma batch_runs_append: "batch_runs envs k (xs @ ys) = batch_runs envs k xs @ batch_runs envs (k + length xs) ys"
  by (induction xs arbitrary: k) simp_all

lemma nth_literals:
  "[''sentinel'', ''vault'', ''navigator'', ''anchor''] ! (i mod 4) \<in> {''sentinel'', ''vault'', ''navigator'', ''anchor''}"
  "[''request_received'', ''validation_passed'', ''search_completed'', ''embedding_secured''] ! (i mod 4)
     \<in> {''request_received'', ''validation_passed'', ''search_completed'', ''embedding_secured''}"
  by (rule set_mp [OF _ nth_mem]; simp)+

lemma generate_valid: "Validate (enrich env (posted parse (generate_event now i))) = None"
proof -
  let ?ev = "generate_event now i"
  have "\<not> blank s" if "s \<in> {''sentinel'', ''vault'', ''navigator'', ''anchor''}" for s
  proof -
    have "\<not> blank ''sentinel''" "\<not> blank ''vault''" "\<not> blank ''navigator''" "\<not> blank ''anchor''" by code_simp+
    then show ?thesis using that by blast
  qed
  moreover have "\<not> blank s" if "s \<in> {''request_received'', ''validation_passed'', ''search_completed'', ''embedding_secured''}" for s
  proof -
    have "\<not> blank ''request_received''" "\<not> blank ''validation_passed''" "\<not> blank ''search_completed''"
      "\<not> blank ''embedding_secured''" by code_simp+
    then show ?thesis using that by blast
  qed
  ultimately have "\<not> blank (ev_Module ?ev)" "\<not> blank (ev_EventType ?ev)"
    using nth_literals [of i] by (simp_all add: generate_event_def Let_def)
  then show ?thesis
    by (simp add: Validate_None enrich_fields posted_def generate_event_def validSeverities_def validStatuses_def)
qed

lemma generated_accepted:
  "accepted (batch_runs envs 0 (generated parse now n))
     = map (\<lambda>i. enrich (ge_env (envs i)) (posted parse (generate_event (now i) i))) [0..<n]
   \<and> rejected (batch_runs envs 0 (generated parse now n)) = []"
  by (induction n) (simp_all add: generated_def batch_runs_append accepted_def rejected_def generate_valid)

lemma dec_0: "dec 0 = ''0''"
  by code_simp

subsection \<open>Properties\<close>

text \<open>
  The traffic of the command line is stored whole. Run against any reachable server, the first
  \<open>n\<close> ticks of \<open>generate\<close> leave all their events in the store, newest first, with defaults filled in
  and signed (as far as the store's bound allows), and no new dead letter.
\<close>

theorem generated_traffic_stored:
  assumes "mac_ok mac" and "server_reach mac marshal cfg h" and "\<forall>i. env_ok (ge_env (envs i))"
  shows "newest (pr_store (h_proc (generate_run mac marshal envs parse now n h))) =
      take (st_maxEvents (pr_store (h_proc h)))
        (rev (map (\<lambda>i. Sign mac (Signer_New (so_AuditSecret (cf_Storage cfg)))
            (enrich (ge_env (envs i)) (posted parse (generate_event (now i) i)))) [0..<n])
          @ newest (pr_store (h_proc h)))
    \<and> map dl_Reason (va_deadLetters (the (pr_validator (h_proc (generate_run mac marshal envs parse now n h)))))
      = map dl_Reason (va_deadLetters (the (pr_validator (h_proc h))))"
  using ingest_list_store [OF assms, of "generated parse now n"] generated_accepted [of envs parse now n]
  by (simp add: generate_run_list keep_last_short comp_def)

text \<open>
  The command line does not work with authentication on. It never sends a token, so every command
  that queries or changes the server (all but the event stream) is answered 401 at the route it
  addresses; because it ignores the status, \<open>traces\<close> then lists nothing and reports no error.
\<close>

theorem cli_locked_out:
  assumes "au_Enabled c" and "plain_command cmd"
  shows "\<exists>rt \<in> set protected_routes. rt_method rt = request_method (command_request now cmd)
    \<and> route_matches (rt_path rt) (request_path (command_request now cmd))
    \<and> snd (serve lib t (Some c) allowed [] (rt_method rt) [] rt) = Denied 401 ''missing Bearer token''
    \<and> map_sum id last (traces_cmd clock (Inr (ErrorReply 401 ''missing Bearer token''))) = Inr ''0 trace(s)''"
proof (intro bexI conjI)
  have "snd (serve lib t (Some c) allowed [] m [] rt) = Denied 401 ''missing Bearer token''" if "rt \<in> set protected_routes" for rt m
  proof -
    have "rt_guard rt \<noteq> Public" using that by (auto simp: protected_routes_def GET_def POST_def PATCH_def DELETE_def)
    then show ?thesis
      using assms(1) by (cases "rt_guard rt") (simp_all add: serve_def corsMiddleware_def jwt_group_def jwtMiddleware_def CutPrefix_def)
  qed
  then show "snd (serve lib t (Some c) allowed [] (rt_method (command_route cmd)) [] (command_route cmd)) = Denied 401 ''missing Bearer token''"
    using command_route_protected by blast
  show "map_sum id last (traces_cmd clock (Inr (ErrorReply 401 ''missing Bearer token''))) = Inr ''0 trace(s)''"
    using dec_0 by (simp add: traces_cmd_def traces_output_def)
qed (use command_routed [OF assms(2)] command_route_protected in simp_all)

subsection \<open>Witnesses\<close>

lemma generated_traffic_stored_witness:
  "map dl_Reason (va_deadLetters (the (pr_validator (h_proc
      (generate_run toy_mac demo_raw (\<lambda>i. demo_ingest) (\<lambda>l s. None) (\<lambda>i. unix_epoch) 3 demo_server)))))
    = map dl_Reason (va_deadLetters (the (pr_validator (h_proc demo_server))))"
  using generated_traffic_stored [OF toy_mac_ok demo_server_reach, of "\<lambda>i. demo_ingest" "\<lambda>l s. None" "\<lambda>i. unix_epoch" 3]
    demo_ingest_ok by blast

lemma cli_locked_out_witness:
  "\<exists>rt \<in> set protected_routes. rt_method rt = ''POST'' \<and> route_matches (rt_path rt) ''/v1/demo/replay''
    \<and> snd (serve demo_jwt 200 (Some demo_auth) [] [] (rt_method rt) [] rt) = Denied 401 ''missing Bearer token''"
  using cli_locked_out [of demo_auth "DemoReplay ''x''" 5 demo_jwt 200 "[]" "\<lambda>t. []"]
  by (auto simp: demo_auth_def demo_replay_request_def)

end
