(* ===== verification/Notify.thy ===== *)
theory Notify
  imports Config
begin

text \<open>
  internal/notify/notify.go, the notifiers that cmd/tracker-cli/main.go builds and the calls that
  \<open>dispatch\<close> of internal/alerts/manager.go makes. What leaves the program is logged as \<open>sent\<close>; the
  outcome of the n-th request or mail is \<open>fails n\<close> (the error of \<open>http.Post\<close> or
  \<open>smtp.SendMail\<close>, if any), and \<open>stamp n\<close> is the time then, formatted as RFC 3339. A JSON object is
  the list of its fields. \<open>strings.ToUpper\<close> is modelled on ASCII letters.
\<close>

record EmailNotifier =
  ne_SMTPHost :: string
  ne_SMTPPort :: int
  ne_From :: string
  ne_To :: "string list"
  ne_Username :: string
  ne_Password :: string

datatype notifier =
    Noop
  | SlackNotifier string
  | MailNotifier EmailNotifier
  | WebhookNotifier string
  | Multi "notifier list"

datatype sent =
    PostJSON string "(string \<times> string) list"
  | SendMail string "(string \<times> string) option" string "string list" string

definition upper_char :: "char \<Rightarrow> char" where
  "upper_char c = (let n = (of_char c :: nat) in if 97 \<le> n \<and> n \<le> 122 then char_of (n - 32) else c)"

definition ToUpper :: "string \<Rightarrow> string" where
  "ToUpper s = map upper_char s"

fun Join :: "string \<Rightarrow> string list \<Rightarrow> string" where
  "Join sep [] = []"
| "Join sep [x] = x"
| "Join sep (x # y # xs) = x @ sep @ Join sep (y # xs)"

definition slack_payload :: "string \<Rightarrow> string \<Rightarrow> string \<Rightarrow> (string \<times> string) list" where
  "slack_payload ruleName message severity =
     (let emoji = (if severity = ''critical'' then '':rotating_light:'' else '':warning:'')
      in [(''text'', emoji @ '' *['' @ ToUpper severity @ '']* '' @ ruleName @ '' '' @ em_dash @ '' '' @ message)])"

definition crlf :: string where "crlf = [CHR 0x0D, CHR 0x0A]"

definition email :: "string \<Rightarrow> EmailNotifier \<Rightarrow> string \<Rightarrow> string \<Rightarrow> string \<Rightarrow> sent" where
  "email now e ruleName message severity =
     (let addr = ne_SMTPHost e @ '':'' @ itoa (ne_SMTPPort e);
          subject = ''['' @ ToUpper severity @ ''] Bastion Alert: '' @ ruleName;
          body = ''Subject: '' @ subject @ crlf @ ''From: '' @ ne_From e @ crlf @ ''To: '' @ Join '', '' (ne_To e)
            @ crlf @ crlf @ message @ crlf @ crlf @ ''Time: '' @ now @ crlf;
          a = (if ne_Username e \<noteq> [] then Some (ne_Username e, ne_Password e) else None)
      in SendMail addr a (ne_From e) (ne_To e) body)"

definition webhook_payload :: "string \<Rightarrow> string \<Rightarrow> string \<Rightarrow> string \<Rightarrow> (string \<times> string) list" where
  "webhook_payload now ruleName message severity =
     [(''rule'', ruleName), (''message'', message), (''severity'', severity), (''time'', now)]"

text \<open>\<open>Notify\<close> of each notifier: the log afterwards and the error.\<close>

fun Notify ::
    "(nat \<Rightarrow> string option) \<Rightarrow> (nat \<Rightarrow> string) \<Rightarrow> notifier \<Rightarrow> string \<Rightarrow> string \<Rightarrow> string \<Rightarrow> sent list \<Rightarrow> sent list \<times> string option"
  and notify_all ::
    "(nat \<Rightarrow> string option) \<Rightarrow> (nat \<Rightarrow> string) \<Rightarrow> notifier list \<Rightarrow> string \<Rightarrow> string \<Rightarrow> string \<Rightarrow> string list \<Rightarrow> sent list
       \<Rightarrow> sent list \<times> string list" where
  "Notify fails stamp Noop ruleName message severity out = (out, None)"
| "Notify fails stamp (SlackNotifier url) ruleName message severity out =
     (out @ [PostJSON url (slack_payload ruleName message severity)],
      map_option (\<lambda>err. ''slack: '' @ err) (fails (length out)))"
| "Notify fails stamp (MailNotifier e) ruleName message severity out =
     (out @ [email (stamp (length out)) e ruleName message severity], fails (length out))"
| "Notify fails stamp (WebhookNotifier url) ruleName message severity out =
     (out @ [PostJSON url (webhook_payload (stamp (length out)) ruleName message severity)],
      map_option (\<lambda>err. ''webhook: '' @ err) (fails (length out)))"
| "Notify fails stamp (Multi ns) ruleName message severity out =
     (let (out', errs) = notify_all fails stamp ns ruleName message severity [] out
      in (out', if length errs > 0 then Some (''notify errors: '' @ Join ''; '' errs) else None))"
| "notify_all fails stamp [] ruleName message severity errs out = (out, errs)"
| "notify_all fails stamp (n # ns) ruleName message severity errs out =
     (let (out', res) = Notify fails stamp n ruleName message severity out
      in notify_all fails stamp ns ruleName message severity
           (case res of None \<Rightarrow> errs | Some err \<Rightarrow> errs @ [err]) out')"

text \<open>\<open>buildNotifiers\<close>: the notifiers by channel.\<close>

definition notifier_map :: "AlertingConfig \<Rightarrow> (string, notifier) gomap" where
  "notifier_map cfg =
     (let m0 = [];
          m1 = (if sk_WebhookURL (lc_Slack cfg) \<noteq> []
                then mput ''slack'' (SlackNotifier (sk_WebhookURL (lc_Slack cfg))) m0 else m0);
          em = lc_Email cfg;
          m2 = (if em_SMTPHost em \<noteq> [] \<and> em_From em \<noteq> [] \<and> length (em_To em) > 0
                then mput ''email'' (MailNotifier \<lparr>ne_SMTPHost = em_SMTPHost em, ne_SMTPPort = em_SMTPPort em,
                       ne_From = em_From em, ne_To = em_To em, ne_Username = em_Username em,
                       ne_Password = em_Password em\<rparr>) m1 else m1)
      in if wk_URL (lc_Webhook cfg) \<noteq> [] then mput ''webhook'' (WebhookNotifier (wk_URL (lc_Webhook cfg))) m2 else m2)"

text \<open>The loop of \<open>dispatch\<close>: unknown channels and errors are only logged.\<close>

fun dispatch_loop ::
    "(nat \<Rightarrow> string option) \<Rightarrow> (nat \<Rightarrow> string) \<Rightarrow> (string, notifier) gomap \<Rightarrow> Alert \<Rightarrow> string list \<Rightarrow> sent list \<Rightarrow> sent list" where
  "dispatch_loop fails stamp ns al [] out = out"
| "dispatch_loop fails stamp ns al (ch # chs) out =
     (case mget ns ch of
        None \<Rightarrow> dispatch_loop fails stamp ns al chs out
      | Some n \<Rightarrow>
          let (out', err) = Notify fails stamp n (al_RuleName al) (al_Message al) (al_Severity al) out
          in dispatch_loop fails stamp ns al chs out')"

definition dispatch_sends ::
    "(nat \<Rightarrow> string option) \<Rightarrow> (nat \<Rightarrow> string) \<Rightarrow> (string, notifier) gomap \<Rightarrow> AlertRule \<Rightarrow> Alert \<Rightarrow> sent list" where
  "dispatch_sends fails stamp ns rule al = dispatch_loop fails stamp ns al (ru_Channels rule) []"

subsection \<open>What is sent\<close>

text \<open>The message of a channel under the settings, at its position in the log.\<close>

definition channel_message :: "AlertingConfig \<Rightarrow> (nat \<Rightarrow> string) \<Rightarrow> nat \<Rightarrow> string \<times> string \<times> string \<times> string \<Rightarrow> sent" where
  "channel_message cfg stamp n = (\<lambda>(ch, rule, msg, sev).
     if ch = ''slack'' then PostJSON (sk_WebhookURL (lc_Slack cfg)) (slack_payload rule msg sev)
     else if ch = ''email'' then
       (let em = lc_Email cfg
        in email (stamp n) \<lparr>ne_SMTPHost = em_SMTPHost em, ne_SMTPPort = em_SMTPPort em, ne_From = em_From em,
             ne_To = em_To em, ne_Username = em_Username em, ne_Password = em_Password em\<rparr> rule msg sev)
     else PostJSON (wk_URL (lc_Webhook cfg)) (webhook_payload (stamp n) rule msg sev))"

lemma notifier_map_dom: "mget (notifier_map cfg) ch \<noteq> None \<longleftrightarrow> ch \<in> set (buildNotifiers cfg)"
  by (auto simp: notifier_map_def buildNotifiers_def Let_def)

lemma notifier_map_cases:
  assumes "mget (notifier_map cfg) ch = Some n"
  obtains "ch = ''slack''" "n = SlackNotifier (sk_WebhookURL (lc_Slack cfg))"
    | e where "ch = ''email''" "n = MailNotifier e" "e = \<lparr>ne_SMTPHost = em_SMTPHost (lc_Email cfg),
        ne_SMTPPort = em_SMTPPort (lc_Email cfg), ne_From = em_From (lc_Email cfg), ne_To = em_To (lc_Email cfg),
        ne_Username = em_Username (lc_Email cfg), ne_Password = em_Password (lc_Email cfg)\<rparr>"
    | "ch = ''webhook''" "n = WebhookNotifier (wk_URL (lc_Webhook cfg))"
  using assms by (auto simp: notifier_map_def Let_def split: if_splits)

lemma notifier_map_single:
  assumes "mget (notifier_map cfg) ch = Some n"
  shows "\<exists>err. Notify fails stamp n rule msg sev out = (out @ [channel_message cfg stamp (length out) (ch, rule, msg, sev)], err)"
  by (rule notifier_map_cases [OF assms]) (simp_all add: channel_message_def Let_def)

lemma dispatch_loop_sends:
  "dispatch_loop fails stamp (notifier_map cfg) al chs out = out @
     map (\<lambda>(n, call). channel_message cfg stamp n call)
       (enumerate (length out) (map (\<lambda>ch. (ch, al_RuleName al, al_Message al, al_Severity al))
          (filter (\<lambda>ch. ch \<in> set (buildNotifiers cfg)) chs)))"
proof (induction chs arbitrary: out)
  case (Cons ch chs)
  show ?case
  proof (cases "mget (notifier_map cfg) ch")
    case None
    then show ?thesis using Cons notifier_map_dom [of cfg ch] by simp
  next
    case (Some n)
    obtain err where "Notify fails stamp n (al_RuleName al) (al_Message al) (al_Severity al) out =
        (out @ [channel_message cfg stamp (length out) (ch, al_RuleName al, al_Message al, al_Severity al)], err)"
      using notifier_map_single [OF Some] by blast
    then show ?thesis using Cons Some notifier_map_dom [of cfg ch] by simp
  qed
qed simp

text \<open>\<open>Multi\<close> calls every notifier, whatever the others return.\<close>

lemma notify_all_calls:
  "fst (notify_all fails stamp ns rule msg sev errs out) =
     fold (\<lambda>n out. fst (Notify fails stamp n rule msg sev out)) ns out"
  by (induction ns arbitrary: errs out) (simp_all add: split_beta Let_def)

subsection \<open>Properties\<close>

text \<open>
  C31: one broken channel does not keep the others from being notified. Dispatching an alert sends, for
  every channel of the rule that is configured, in the rule's order, exactly one message with the
  alert's rule, text and severity, whatever the outcome of each request: the calls are those of
  \<open>alert_dispatch\<close> with the configured channels.
\<close>

theorem dispatch_reaches_every_channel:
  "dispatch_sends fails stamp (notifier_map cfg) rule al =
     map (\<lambda>(n, call). channel_message cfg stamp n call)
       (enumerate 0 (alert_dispatch (set (buildNotifiers cfg)) rule al))"
  unfolding dispatch_sends_def alert_dispatch_def dispatch_loop_sends by simp

end
