(* ===== verification/Incidents_Race.thy ===== *)
theory Incidents_Race
  imports Incidents
begin

text \<open>
  \<open>AutoCreate\<close> of internal/incidents/manager.go under concurrent calls. The HTTP server runs
  every request in a goroutine of its own, \<open>Process\<close> takes no lock around the manager, and
  \<open>m.seq++\<close> and the later read of \<open>m.seq\<close> are not synchronised. Here a call is cut
  into its accesses of shared memory: the switch and the guard (no access), load and store of the
  counter, the read that formats the identifier, the store's \<open>AddIncident\<close> (atomic under the
  mutex of the store) and the counter of created incidents (atomic in the Prometheus library). A schedule is the
  list of the calls that move, in order. Alerts and honey-tokens are numbered the same way.
\<close>

datatype create_pc =
    AtSwitch
  | AtLoad
  | AtStore nat
  | AtFormat
  | AtAdd Incident
  | AtCount Incident
  | Returned "Incident option"

record create_call =
  cc_event :: BastionEvent
  cc_now :: gotime
  cc_now2 :: gotime
  cc_pc :: create_pc

type_synonym race_shared = "IncidentMgr \<times> Store \<times> Metrics"

definition opens_guard :: "BastionEvent \<Rightarrow> bool" where
  "opens_guard ev \<longleftrightarrow>
     (case incident_text ev of
        None \<Rightarrow> False
      | Some _ \<Rightarrow> \<not> ((ev_Severity ev \<noteq> ''critical'' \<and> ev_Severity ev \<noteq> ''error'')
                    \<and> \<not> HasPrefix (ev_EventType ev) ''honey_token_''))"

definition new_incident :: "string \<Rightarrow> create_call \<Rightarrow> Incident" where
  "new_incident ident c =
     (let ev = cc_event c; (title, desc) = (case incident_text ev of None \<Rightarrow> ([], []) | Some p \<Rightarrow> p)
      in \<lparr>inc_IncidentID = ident, inc_Title = title, inc_Severity = ev_Severity ev, inc_Status = IncidentOpen,
          inc_CreatedAt = cc_now c, inc_UpdatedAt = cc_now2 c, inc_ResolvedAt = None, inc_TenantID = ev_TenantID ev,
          inc_Description = desc, inc_EventIDs = [ev_EventID ev], inc_Notes = []\<rparr>)"

fun create_step :: "create_call \<Rightarrow> race_shared \<Rightarrow> create_call \<times> race_shared" where
  "create_step c (m, s, mx) =
     (case cc_pc c of
        AtSwitch \<Rightarrow> (c\<lparr>cc_pc := if opens_guard (cc_event c) then AtLoad else Returned None\<rparr>, m, s, mx)
      | AtLoad \<Rightarrow> (c\<lparr>cc_pc := AtStore (im_seq m)\<rparr>, m, s, mx)
      | AtStore v \<Rightarrow> (c\<lparr>cc_pc := AtFormat\<rparr>, m\<lparr>im_seq := v + 1\<rparr>, s, mx)
      | AtFormat \<Rightarrow> (c\<lparr>cc_pc := AtAdd (new_incident (''INC-'' @ pad04 (im_seq m)) c)\<rparr>, m, s, mx)
      | AtAdd inc \<Rightarrow> (c\<lparr>cc_pc := AtCount inc\<rparr>, m, AddIncident inc s, mx)
      | AtCount inc \<Rightarrow> (c\<lparr>cc_pc := Returned (Some inc)\<rparr>, m, s,
          mx\<lparr>mx_IncidentsCreated := vec_inc [inc_Severity inc] (mx_IncidentsCreated mx)\<rparr>)
      | Returned r \<Rightarrow> (c, m, s, mx))"

fun race_run :: "nat list \<Rightarrow> create_call list \<times> race_shared \<Rightarrow> create_call list \<times> race_shared" where
  "race_run [] st = st"
| "race_run (i # is) (cs, sh) =
     (if i < length cs then
        (let (c', sh') = create_step (cs ! i) sh in race_run is (cs[i := c'], sh'))
      else race_run is (cs, sh))"

definition start_call :: "gotime \<Rightarrow> gotime \<Rightarrow> BastionEvent \<Rightarrow> create_call" where
  "start_call now now2 ev = \<lparr>cc_event = ev, cc_now = now, cc_now2 = now2, cc_pc = AtSwitch\<rparr>"

lemma opens_guard_iff: "opens_guard ev \<longleftrightarrow> opens_incident ev"
  unfolding opens_guard_def opens_incident_def incident_text_def by auto

text \<open>One call that is not interrupted does what \<open>AutoCreate\<close> does.\<close>

lemma create_alone:
  "race_run [0, 0, 0, 0, 0, 0] ([start_call now now2 ev], m, s, mx) =
    (case AutoCreate now now2 ev (m, s, mx) of
       (r, sh') \<Rightarrow> ([(start_call now now2 ev)\<lparr>cc_pc := Returned r\<rparr>], sh'))"
  unfolding AutoCreate_def
  by (cases "incident_text ev") (auto simp: start_call_def new_incident_def opens_guard_def Let_def)

text \<open>The incident that a call makes under a given number.\<close>

definition incident_of :: "gotime \<Rightarrow> gotime \<Rightarrow> BastionEvent \<Rightarrow> nat \<Rightarrow> Incident" where
  "incident_of now now2 ev n = new_incident (inc_ident n) (start_call now now2 ev)"

lemma new_incident_pc [simp]: "new_incident ident (c\<lparr>cc_pc := pc\<rparr>) = new_incident ident c"
  by (simp add: new_incident_def)

lemma incident_of_simps [simp]:
  "new_incident (inc_ident n) (start_call t u ev) = incident_of t u ev n"
  "inc_IncidentID (incident_of t u ev n) = inc_ident n" "inc_EventIDs (incident_of t u ev n) = [ev_EventID ev]"
  by (simp_all add: incident_of_def new_incident_def start_call_def Let_def split_beta)

subsection \<open>Properties\<close>

text \<open>
  C29: two concurrent calls can lose an incident. For any two events that open incidents there is a
  schedule of the two calls, each running to its end, in which both return the same identifier: the
  second incident replaces the first in the store and one number is never given out. Run one after
  the other, each call stores its own incident under a number of its own.
\<close>

theorem concurrent_incidents_collide:
  assumes "opens_incident ev1" and "opens_incident ev2"
  shows "let cs = [start_call t1 u1 ev1, start_call t2 u2 ev2]; n = im_seq m in
    (case race_run [0, 0, 0, 1, 1, 1, 0, 1, 0, 0, 1, 1] (cs, m, s, mx) of (cs', m', s', mx') \<Rightarrow>
       map cc_pc cs' = [Returned (Some (incident_of t1 u1 ev1 (n + 2))), Returned (Some (incident_of t2 u2 ev2 (n + 2)))]
       \<and> im_seq m' = n + 2
       \<and> GetIncident s' (inc_ident (n + 2)) = Some (incident_of t2 u2 ev2 (n + 2))
       \<and> GetIncident s' (inc_ident (n + 1)) = GetIncident s (inc_ident (n + 1)))
    \<and> (case race_run [0, 0, 0, 0, 0, 0, 1, 1, 1, 1, 1, 1] (cs, m, s, mx) of (cs', m', s', mx') \<Rightarrow>
       im_seq m' = n + 2
       \<and> GetIncident s' (inc_ident (n + 1)) = Some (incident_of t1 u1 ev1 (n + 1))
       \<and> GetIncident s' (inc_ident (n + 2)) = Some (incident_of t2 u2 ev2 (n + 2)))"
proof -
  have pc: "cc_pc (start_call t u ev) = AtSwitch" "cc_event (start_call t u ev) = ev" for t u ev
    by (simp_all add: start_call_def)
  have ids: "inc_ident (n + 1) \<noteq> inc_ident (n + 2)" for n by (simp add: inc_ident_def)
  have ident: "CHR ''I'' # CHR ''N'' # CHR ''C'' # CHR ''-'' # pad04 n = inc_ident n" for n
    by (simp add: inc_ident_def)
  show ?thesis
    using ids [of "im_seq m"] assms
    by (simp add: pc ident opens_guard_iff AddIncident_def GetIncident_def Let_def)
qed

lemma concurrent_incidents_collide_witness:
  "let ev = zero_event\<lparr>ev_EventID := ''a'', ev_EventType := ''cross_tenant_attempt'', ev_Severity := ''critical''\<rparr>;
       ev' = ev\<lparr>ev_EventID := ''b''\<rparr>
   in case race_run [0, 0, 0, 1, 1, 1, 0, 1, 0, 0, 1, 1]
        ([start_call 1 2 ev, start_call 3 4 ev'], \<lparr>im_seq = 0\<rparr>, Store_New 5, zero_metrics)
      of (cs, m, s, mx) \<Rightarrow> GetIncident s (inc_ident 2) = Some (incident_of 3 4 ev' 2)"
proof -
  let ?ev = "zero_event\<lparr>ev_EventID := ''a'', ev_EventType := ''cross_tenant_attempt'', ev_Severity := ''critical''\<rparr>"
  have o: "opens_incident ?ev" "opens_incident (?ev\<lparr>ev_EventID := ''b''\<rparr>)" by (simp_all add: opens_incident_def)
  from concurrent_incidents_collide [OF o, of 1 2 3 4 "\<lparr>im_seq = 0\<rparr>" "Store_New 5" zero_metrics]
  show ?thesis by (auto simp: Let_def numeral_2_eq_2 simp del: race_run.simps split: prod.splits)
qed

end
