(* ===== verification/Hub_Pumps.thy ===== *)
theory Hub_Pumps
  imports Hub
begin











subsection \<open>All interleavings\<close>

























subsection \<open>Properties\<close>


subsection \<open>Witness\<close>







end
