(* ===== verification/Process_Race.thy ===== *)
theory Process_Race
  imports Processor
begin

text \<open>
  \<open>Process\<close> of internal/processor/processor.go under concurrent calls. Every REST, gRPC and NATS
  request and every event the tracker makes itself runs it in a goroutine of its own, and it
  takes no lock of its own: between two calls of a subsystem any other call may run. Here a call is cut at
  its calls of the subsystems; each of these is one step, as their mutexes make it (how the numbering in the
  incident manager races inside its step is theory Incidents_Race). A schedule is the list of
  the calls that move, in order.
\<close>

datatype process_pc =
    AtEnter
  | AtReject invalid_event
  | AtReceived
  | AtAddEvent
  | AtUpsertTrace
  | AtChunkLineage
  | AtPipelineStats
  | AtBypass
  | AtHoney
  | AtIncident
  | AtRules "AlertRule list" "Alert list"
  | AtBroadcast "Alert list"
  | AtHooks
  | AtProcessed
  | AtDuration
  | Finished

record process_call =
  pl_env :: Env
  pl_arg :: BastionEvent
  pl_ev :: BastionEvent
  pl_pc :: process_pc

definition call_at :: "process_pc \<Rightarrow> process_call \<Rightarrow> process_call" where
  "call_at pc c = c\<lparr>pl_pc := pc\<rparr>"

definition start_process :: "Env \<times> BastionEvent \<Rightarrow> process_call" where
  "start_process x = \<lparr>pl_env = fst x, pl_arg = snd x, pl_ev = snd x, pl_pc = AtEnter\<rparr>"

definition ws_alert :: "Alert \<Rightarrow> WSMessage" where
  "ws_alert al = \<lparr>ws_Type = ''alert'', ws_Payload = PAlert al\<rparr>"

text \<open>One step of a call, on the processor and on what has left it.\<close>

fun process_step ::
    "(string \<Rightarrow> string \<Rightarrow> string) \<Rightarrow> (BastionEvent \<Rightarrow> string) \<Rightarrow> process_call \<Rightarrow> Processor \<times> Effects
       \<Rightarrow> process_call \<times> Processor \<times> Effects" where
  "process_step mac marshal c (p, fx) =
     (let env = pl_env c; ev = pl_ev c; mx = pr_metrics p
      in case pl_pc c of
        AtEnter \<Rightarrow>
          (let ev1 = enrich env ev
           in case rejection p ev1 of
                Some err \<Rightarrow> (call_at (AtReject err) (c\<lparr>pl_ev := ev1\<rparr>), p, fx)
              | None \<Rightarrow> (call_at AtReceived (c\<lparr>pl_ev := ev1\<rparr>), p, fx))
      | AtReject err \<Rightarrow> (call_at Finished c, reject_step marshal env ev err p, fx)
      | AtReceived \<Rightarrow>
          (call_at AtAddEvent (c\<lparr>pl_ev := sign_stage mac p ev\<rparr>),
           p\<lparr>pr_metrics := mx\<lparr>mx_EventsReceived := vec_inc [ev_Module ev, ev_EventType ev] (mx_EventsReceived mx)\<rparr>\<rparr>, fx)
      | AtAddEvent \<Rightarrow> (call_at AtUpsertTrace c, p\<lparr>pr_store := AddEvent ev (pr_store p)\<rparr>, fx)
      | AtUpsertTrace \<Rightarrow>
          (call_at (if ev_EventType ev = ''chunk_retrieved'' \<and> ev_TraceID ev \<noteq> [] then AtChunkLineage else AtPipelineStats) c,
           p\<lparr>pr_store := UpsertTrace ev (pr_store p)\<rparr>, fx)
      | AtChunkLineage \<Rightarrow>
          (call_at AtPipelineStats c, p\<lparr>pr_store := AddChunkLineage (ev_TraceID ev) (chunk_entry ev) (pr_store p)\<rparr>, fx)
      | AtPipelineStats \<Rightarrow>
          (call_at AtBypass c,
           (if ev_PipelineType ev \<noteq> []
            then p\<lparr>pr_metrics := mx\<lparr>mx_PipelineRequests := vec_inc [ev_PipelineType ev, ev_Status ev] (mx_PipelineRequests mx)\<rparr>\<rparr>
            else p), fx)
      | AtBypass \<Rightarrow>
          (let (bp', spawn) = bypass_stage env ev (pr_bypass p)
           in (call_at AtHoney c, p\<lparr>pr_bypass := bp'\<rparr>, fx\<lparr>fx_spawn := fx_spawn fx @ spawn\<rparr>))
      | AtHoney \<Rightarrow>
          (let (tokenID, s', mx') = CheckEvent (env_clk env 3) ev (pr_store p, mx)
           in (call_at AtIncident c, p\<lparr>pr_store := s', pr_metrics := mx'\<rparr>,
               fx\<lparr>fx_pub := fx_pub fx @ honey_publication env (pr_pub p) ev tokenID\<rparr>))
      | AtIncident \<Rightarrow>
          (let (inc, im', s', mx') = AutoCreate (env_clk env 5) (env_clk env 6) ev (pr_incidents p, pr_store p, mx)
           in (call_at (AtRules (am_rules (pr_alerts p)) []) c, p\<lparr>pr_store := s', pr_metrics := mx', pr_incidents := im'\<rparr>,
               fx\<lparr>fx_ws := fx_ws fx @ (case inc of None \<Rightarrow> [] | Some i \<Rightarrow> [\<lparr>ws_Type = ''incident'', ws_Payload = PIncident i\<rparr>]),
                  fx_pub := fx_pub fx @ (case inc of None \<Rightarrow> [] | Some i \<Rightarrow> incident_publication env (pr_pub p) ev i)\<rparr>))
      | AtRules (r # rs) fired \<Rightarrow>
          (let (am', s', mx', fired', jobs) = eval_rule (env_alert env) ev r (pr_alerts p, pr_store p, mx, fired, [])
           in (call_at (AtRules rs fired') c, p\<lparr>pr_store := s', pr_metrics := mx', pr_alerts := am'\<rparr>,
               fx\<lparr>fx_jobs := fx_jobs fx @ jobs\<rparr>))
      | AtRules [] fired \<Rightarrow> (call_at (AtBroadcast fired) c, p, fx)
      | AtBroadcast (al # als) \<Rightarrow> (call_at (AtBroadcast als) c, p, fx\<lparr>fx_ws := fx_ws fx @ [ws_alert al]\<rparr>)
      | AtBroadcast [] \<Rightarrow>
          (call_at AtHooks c, p, fx\<lparr>fx_ws := fx_ws fx @ [\<lparr>ws_Type = ''event'', ws_Payload = PEvent ev\<rparr>]\<rparr>)
      | AtHooks \<Rightarrow> (call_at AtProcessed c, p, fx\<lparr>fx_hooks := fx_hooks fx @ [ev]\<rparr>)
      | AtProcessed \<Rightarrow>
          (call_at AtDuration c, p\<lparr>pr_metrics := mx\<lparr>mx_EventsProcessed := vec_inc [ev_Module ev] (mx_EventsProcessed mx)\<rparr>\<rparr>, fx)
      | AtDuration \<Rightarrow>
          (call_at Finished c, p\<lparr>pr_metrics :=
             mx\<lparr>mx_ProcessingDuration := vec_observe [ev_Module ev] (env_took env) (mx_ProcessingDuration mx)\<rparr>\<rparr>, fx)
      | Finished \<Rightarrow> (c, p, fx))"

type_synonym race_state = "process_call list \<times> Processor \<times> Effects"

fun process_run ::
    "(string \<Rightarrow> string \<Rightarrow> string) \<Rightarrow> (BastionEvent \<Rightarrow> string) \<Rightarrow> nat list \<Rightarrow> race_state \<Rightarrow> race_state" where
  "process_run mac marshal [] st = st"
| "process_run mac marshal (i # is) (cs, sh) =
     (if i < length cs then
        (let (c', sh') = process_step mac marshal (cs ! i) sh in process_run mac marshal is (cs[i := c'], sh'))
      else process_run mac marshal is (cs, sh))"

lemma call_at_simps [simp]:
  "pl_pc (call_at pc c) = pc" "pl_env (call_at pc c) = pl_env c" "pl_arg (call_at pc c) = pl_arg c"
  "pl_ev (call_at pc c) = pl_ev c"
  by (simp_all add: call_at_def)

declare process_step.simps [simp del]

subsection \<open>One call alone\<close>

text \<open>A call that is not interrupted does what \<open>Process\<close> does.\<close>

fun finish :: "(string \<Rightarrow> string \<Rightarrow> string) \<Rightarrow> (BastionEvent \<Rightarrow> string) \<Rightarrow> nat \<Rightarrow> process_call \<times> Processor \<times> Effects
    \<Rightarrow> process_call \<times> Processor \<times> Effects" where
  "finish mac marshal 0 st = st"
| "finish mac marshal (Suc n) (c, sh) = finish mac marshal n (process_step mac marshal c sh)"

lemma run_alone: "process_run mac marshal (replicate n 0) ([c], sh) =
    (case finish mac marshal n (c, sh) of (c', sh') \<Rightarrow> ([c'], sh'))"
proof (induction n arbitrary: c sh)
  case (Suc n)
  show ?case using Suc.IH by (cases "process_step mac marshal c sh") simp
qed simp

lemma finish_add: "finish mac marshal (m + n) st = finish mac marshal n (finish mac marshal m st)"
proof (induction m arbitrary: st)
  case (Suc m)
  then show ?case by (cases st) simp
qed simp

lemma finish_idle: "pl_pc c = Finished \<Longrightarrow> finish mac marshal n (c, p, fx) = (c, p, fx)"
  by (induction n) (simp_all add: process_step.simps)

lemma eval_rule_jobs:
  "eval_rule clk ev r (m, s, mx, fired, jobs) =
     (case eval_rule clk ev r (m, s, mx, fired, []) of (m', s', mx', fired', js) \<Rightarrow> (m', s', mx', fired', jobs @ js))"
  by (simp add: eval_rule_def Let_def)

lemma finish_rules:
  "pl_pc c = AtRules rs fired \<Longrightarrow>
   finish mac marshal (length rs) (c, p, fx) =
     (case fold (eval_rule (env_alert (pl_env c)) (pl_ev c)) rs (pr_alerts p, pr_store p, pr_metrics p, fired, fx_jobs fx) of
        (am', s', mx', fired', jobs) \<Rightarrow>
          (call_at (AtRules [] fired') c, p\<lparr>pr_store := s', pr_metrics := mx', pr_alerts := am'\<rparr>, fx\<lparr>fx_jobs := jobs\<rparr>))"
proof (induction rs arbitrary: c p fx fired)
  case Nil
  then show ?case by (simp add: call_at_def)
next
  case (Cons r rs)
  obtain am' s' mx' fired' js where
    ev: "eval_rule (env_alert (pl_env c)) (pl_ev c) r (pr_alerts p, pr_store p, pr_metrics p, fired, []) = (am', s', mx', fired', js)"
    by (metis prod_cases5)
  have "process_step mac marshal c (p, fx) =
      (call_at (AtRules rs fired') c, p\<lparr>pr_store := s', pr_metrics := mx', pr_alerts := am'\<rparr>, fx\<lparr>fx_jobs := fx_jobs fx @ js\<rparr>)"
    using Cons.prems ev by (simp add: process_step.simps)
  then show ?case
    using Cons.IH [of "call_at (AtRules rs fired') c" fired' "p\<lparr>pr_store := s', pr_metrics := mx', pr_alerts := am'\<rparr>"
        "fx\<lparr>fx_jobs := fx_jobs fx @ js\<rparr>"]
    by (simp add: eval_rule_jobs [of _ _ r _ _ _ _ "fx_jobs fx"] ev call_at_def split: prod.split)
qed

lemma finish_broadcast:
  "pl_pc c = AtBroadcast als \<Longrightarrow>
   finish mac marshal (length als) (c, p, fx) = (call_at (AtBroadcast []) c, p, fx\<lparr>fx_ws := fx_ws fx @ map ws_alert als\<rparr>)"
proof (induction als arbitrary: c fx)
  case Nil
  then show ?case by (simp add: call_at_def)
next
  case (Cons al als)
  then show ?case
    using Cons.IH [of "call_at (AtBroadcast als) c" "fx\<lparr>fx_ws := fx_ws fx @ [ws_alert al]\<rparr>"]
    by (simp add: process_step.simps call_at_def)
qed

text \<open>What a call adds to what has left the processor.\<close>

definition fx_append :: "Effects \<Rightarrow> Effects \<Rightarrow> Effects" where
  "fx_append fx g = \<lparr>fx_ws = fx_ws fx @ fx_ws g, fx_pub = fx_pub fx @ fx_pub g, fx_spawn = fx_spawn fx @ fx_spawn g,
     fx_jobs = fx_jobs fx @ fx_jobs g, fx_hooks = fx_hooks fx @ fx_hooks g\<rparr>"

lemma finish_trace:
  assumes "pl_pc c = AtUpsertTrace" and "pl_ev c = e" and "pr_store p = AddEvent e s" and "p' = p\<lparr>pr_store := store_stage e s\<rparr>"
  shows "\<exists>n. finish mac marshal n (c, p, fx) = (call_at AtPipelineStats c, p', fx)"
proof (cases "ev_EventType e = ''chunk_retrieved'' \<and> ev_TraceID e \<noteq> []")
  case True
  then show ?thesis using assms
    by (intro exI [of _ 2]) (simp add: numeral_2_eq_2 process_step.simps call_at_def store_stage_def Let_def)
next
  case False
  then show ?thesis using assms
    by (intro exI [of _ 1]) (auto simp: process_step.simps call_at_def store_stage_def Let_def)
qed

lemma finish_tail:
  assumes "pl_pc c = AtRules rs []"
    and al: "fold (eval_rule (env_alert (pl_env c)) (pl_ev c)) rs (pr_alerts p, pr_store p, pr_metrics p, [], [])
      = (am', s', mx', fired, jobs)"
  shows "\<exists>n. finish mac marshal n (c, p, fx) =
     (call_at Finished c,
      p\<lparr>pr_store := s', pr_metrics := mx'\<lparr>mx_EventsProcessed := vec_inc [ev_Module (pl_ev c)] (mx_EventsProcessed mx'),
          mx_ProcessingDuration := vec_observe [ev_Module (pl_ev c)] (env_took (pl_env c)) (mx_ProcessingDuration mx')\<rparr>,
        pr_alerts := am'\<rparr>,
      fx\<lparr>fx_ws := fx_ws fx @ map ws_alert fired @ [\<lparr>ws_Type = ''event'', ws_Payload = PEvent (pl_ev c)\<rparr>],
         fx_jobs := fx_jobs fx @ jobs, fx_hooks := fx_hooks fx @ [pl_ev c]\<rparr>)"
proof -
  have jobs: "fold (eval_rule clk ev) rs (m, s, mx, fd, js) =
      (case fold (eval_rule clk ev) rs (m, s, mx, fd, []) of (m', s', mx', fd', js') \<Rightarrow> (m', s', mx', fd', js @ js'))"
    for clk ev m s mx fd js
  proof (induction rs arbitrary: m s mx fd js)
    case (Cons r rs)
    obtain m1 s1 mx1 fd1 js1 where "eval_rule clk ev r (m, s, mx, fd, []) = (m1, s1, mx1, fd1, js1)" by (metis prod_cases5)
    then show ?case
      using Cons.IH [of m1 s1 mx1 fd1 "js @ js1"] Cons.IH [of m1 s1 mx1 fd1 js1]
      by (simp add: eval_rule_jobs [of _ _ r _ _ _ _ js] split: prod.split)
  qed simp
  let ?p = "p\<lparr>pr_store := s', pr_metrics := mx', pr_alerts := am'\<rparr>" and ?fx = "fx\<lparr>fx_jobs := fx_jobs fx @ jobs\<rparr>"
  have "finish mac marshal (length rs) (c, p, fx) = (call_at (AtRules [] fired) c, ?p, ?fx)"
    using finish_rules [OF assms(1), of mac marshal p fx] al by (simp add: jobs [of _ _ _ _ _ _ "fx_jobs fx"])
  moreover have "finish mac marshal (Suc 0) (call_at (AtRules [] fired) c, ?p, ?fx) = (call_at (AtBroadcast fired) c, ?p, ?fx)"
    by (simp add: process_step.simps call_at_def)
  moreover have "finish mac marshal (length fired) (call_at (AtBroadcast fired) c, ?p, ?fx) =
      (call_at (AtBroadcast []) c, ?p, ?fx\<lparr>fx_ws := fx_ws fx @ map ws_alert fired\<rparr>)"
    by (subst finish_broadcast [of _ fired]) (simp_all add: call_at_def)
  ultimately have "finish mac marshal (length rs + Suc 0 + length fired) (c, p, fx) =
      (call_at (AtBroadcast []) c, ?p, ?fx\<lparr>fx_ws := fx_ws fx @ map ws_alert fired\<rparr>)"
    unfolding finish_add by simp
  then have "finish mac marshal (length rs + Suc 0 + length fired + 4) (c, p, fx) =
      finish mac marshal 4 (call_at (AtBroadcast []) c, ?p, ?fx\<lparr>fx_ws := fx_ws fx @ map ws_alert fired\<rparr>)"
    unfolding finish_add [of _ _ "length rs + Suc 0 + length fired" 4] by simp
  then show ?thesis
    by (intro exI [of _ "length rs + Suc 0 + length fired + 4"])
      (simp add: eval_nat_numeral process_step.simps call_at_def del: add_Suc_right)
qed

lemma finish_head:
  assumes "rejection p (enrich env ev) = None" and e: "e = sign_stage mac p (enrich env ev)"
    and mx1: "mx1 = (pr_metrics p)\<lparr>mx_EventsReceived :=
      vec_inc [ev_Module (enrich env ev), ev_EventType (enrich env ev)] (mx_EventsReceived (pr_metrics p))\<rparr>"
  shows "\<exists>n. finish mac marshal n (start_process (env, ev), p, fx) =
     (\<lparr>pl_env = env, pl_arg = ev, pl_ev = e, pl_pc = AtPipelineStats\<rparr>,
      p\<lparr>pr_store := store_stage e (pr_store p), pr_metrics := mx1\<rparr>, fx)"
proof -
  let ?c = "\<lparr>pl_env = env, pl_arg = ev, pl_ev = e, pl_pc = AtUpsertTrace\<rparr>"
  let ?p1 = "p\<lparr>pr_store := AddEvent e (pr_store p), pr_metrics := mx1\<rparr>"
  let ?p2 = "p\<lparr>pr_store := store_stage e (pr_store p), pr_metrics := mx1\<rparr>"
  have 1: "finish mac marshal 3 (start_process (env, ev), p, fx) = (?c, ?p1, fx)"
    using assms(1) by (simp add: numeral_3_eq_3 process_step.simps start_process_def call_at_def e mx1 Let_def)
  obtain n where "finish mac marshal n (?c, ?p1, fx) = (call_at AtPipelineStats ?c, ?p2, fx)"
    using finish_trace [of ?c e ?p1 "pr_store p" ?p2 mac marshal fx] by auto
  then have "finish mac marshal (3 + n) (start_process (env, ev), p, fx) = (call_at AtPipelineStats ?c, ?p2, fx)"
    unfolding finish_add 1 .
  then show ?thesis unfolding call_at_def by (intro exI [of _ "3 + n"]) simp
qed

lemma finish_middle:
  assumes "pl_pc c = AtPipelineStats" and "bypass_stage (pl_env c) (pl_ev c) (pr_bypass p) = (bp, spawn)"
    and "CheckEvent (env_clk (pl_env c) 3) (pl_ev c) (pr_store p, if ev_PipelineType (pl_ev c) \<noteq> []
      then (pr_metrics p)\<lparr>mx_PipelineRequests :=
        vec_inc [ev_PipelineType (pl_ev c), ev_Status (pl_ev c)] (mx_PipelineRequests (pr_metrics p))\<rparr>
      else pr_metrics p) = (tok, s2, mx3)"
    and "AutoCreate (env_clk (pl_env c) 5) (env_clk (pl_env c) 6) (pl_ev c) (pr_incidents p, s2, mx3) = (inc, im, s3, mx4)"
  shows "finish mac marshal 4 (c, p, fx) =
     (call_at (AtRules (am_rules (pr_alerts p)) []) c, p\<lparr>pr_store := s3, pr_metrics := mx4, pr_bypass := bp, pr_incidents := im\<rparr>,
      fx\<lparr>fx_ws := fx_ws fx @ (case inc of None \<Rightarrow> [] | Some i \<Rightarrow> [\<lparr>ws_Type = ''incident'', ws_Payload = PIncident i\<rparr>]),
        fx_spawn := fx_spawn fx @ spawn,
        fx_pub := (fx_pub fx @ honey_publication (pl_env c) (pr_pub p) (pl_ev c) tok)
          @ (case inc of None \<Rightarrow> [] | Some i \<Rightarrow> incident_publication (pl_env c) (pr_pub p) (pl_ev c) i)\<rparr>)"
proof -
  have four: "4 = Suc (Suc (Suc (Suc 0)))" by simp
  show ?thesis
    using assms unfolding four by (cases inc) (simp_all add: process_step.simps call_at_def Let_def split: if_splits)
qed

lemma process_alone:
  "\<exists>n c. finish mac marshal n (start_process (env, ev), p, fx) =
     (c, fst (Process mac marshal env ev p), fx_append fx (snd (Process mac marshal env ev p))) \<and> pl_pc c = Finished"
proof (cases "rejection p (enrich env ev)")
  case (Some err)
  then show ?thesis
    by (intro exI [of _ 2])
      (simp add: numeral_2_eq_2 process_step.simps start_process_def Process_def fx_append_def no_effects_def call_at_def Let_def)
next
  case None
  define e0 where "e0 = enrich env ev"
  define e where "e = sign_stage mac p e0"
  define mx1 where "mx1 = (pr_metrics p)\<lparr>mx_EventsReceived :=
      vec_inc [ev_Module e0, ev_EventType e0] (mx_EventsReceived (pr_metrics p))\<rparr>"
  define mx2 where "mx2 = (if ev_PipelineType e \<noteq> []
      then mx1\<lparr>mx_PipelineRequests := vec_inc [ev_PipelineType e, ev_Status e] (mx_PipelineRequests mx1)\<rparr> else mx1)"
  obtain bp spawn where bp: "bypass_stage env e (pr_bypass p) = (bp, spawn)" by fastforce
  obtain tok s2 mx3 where ht: "CheckEvent (env_clk env 3) e (store_stage e (pr_store p), mx2) = (tok, s2, mx3)"
    by (metis prod_cases3)
  obtain inc im s3 mx4 where ac: "AutoCreate (env_clk env 5) (env_clk env 6) e (pr_incidents p, s2, mx3) = (inc, im, s3, mx4)"
    by (metis prod_cases4)
  obtain am s4 mx5 fired jobs where
    al: "fold (eval_rule (env_alert env) e) (am_rules (pr_alerts p)) (pr_alerts p, s3, mx4, [], []) = (am, s4, mx5, fired, jobs)"
    by (metis prod_cases5)
  let ?c = "\<lparr>pl_env = env, pl_arg = ev, pl_ev = e, pl_pc = AtPipelineStats\<rparr>"
  let ?p2 = "p\<lparr>pr_store := store_stage e (pr_store p), pr_metrics := mx1\<rparr>"
  obtain n where 1: "finish mac marshal n (start_process (env, ev), p, fx) = (?c, ?p2, fx)"
    using finish_head [OF None refl refl, of mac marshal fx] unfolding e_def e0_def mx1_def by blast
  let ?p3 = "p\<lparr>pr_store := s3, pr_metrics := mx4, pr_bypass := bp, pr_incidents := im\<rparr>"
  let ?fx3 = "fx\<lparr>fx_ws := fx_ws fx @ (case inc of None \<Rightarrow> [] | Some i \<Rightarrow> [\<lparr>ws_Type = ''incident'', ws_Payload = PIncident i\<rparr>]),
      fx_spawn := fx_spawn fx @ spawn, fx_pub := (fx_pub fx @ honey_publication env (pr_pub p) e tok)
        @ (case inc of None \<Rightarrow> [] | Some i \<Rightarrow> incident_publication env (pr_pub p) e i)\<rparr>"
  let ?c3 = "call_at (AtRules (am_rules (pr_alerts p)) []) ?c"
  have 3: "finish mac marshal 4 (?c, ?p2, fx) = (?c3, ?p3, ?fx3)"
    using finish_middle [of ?c ?p2 bp spawn tok s2 mx3 inc im s3 mx4 mac marshal fx] bp ht ac by (simp add: mx2_def cong: if_cong option.case_cong)
  obtain m where 4: "finish mac marshal m (?c3, ?p3, ?fx3) = (call_at Finished ?c3,
      ?p3\<lparr>pr_store := s4, pr_metrics := mx5\<lparr>mx_EventsProcessed := vec_inc [ev_Module e] (mx_EventsProcessed mx5),
          mx_ProcessingDuration := vec_observe [ev_Module e] (env_took env) (mx_ProcessingDuration mx5)\<rparr>, pr_alerts := am\<rparr>,
      ?fx3\<lparr>fx_ws := fx_ws ?fx3 @ map ws_alert fired @ [\<lparr>ws_Type = ''event'', ws_Payload = PEvent e\<rparr>],
         fx_jobs := fx_jobs fx @ jobs, fx_hooks := fx_hooks fx @ [e]\<rparr>)"
    using finish_tail [of ?c3 "am_rules (pr_alerts p)" ?p3 am s4 mx5 fired jobs mac marshal ?fx3] al by auto
  have "finish mac marshal (n + 4 + m) (start_process (env, ev), p, fx) =
      finish mac marshal m (?c3, ?p3, ?fx3)" unfolding finish_add 1 3 ..
  moreover have "Process mac marshal env ev p = accept_step mac env e0 p" using None by (simp add: Process_def e0_def Let_def)
  moreover note accept_step_def [of mac env e0 p, unfolded Let_def, folded e_def, folded mx1_def, folded mx2_def,
      unfolded bp ht ac Evaluate_def al split_conv]
  ultimately show ?thesis
    unfolding 4 by (intro exI [of _ "n + 4 + m"]) (simp add: fx_append_def ws_alert_def [abs_def])
qed

subsection \<open>How many turns a call needs\<close>

fun turns_left :: "nat \<Rightarrow> process_pc \<Rightarrow> nat" where
  "turns_left R AtEnter = 14 + 2 * R"
| "turns_left R (AtReject err) = 1"
| "turns_left R AtReceived = 13 + 2 * R"
| "turns_left R AtAddEvent = 12 + 2 * R"
| "turns_left R AtUpsertTrace = 11 + 2 * R"
| "turns_left R AtChunkLineage = 10 + 2 * R"
| "turns_left R AtPipelineStats = 9 + 2 * R"
| "turns_left R AtBypass = 8 + 2 * R"
| "turns_left R AtHoney = 7 + 2 * R"
| "turns_left R AtIncident = 6 + 2 * R"
| "turns_left R (AtRules rs fired) = 5 + 2 * length rs + length fired"
| "turns_left R (AtBroadcast als) = 4 + length als"
| "turns_left R AtHooks = 3"
| "turns_left R AtProcessed = 2"
| "turns_left R AtDuration = 1"
| "turns_left R Finished = 0"

lemma turns_left_0: "turns_left R pc = 0 \<longleftrightarrow> pc = Finished"
  by (cases pc) simp_all

lemma eval_rule_keeps:
  "eval_rule clk ev r (m, s, mx, fired, jobs) = (m', s', mx', fired', jobs') \<Longrightarrow>
     am_rules m' = am_rules m \<and> length fired' \<le> Suc (length fired) \<and> same_ring s s'"
  by (auto simp: eval_rule_def Let_def same_ring_def AddAlert_def split: if_splits)

text \<open>What no step changes, and what a step of a call does to the ring of events.\<close>

lemma process_step_frame:
  assumes "process_step mac marshal c (p, fx) = (c', p', fx')"
  shows "pl_env c' = pl_env c" "pl_arg c' = pl_arg c" "am_rules (pr_alerts p') = am_rules (pr_alerts p)"
    "pr_signer p' = pr_signer p" "pl_pc c \<noteq> Finished \<Longrightarrow>
       turns_left (length (am_rules (pr_alerts p))) (pl_pc c') < turns_left (length (am_rules (pr_alerts p))) (pl_pc c)"
    "pl_pc c = Finished \<Longrightarrow> c' = c"
proof -
  note [simp] = process_step.simps call_at_def
  have rej: "am_rules (pr_alerts (reject_step marshal env ev err p)) = am_rules (pr_alerts p)"
      "pr_signer (reject_step marshal env ev err p) = pr_signer p" for env ev err
    by (simp_all add: reject_step_def split: option.split prod.split)
  note step = assms [unfolded process_step.simps Let_def]
  show "pl_env c' = pl_env c" "pl_arg c' = pl_arg c" "pl_pc c = Finished \<Longrightarrow> c' = c"
    using step by (cases "pl_pc c"; auto split: option.splits prod.splits list.splits)+
  show "am_rules (pr_alerts p') = am_rules (pr_alerts p)" "pr_signer p' = pr_signer p"
    using step by (cases "pl_pc c"; auto simp: rej dest!: eval_rule_keeps split: option.splits prod.splits list.splits if_splits)+
  show "turns_left (length (am_rules (pr_alerts p))) (pl_pc c') < turns_left (length (am_rules (pr_alerts p))) (pl_pc c)"
    if "pl_pc c \<noteq> Finished"
    using step that
    by (cases "pl_pc c") (auto dest!: eval_rule_keeps split: option.splits prod.splits list.splits if_splits)
qed

lemma AutoCreate_ring: "AutoCreate now now2 ev (m, s, mx) = (r, m', s', mx') \<Longrightarrow> same_ring s s'"
  using AutoCreate_frame by (simp add: same_ring_def)

lemma process_step_ring:
  assumes "process_step mac marshal c (p, fx) = (c', p', fx')"
  shows "same_ring (if pl_pc c = AtAddEvent then AddEvent (pl_ev c) (pr_store p) else pr_store p) (pr_store p')"
    and "pr_validator p' = (case pl_pc c of
       AtReject err \<Rightarrow> pr_validator (reject_step marshal (pl_env c) (pl_ev c) err p) | _ \<Rightarrow> pr_validator p)"
proof -
  have frames: "same_ring s (UpsertTrace ev s)" "same_ring s (AddChunkLineage t ch s)" "same_ring s s"
      "pr_store (reject_step marshal env ev err p) = pr_store p" for s ev t ch env err
    by (auto simp: same_ring_def UpsertTrace_def AddChunkLineage_def reject_step_def Let_def split: option.split prod.split)
  note step = assms [unfolded process_step.simps Let_def]
  show "same_ring (if pl_pc c = AtAddEvent then AddEvent (pl_ev c) (pr_store p) else pr_store p) (pr_store p')"
    using step
    by (cases "pl_pc c")
      (auto simp: frames dest!: eval_rule_keeps CheckEvent_frame AutoCreate_ring
        split: option.splits prod.splits list.splits if_splits)
  show "pr_validator p' = (case pl_pc c of
       AtReject err \<Rightarrow> pr_validator (reject_step marshal (pl_env c) (pl_ev c) err p) | _ \<Rightarrow> pr_validator p)"
    using step by (cases "pl_pc c") (auto split: option.splits prod.splits list.splits if_splits)
qed

subsection \<open>What a schedule leaves\<close>

text \<open>
  A call has committed once it has added its event or its dead letter. The calls that have, in the order
  they did, explain the ring and the dead letters: these are what \<open>Process\<close> leaves, one after the other.
\<close>

fun committed :: "process_pc \<Rightarrow> bool" where
  "committed AtEnter = False"
| "committed (AtReject err) = False"
| "committed AtReceived = False"
| "committed AtAddEvent = False"
| "committed pc = True"

definition call_arg :: "process_call \<Rightarrow> Env \<times> BastionEvent" where
  "call_arg c = (pl_env c, pl_arg c)"

definition call_sound :: "(string \<Rightarrow> string \<Rightarrow> string) \<Rightarrow> Processor \<Rightarrow> process_call \<Rightarrow> bool" where
  "call_sound mac p0 c \<longleftrightarrow>
     (let ev1 = enrich (pl_env c) (pl_arg c)
      in case pl_pc c of
           AtEnter \<Rightarrow> pl_ev c = pl_arg c
         | AtReject err \<Rightarrow> pl_ev c = ev1 \<and> rejection p0 ev1 = Some err
         | AtReceived \<Rightarrow> pl_ev c = ev1 \<and> rejection p0 ev1 = None
         | AtAddEvent \<Rightarrow> pl_ev c = sign_stage mac p0 ev1 \<and> rejection p0 ev1 = None
         | _ \<Rightarrow> True)"

lemma call_sound_step:
  assumes "process_step mac marshal c (p, fx) = (c', p', fx')" and "call_sound mac p0 c"
    and "pr_signer p = pr_signer p0" and "(pr_validator p = None) = (pr_validator p0 = None)"
  shows "call_sound mac p0 c'" and "committed (pl_pc c') \<longleftrightarrow> committed (pl_pc c) \<or> pl_pc c = AtAddEvent \<or> (\<exists>err. pl_pc c = AtReject err)"
proof -
  have same: "rejection p ev = rejection p0 ev" "sign_stage mac p ev = sign_stage mac p0 ev" for ev
    using assms(3,4) by (auto simp: rejection_def sign_stage_def split: option.split)
  note step = assms(1) [unfolded process_step.simps Let_def]
  show "call_sound mac p0 c'"
    using step assms(2)
    by (cases "pl_pc c") (auto simp: call_sound_def same call_at_def Let_def split: option.splits prod.splits list.splits if_splits)
  show "committed (pl_pc c') \<longleftrightarrow> committed (pl_pc c) \<or> pl_pc c = AtAddEvent \<or> (\<exists>err. pl_pc c = AtReject err)"
    using step by (cases "pl_pc c") (auto split: option.splits prod.splits list.splits if_splits)
qed

definition committed_args :: "process_call list \<Rightarrow> (Env \<times> BastionEvent) multiset" where
  "committed_args cs = image_mset call_arg (filter_mset (\<lambda>c. committed (pl_pc c)) (mset cs))"

lemma committed_args_update:
  assumes "i < length cs" and "call_arg c' = call_arg (cs ! i)" and "committed (pl_pc (cs ! i)) \<longrightarrow> committed (pl_pc c')"
  shows "committed_args (cs[i := c']) =
    (if committed (pl_pc c') \<and> \<not> committed (pl_pc (cs ! i)) then add_mset (call_arg (cs ! i)) (committed_args cs)
     else committed_args cs)"
proof -
  obtain M where "mset cs = add_mset (cs ! i) M" using assms(1) by (metis insert_DiffM nth_mem_mset)
  then show ?thesis using assms by (auto simp: committed_args_def mset_update)
qed

definition explains :: "Processor \<Rightarrow> Processor \<Rightarrow> bool" where
  "explains q p \<longleftrightarrow> ring_ok (pr_store p) \<and> newest (pr_store p) = newest (pr_store q)
     \<and> st_maxEvents (pr_store p) = st_maxEvents (pr_store q) \<and> pr_validator p = pr_validator q \<and> pr_signer p = pr_signer q"

lemma explains_reject:
  assumes "explains q p"
  shows "pr_validator (reject_step marshal env ev err p) = pr_validator (reject_step marshal env ev err q)"
    "pr_store (reject_step marshal env ev err q) = pr_store q" "pr_signer (reject_step marshal env ev err q) = pr_signer q"
  using assms by (auto simp: explains_def reject_step_def Reject_def Let_def split: option.split prod.split)

lemma explains_step:
  assumes step: "process_step mac marshal c (p, fx) = (c', p', fx')" and ex: "explains q p"
    and sound: "call_sound mac p0 c" and inv: "tracker_inv mac q" "env_ok (pl_env c)" "mac_ok mac"
    and like: "pr_signer q = pr_signer p0" "(pr_validator q = None) = (pr_validator p0 = None)"
  shows "explains (if committed (pl_pc c') \<and> \<not> committed (pl_pc c)
      then fst (Process mac marshal (pl_env c) (pl_arg c) q) else q) p'"
proof -
  let ?ev = "enrich (pl_env c) (pl_arg c)"
  note ring = process_step_ring [OF step]
  have sg: "pr_signer p' = pr_signer q" using process_step_frame(4) [OF step] ex by (simp add: explains_def)
  have pq: "pr_signer p = pr_signer p0" "(pr_validator p = None) = (pr_validator p0 = None)"
    using ex like by (simp_all add: explains_def)
  note com = call_sound_step(2) [OF step sound pq]
  have same: "rejection q ev = rejection p0 ev" "sign_stage mac p0 ev = sign_stage mac q ev" for ev
    using like by (auto simp: rejection_def sign_stage_def)
  consider (add) "pl_pc c = AtAddEvent" | (rej) err where "pl_pc c = AtReject err"
    | (other) "pl_pc c \<noteq> AtAddEvent" "\<And>err. pl_pc c \<noteq> AtReject err" by blast
  then show ?thesis
  proof cases
    case add
    have acc: "rejection q ?ev = None" "pl_ev c = sign_stage mac q ?ev"
      using sound add by (simp_all add: call_sound_def same Let_def)
    note P = Process_accepts [OF inv acc(1), of marshal]
    have sr: "same_ring (AddEvent (pl_ev c) (pr_store p)) (pr_store p')" using ring(1) add by simp
    have ok: "ring_ok (pr_store p)" using ex by (simp add: explains_def)
    have "pr_signer (fst (Process mac marshal (pl_env c) (pl_arg c) q)) = pr_signer q"
      using Process_keeps [OF prod.collapse [symmetric]] by blast
    then show ?thesis
      using same_ring_newest [OF sr] newest_AddEvent [OF ok, of "pl_ev c"] ring.wf_push [OF ok] ring.cap_push [of "pr_store p"]
        P acc(2) ex sg com ring(2) add
      by (simp add: explains_def)
  next
    case rej
    have r: "pl_ev c = ?ev" "rejection q ?ev = Some err"
      using sound rej by (simp_all add: call_sound_def same Let_def)
    have P: "fst (Process mac marshal (pl_env c) (pl_arg c) q) = reject_step marshal (pl_env c) ?ev err q"
      using r(2) by (simp add: Process_def Let_def)
    then show ?thesis
      using explains_reject [OF ex] same_ring_newest [OF ring(1)] ring(2) rej r(1) ex sg com by (simp add: explains_def)
  next
    case other
    then have "pr_validator p' = pr_validator p" using ring(2) by (simp split: process_pc.splits)
    then show ?thesis using same_ring_newest [OF ring(1)] other ex sg com by (simp add: explains_def)
  qed
qed

text \<open>The invariant of a run.\<close>

definition race_inv ::
    "(string \<Rightarrow> string \<Rightarrow> string) \<Rightarrow> (BastionEvent \<Rightarrow> string) \<Rightarrow> (Env \<times> BastionEvent) list \<Rightarrow> Processor \<Rightarrow> race_state \<Rightarrow> bool" where
  "race_inv mac marshal evs p0 = (\<lambda>(cs, p, fx).
     map call_arg cs = evs \<and> list_all (call_sound mac p0) cs \<and> am_rules (pr_alerts p) = am_rules (pr_alerts p0)
     \<and> (\<exists>log. mset log = committed_args cs \<and> explains (process_all mac marshal log p0) p))"

lemma race_inv_step:
  assumes "race_inv mac marshal evs p0 (cs, p, fx)" and i: "i < length cs"
    and step: "process_step mac marshal (cs ! i) (p, fx) = (c', p', fx')"
    and inv: "tracker_inv mac p0" "mac_ok mac" "\<forall>(env, ev) \<in> set evs. env_ok env"
  shows "race_inv mac marshal evs p0 (cs[i := c'], p', fx')"
proof -
  let ?c = "cs ! i" and ?P = "\<lambda>log. process_all mac marshal log p0"
  from assms(1) obtain log where args: "map call_arg cs = evs" and sound: "list_all (call_sound mac p0) cs"
    and rules: "am_rules (pr_alerts p) = am_rules (pr_alerts p0)"
    and log: "mset log = committed_args cs" and ex: "explains (?P log) p"
    by (auto simp: race_inv_def)
  have arg: "call_arg c' = call_arg ?c" using process_step_frame(1,2) [OF step] by (simp add: call_arg_def)
  have "set log = set_mset (committed_args cs)" by (simp flip: log)
  then have "set log \<subseteq> set evs" using args by (auto simp: committed_args_def)
  then have envs: "\<forall>(env, ev) \<in> set log. env_ok env" using inv(3) by blast
  have "call_arg ?c \<in> set evs" using args i by (metis length_map nth_map nth_mem)
  then have env: "env_ok (pl_env ?c)" using inv(3) by (auto simp: call_arg_def)
  have Pinv: "tracker_inv mac (?P log)" by (rule tracker_inv_process_all [OF inv(1,2) envs])
  note keeps = process_all_keeps [of mac marshal log p0]
  have snd: "call_sound mac p0 ?c" using sound i by (simp add: list_all_length)
  have like: "pr_signer p = pr_signer p0" "(pr_validator p = None) = (pr_validator p0 = None)"
    using ex keeps by (simp_all add: explains_def)
  note snd' = call_sound_step [OF step snd like]
  have "explains (if committed (pl_pc c') \<and> \<not> committed (pl_pc ?c)
      then fst (Process mac marshal (pl_env ?c) (pl_arg ?c) (?P log)) else ?P log) p'"
    by (rule explains_step [OF step ex snd Pinv env inv(2)]) (use keeps in auto)
  moreover have "?P (log @ [call_arg ?c]) = fst (Process mac marshal (pl_env ?c) (pl_arg ?c) (?P log))"
    by (simp add: process_all_def call_arg_def)
  moreover have "mset (if committed (pl_pc c') \<and> \<not> committed (pl_pc ?c) then log @ [call_arg ?c] else log)
      = committed_args (cs[i := c'])"
    using committed_args_update [OF i arg] snd'(2) log by simp
  ultimately have log': "\<exists>log. mset log = committed_args (cs[i := c']) \<and> explains (?P log) p'"
    by (intro exI [of _ "if committed (pl_pc c') \<and> \<not> committed (pl_pc ?c) then log @ [call_arg ?c] else log"])
      (cases "committed (pl_pc c') \<and> \<not> committed (pl_pc ?c)", simp_all)
  have "map call_arg (cs[i := c']) = evs" unfolding map_update arg using args i by (metis list_update_id nth_map)
  moreover have "list_all (call_sound mac p0) (cs[i := c'])"
    using sound snd'(1) set_update_subset_insert [of cs i c'] by (auto simp: list_all_iff)
  ultimately show ?thesis
    using process_step_frame(3) [OF step] rules log' by (simp add: race_inv_def)
qed

lemma race_inv_run:
  assumes "race_inv mac marshal evs p0 st" and "tracker_inv mac p0" and "mac_ok mac" and "\<forall>(env, ev) \<in> set evs. env_ok env"
  shows "race_inv mac marshal evs p0 (process_run mac marshal sched st)"
  using assms(1)
proof (induction sched arbitrary: st)
  case (Cons i sched)
  obtain cs p fx where st: "st = (cs, p, fx)" by (metis prod_cases3)
  show ?case
  proof (cases "i < length cs")
    case True
    obtain c' p' fx' where step: "process_step mac marshal (cs ! i) (p, fx) = (c', p', fx')" by (metis prod_cases3)
    from race_inv_step [OF Cons.prems [unfolded st] True step assms(2-4)] Cons.IH
    show ?thesis using True step by (simp add: st)
  qed (use Cons in \<open>simp add: st\<close>)
qed simp

text \<open>A call that has had its turns has finished.\<close>

lemma turns_spent:
  assumes "i < length cs" and "am_rules (pr_alerts p) = rules"
    and "process_run mac marshal sched (cs, p, fx) = (cs', p', fx')"
  shows "length cs' = length cs \<and> (turns_left (length rules) (pl_pc (cs ! i)) \<le> count_list sched i \<longrightarrow> pl_pc (cs' ! i) = Finished)"
  using assms
proof (induction sched arbitrary: cs p fx)
  case Nil
  then show ?case using turns_left_0 by auto
next
  case (Cons j sched)
  show ?case
  proof (cases "j < length cs")
    case True
    obtain c1 p1 fx1 where step: "process_step mac marshal (cs ! j) (p, fx) = (c1, p1, fx1)" by (metis prod_cases3)
    let ?cs = "cs[j := c1]"
    have "turns_left (length rules) (pl_pc (?cs ! i)) \<le> (if i = j then turns_left (length rules) (pl_pc (cs ! i)) - 1
        else turns_left (length rules) (pl_pc (cs ! i)))"
      using process_step_frame(5,6) [OF step] Cons.prems(1,2) turns_left_0
      by (cases "i = j"; cases "pl_pc (cs ! j) = Finished") fastforce+
    moreover have "process_run mac marshal sched (?cs, p1, fx1) = (cs', p', fx')" using Cons.prems(3) True step by simp
    note Cons.IH [OF _ _ this]
    moreover have "am_rules (pr_alerts p1) = rules" using process_step_frame(3) [OF step] Cons.prems(2) by simp
    ultimately show ?thesis using Cons.prems(1) by (auto split: if_splits)
  next
    case False
    then show ?thesis using Cons.prems Cons.IH [of cs p fx] by auto
  qed
qed

subsection \<open>Properties\<close>

text \<open>
  C4: concurrent calls lose nothing. Any number of calls of \<open>Process\<close>, cut at their calls of
  the subsystems and interleaved by any schedule: whenever each call has had \<open>14 + 2 * R\<close> turns, with R
  alert rules, all have returned, and then there is an order of these calls for which the ring
  of events, newest first, and the dead letters are those that \<open>Process\<close> leaves
  when it runs to its end for one call after the other in that order; so every valid event is stored
  signed, exactly once, and every other is a dead letter.
\<close>

theorem concurrent_calls_linearize:
  assumes "mac_ok mac" and "tracker_inv mac p0" and "\<forall>(env, ev) \<in> set evs. env_ok env"
    and "process_run mac marshal sched (map start_process evs, p0, fx) = (cs, p, fx')"
    and "\<forall>i < length evs. 14 + 2 * length (am_rules (pr_alerts p0)) \<le> count_list sched i"
  shows "list_all (\<lambda>c. pl_pc c = Finished) cs
    \<and> (\<exists>ord. mset ord = mset evs
         \<and> newest (pr_store p) = newest (pr_store (process_all mac marshal ord p0))
         \<and> pr_validator p = pr_validator (process_all mac marshal ord p0)
         \<and> ring_ok (pr_store p) \<and> (\<forall>ev \<in> set (newest (pr_store p)). event_ok mac p0 ev))"
proof
  have "list_all (call_sound mac p0) (map start_process evs)"
    by (simp add: list_all_iff call_sound_def start_process_def Let_def)
  moreover have "map call_arg (map start_process evs) = evs"
    by (simp add: call_arg_def start_process_def comp_def)
  moreover have "committed_args (map start_process evs) = {#}"
    by (auto simp: committed_args_def start_process_def)
  moreover have "explains p0 p0" using assms(2) by (simp add: explains_def tracker_inv_def)
  ultimately have "race_inv mac marshal evs p0 (map start_process evs, p0, fx)"
    by (simp add: race_inv_def process_all_def)
  from race_inv_run [OF this assms(2,1,3), of sched]
  obtain log where args: "map call_arg cs = evs" and log: "mset log = committed_args cs"
    and ex: "explains (process_all mac marshal log p0) p"
    unfolding assms(4) by (auto simp: race_inv_def)
  show fin: "list_all (\<lambda>c. pl_pc c = Finished) cs"
    unfolding list_all_length
  proof (intro allI impI)
    fix i assume "i < length cs"
    then have i: "i < length (map start_process evs)" using args by auto
    show "pl_pc (cs ! i) = Finished"
      using turns_spent [OF i refl assms(4)] assms(5) i by (simp add: start_process_def)
  qed
  then have "filter_mset (\<lambda>c. committed (pl_pc c)) (mset cs) = mset cs"
    by (auto simp: list_all_iff filter_mset_eq_conv)
  then have perm: "mset log = mset evs" using log args by (simp add: committed_args_def flip: mset_map)
  have envs: "\<forall>(env, ev) \<in> set log. env_ok env" using assms(3) perm by (metis set_mset_mset)
  have keep: "event_ok mac (process_all mac marshal log p0) ev = event_ok mac p0 ev" for ev
    using process_all_keeps [of mac marshal log p0] by (intro event_ok_cong) auto
  have "\<forall>ev \<in> set (newest (pr_store p)). event_ok mac p0 ev"
    using tracker_inv_process_all [OF assms(2,1) envs, of marshal] ex keep by (simp add: explains_def tracker_inv_def)
  then show "\<exists>ord. mset ord = mset evs
         \<and> newest (pr_store p) = newest (pr_store (process_all mac marshal ord p0))
         \<and> pr_validator p = pr_validator (process_all mac marshal ord p0)
         \<and> ring_ok (pr_store p) \<and> (\<forall>ev \<in> set (newest (pr_store p)). event_ok mac p0 ev)"
    using perm ex by (intro exI [of _ log]) (simp add: explains_def)
qed

text \<open>
  The ring and a trace can disagree on the order. For any two valid events of one trace there is a schedule
  in which the second is the newer one of the ring and the older one of the trace: \<open>AddEvent\<close>
  and \<open>UpsertTrace\<close> are two critical sections, and the other call runs in between.
\<close>

lemma ring_and_trace_disagree:
  assumes "e1 = sign_stage mac p0 (enrich (fst x1) (snd x1))" and "e2 = sign_stage mac p0 (enrich (fst x2) (snd x2))"
    and "rejection p0 (enrich (fst x1) (snd x1)) = None" and "rejection p0 (enrich (fst x2) (snd x2)) = None"
  shows "case process_run mac marshal [0, 0, 0, 1, 1, 1, 1, 0] (map start_process [x1, x2], p0, fx) of (cs, p, fx') \<Rightarrow>
    same_ring (AddEvent e2 (AddEvent e1 (pr_store p0))) (pr_store p)
    \<and> st_traces (pr_store p) = st_traces (UpsertTrace e1 (UpsertTrace e2 (AddEvent e2 (AddEvent e1 (pr_store p0)))))"
proof -
  have same: "rejection (p0\<lparr>pr_metrics := mx\<rparr>) = rejection p0" "sign_stage mac (p0\<lparr>pr_metrics := mx, pr_store := s\<rparr>) = sign_stage mac p0"
    "rejection (p0\<lparr>pr_metrics := mx, pr_store := s\<rparr>) = rejection p0" for mx s
    by (rule ext, simp add: rejection_def sign_stage_def)+
  show ?thesis
    using assms
    by (simp add: process_step.simps start_process_def call_at_def same Let_def)
      (simp add: same_ring_def UpsertTrace_def Let_def)
qed

lemma concurrent_calls_linearize_witness:
  "let rules = []; ev = zero_event\<lparr>ev_Module := ''m'', ev_EventType := ''t'', ev_Status := ''completed''\<rparr>;
       env = \<lparr>env_id = ''e'', env_now = 5, env_clk = (\<lambda>n. 5), env_alert = (\<lambda>n. 5), env_rid = (\<lambda>n. []), env_ord = id, env_took = 1\<rparr>
   in list_all (\<lambda>c. pl_pc c = Finished)
        (fst (process_run toy_mac (\<lambda>e. []) (concat (replicate 14 [0, 1]))
           (map start_process [(env, ev), (env, ev)], tracker_init 5 rules ''k'', no_effects)))"
proof -
  let ?ev = "zero_event\<lparr>ev_Module := ''m'', ev_EventType := ''t'', ev_Status := ''completed''\<rparr>"
  let ?env = "\<lparr>env_id = ''e'', env_now = 5, env_clk = (\<lambda>n. 5), env_alert = (\<lambda>n. 5), env_rid = (\<lambda>n. []), env_ord = id, env_took = 1\<rparr>"
  let ?evs = "[(?env, ?ev), (?env, ?ev)]" and ?p = "tracker_init 5 [] ''k''"
  let ?sched = "concat (replicate 14 [0, 1]) :: nat list"
  obtain cs p fx' where run: "process_run toy_mac (\<lambda>e. []) ?sched (map start_process ?evs, ?p, no_effects) = (cs, p, fx')"
    by (metis prod_cases3)
  have env: "\<forall>(env, ev) \<in> set ?evs. env_ok env" by (simp add: env_ok_def)
  have "am_rules (pr_alerts ?p) = []" by (simp add: tracker_init_def SetValidator_def SetSigner_def Processor_New_def)
  then have turns: "\<forall>i < length ?evs. 14 + 2 * length (am_rules (pr_alerts ?p)) \<le> count_list ?sched i"
    by (simp add: less_Suc_eq eval_nat_numeral)
  from concurrent_calls_linearize [OF toy_mac_ok tracker_inv_init env run turns] show ?thesis
    unfolding Let_def run by simp
qed

end
