(* ===== verification/Counters.thy ===== *)
theory Counters
  imports Processor
begin

text \<open>
  What the counters of theory Metrics say after a run of the processor: how each subsystem of
  \<open>Process\<close> changes them, and the sums over a run.
\<close>

definition bump :: "bool \<Rightarrow> string list \<Rightarrow> counter_vec \<Rightarrow> counter_vec" where
  "bump b l c = (if b then vec_inc l c else c)"

definition triggers_token :: "BastionEvent \<Rightarrow> bool" where
  "triggers_token ev \<longleftrightarrow> ev_EventType ev \<in> set detectionEventTypes \<or> HasPrefix (ev_EventType ev) ''honey_token_''"

lemma CheckEvent_metrics:
  "CheckEvent now ev (s, mx) = (t, s', mx') \<Longrightarrow>
     mx' = mx\<lparr>mx_HoneyTokenTriggers := mx_HoneyTokenTriggers mx + of_bool (triggers_token ev)\<rparr>"
  by (auto simp: CheckEvent_def triggers_token_def Let_def split: if_splits)

lemma AutoCreate_metrics:
  assumes "AutoCreate now now2 ev (m, s, mx) = (r, m', s', mx')"
  shows "mx' = mx\<lparr>mx_IncidentsCreated := bump (opens_incident ev) [ev_Severity ev] (mx_IncidentsCreated mx)\<rparr>"
proof (cases "opens_incident ev")
  case True
  show ?thesis by (rule AutoCreate_Some [OF True, of now now2 m s mx]) (use assms True in \<open>auto simp: bump_def\<close>)
next
  case False
  then show ?thesis using assms AutoCreate_None by (auto simp: bump_def)
qed

definition firing :: "BastionEvent \<Rightarrow> AlertRule list \<Rightarrow> int" where
  "firing ev rules = int (length (filter (\<lambda>r. alert_matches (ru_Condition r) ev) rules))"

lemma Evaluate_metrics:
  assumes "Evaluate clk ev (m, s, mx) = (m', s', mx', fired, jobs)"
  shows "mx' = mx\<lparr>mx_AlertsFired := fold (\<lambda>r. bump (alert_matches (ru_Condition r) ev) [ru_Name r, ru_Severity r])
      (am_rules m) (mx_AlertsFired mx), mx_ActiveAlerts := mx_ActiveAlerts mx + firing ev (am_rules m)\<rparr>"
proof -
  have "fst (snd (snd (fold (eval_rule clk ev) rs (m, s, mx, fd, js)))) =
      mx\<lparr>mx_AlertsFired := fold (\<lambda>r. bump (alert_matches (ru_Condition r) ev) [ru_Name r, ru_Severity r]) rs (mx_AlertsFired mx),
         mx_ActiveAlerts := mx_ActiveAlerts mx + firing ev rs\<rparr>"
    for rs m s mx fd js
    by (induction rs arbitrary: m s mx fd js) (simp_all add: eval_rule_def bump_def firing_def Let_def)
  from this [of "am_rules m" m s mx "[]" "[]"] show ?thesis using assms by (simp add: Evaluate_def)
qed

text \<open>The counters after an accepted event \<open>e\<close>, as it was signed.\<close>

definition accepted_metrics :: "AlertRule list \<Rightarrow> duration \<Rightarrow> BastionEvent \<Rightarrow> Metrics \<Rightarrow> Metrics" where
  "accepted_metrics rules took e mx = mx
     \<lparr>mx_EventsReceived := vec_inc [ev_Module e, ev_EventType e] (mx_EventsReceived mx),
      mx_EventsProcessed := vec_inc [ev_Module e] (mx_EventsProcessed mx),
      mx_ProcessingDuration := vec_observe [ev_Module e] took (mx_ProcessingDuration mx),
      mx_IncidentsCreated := bump (opens_incident e) [ev_Severity e] (mx_IncidentsCreated mx),
      mx_AlertsFired := fold (\<lambda>r. bump (alert_matches (ru_Condition r) e) [ru_Name r, ru_Severity r]) rules (mx_AlertsFired mx),
      mx_HoneyTokenTriggers := mx_HoneyTokenTriggers mx + of_bool (triggers_token e),
      mx_PipelineRequests := bump (ev_PipelineType e \<noteq> []) [ev_PipelineType e, ev_Status e] (mx_PipelineRequests mx),
      mx_ActiveAlerts := mx_ActiveAlerts mx + firing e rules\<rparr>"

lemma accept_step_metrics:
  "pr_metrics (fst (accept_step mac env ev0 p)) =
     accepted_metrics (am_rules (pr_alerts p)) (env_took env) (sign_stage mac p ev0) (pr_metrics p)
   \<and> am_rules (pr_alerts (fst (accept_step mac env ev0 p))) = am_rules (pr_alerts p)"
proof -
  define ev where "ev = sign_stage mac p ev0"
  define mx2 where "mx2 = (pr_metrics p)\<lparr>mx_EventsReceived := vec_inc [ev_Module ev0, ev_EventType ev0] (mx_EventsReceived (pr_metrics p)),
      mx_PipelineRequests := bump (ev_PipelineType ev \<noteq> []) [ev_PipelineType ev, ev_Status ev] (mx_PipelineRequests (pr_metrics p))\<rparr>"
  obtain bp spawn where bp: "bypass_stage env ev (pr_bypass p) = (bp, spawn)" by fastforce
  obtain tok s2 mx3 where ht: "CheckEvent (env_clk env 3) ev (store_stage ev (pr_store p), mx2) = (tok, s2, mx3)"
    by (metis prod_cases3)
  obtain inc im s3 mx4 where ac: "AutoCreate (env_clk env 5) (env_clk env 6) ev (pr_incidents p, s2, mx3) = (inc, im, s3, mx4)"
    by (metis prod_cases4)
  obtain am s4 mx5 fired jobs where al: "Evaluate (env_alert env) ev (pr_alerts p, s3, mx4) = (am, s4, mx5, fired, jobs)"
    by (metis prod_cases5)
  let ?mx1 = "(pr_metrics p)\<lparr>mx_EventsReceived := vec_inc [ev_Module ev0, ev_EventType ev0] (mx_EventsReceived (pr_metrics p))\<rparr>"
  have mx2: "(if ev_PipelineType ev \<noteq> []
        then ?mx1\<lparr>mx_PipelineRequests := vec_inc [ev_PipelineType ev, ev_Status ev] (mx_PipelineRequests ?mx1)\<rparr> else ?mx1) = mx2"
    by (simp add: mx2_def bump_def)
  have "fst (accept_step mac env ev0 p) = p\<lparr>pr_store := s4, pr_metrics := mx5\<lparr>
      mx_EventsProcessed := vec_inc [ev_Module ev] (mx_EventsProcessed mx5),
      mx_ProcessingDuration := vec_observe [ev_Module ev] (env_took env) (mx_ProcessingDuration mx5)\<rparr>,
      pr_alerts := am, pr_incidents := im, pr_bypass := bp\<rparr>"
    unfolding accept_step_def Let_def ev_def [symmetric] mx2 bp ht ac al split_conv fst_conv ..
  moreover have "am_rules am = am_rules (pr_alerts p)"
    using eval_fold [OF al [unfolded Evaluate_def split_conv]] by simp
  ultimately show ?thesis
    using CheckEvent_metrics [OF ht] AutoCreate_metrics [OF ac] Evaluate_metrics [OF al]
    by (simp add: accepted_metrics_def mx2_def ev_def)
qed

definition number :: "(BastionEvent \<Rightarrow> bool) \<Rightarrow> BastionEvent list \<Rightarrow> int" where
  "number P evs = int (length (filter P evs))"

lemma number_simps [simp]:
  "number P [] = 0" "number P (ev # evs) = of_bool (P ev) + number P evs"
  by (simp_all add: number_def)

lemma bump_get: "mget0 0 (bump b l c) k = mget0 0 c k + of_bool (b \<and> k = l)"
  by (simp add: bump_def vec_get)

lemma sign_kept [simp]:
  "ev_PipelineType (Sign mac sg ev) = ev_PipelineType ev" "ev_Status (Sign mac sg ev) = ev_Status ev"
  "ev_Module (Sign mac sg ev) = ev_Module ev" "ev_EventType (Sign mac sg ev) = ev_EventType ev"
  "ev_Severity (Sign mac sg ev) = ev_Severity ev"
  "opens_incident (Sign mac sg ev) = opens_incident ev" "triggers_token (Sign mac sg ev) = triggers_token ev"
  by (simp_all add: Sign_def opens_incident_def triggers_token_def)

lemma run_metrics:
  assumes "pr_validator p \<noteq> None" and "pr_signer p = Some sg" and "am_rules (pr_alerts p) = rules"
  shows "let mx = pr_metrics (process_all mac marshal evs p); mx0 = pr_metrics p; acc = accepted evs in
     mx_EventsRejected mx = mx_EventsRejected mx0 + int (length (rejected evs))
   \<and> mget0 0 (mx_EventsReceived mx) [m, t] = mget0 0 (mx_EventsReceived mx0) [m, t] + number (\<lambda>ev. ev_Module ev = m \<and> ev_EventType ev = t) acc
   \<and> mget0 0 (mx_EventsProcessed mx) [m] = mget0 0 (mx_EventsProcessed mx0) [m] + number (\<lambda>ev. ev_Module ev = m) acc
   \<and> int (length (mget0 [] (mx_ProcessingDuration mx) [m]))
       = int (length (mget0 [] (mx_ProcessingDuration mx0) [m])) + number (\<lambda>ev. ev_Module ev = m) acc
   \<and> mget0 0 (mx_PipelineRequests mx) [pt, st] = mget0 0 (mx_PipelineRequests mx0) [pt, st]
       + number (\<lambda>ev. pt \<noteq> [] \<and> ev_PipelineType ev = pt \<and> ev_Status ev = st) acc
   \<and> mx_HoneyTokenTriggers mx = mx_HoneyTokenTriggers mx0 + number triggers_token acc
   \<and> mget0 0 (mx_IncidentsCreated mx) [sev] = mget0 0 (mx_IncidentsCreated mx0) [sev]
       + number (\<lambda>ev. opens_incident ev \<and> ev_Severity ev = sev) acc
   \<and> mx_ActiveAlerts mx = mx_ActiveAlerts mx0 + sum_list (map (\<lambda>ev. firing (Sign mac sg ev) rules) acc)"
  using assms
proof (induction evs arbitrary: p)
  case Nil
  show ?case by (simp add: process_all_def accepted_def rejected_def)
next
  case (Cons x evs)
  obtain env ev where x: "x = (env, ev)" by fastforce
  obtain p1 fx where run: "Process mac marshal env ev p = (p1, fx)" by fastforce
  have keep: "pr_validator p1 \<noteq> None" "pr_signer p1 = Some sg" using Process_keeps [OF run] Cons.prems by simp_all
  have all: "process_all mac marshal (x # evs) p = process_all mac marshal evs p1"
    by (simp add: x process_all_Cons run)
  show ?case
  proof (cases "Validate (enrich env ev)")
    case (Some err)
    then have p1: "p1 = reject_step marshal env (enrich env ev) err p"
      using run Cons.prems(1) by (auto simp: Process_def rejection_def Let_def split: option.splits)
    have "am_rules (pr_alerts p1) = rules" "pr_metrics p1 = (pr_metrics p)\<lparr>mx_EventsRejected := mx_EventsRejected (pr_metrics p) + 1\<rparr>"
      using p1 Cons.prems by (auto simp: reject_step_def Reject_def Let_def)
    moreover have "accepted (x # evs) = accepted evs" "rejected (x # evs) = (enrich env ev, err) # rejected evs"
      using Some by (simp_all add: x accepted_def rejected_def)
    ultimately show ?thesis using Cons.IH [OF keep] unfolding all by (simp add: Let_def)
  next
    case None
    then have p1: "p1 = fst (accept_step mac env (enrich env ev) p)"
      using run by (auto simp: Process_def rejection_def Let_def split: option.splits)
    have mx: "pr_metrics p1 = accepted_metrics rules (env_took env) (Sign mac sg (enrich env ev)) (pr_metrics p)"
        "am_rules (pr_alerts p1) = rules"
      using accept_step_metrics [of mac env "enrich env ev" p] Cons.prems by (simp_all add: p1 sign_stage_def)
    have lists: "accepted (x # evs) = enrich env ev # accepted evs" "rejected (x # evs) = rejected evs"
      using None by (simp_all add: x accepted_def rejected_def)
    show ?thesis
      using Cons.IH [OF keep mx(2)] unfolding all lists Let_def mx(1)
      by (elim conjE, intro conjI) (auto simp: accepted_metrics_def vec_get bump_get)
  qed
qed

text \<open>
  C25: the counters count. After any run of the processor from start-up: the rejection counter is the
  number of events rejected; received and processed agree and count the valid events only, by
  module and type; the duration histogram has one observation for each; pipeline requests, triggers,
  incidents and firing alerts are those of the valid events. So \<open>tracker_events_received_total\<close> is not
  the total of events received, as its help text says: what is rejected is not in it.
\<close>

theorem counters_count_valid_events:
  "let mx = pr_metrics (process_all mac marshal evs (tracker_init n rules secret)); acc = accepted evs in
     mx_EventsRejected mx = int (length (rejected evs))
   \<and> mget0 0 (mx_EventsReceived mx) [m, t] = number (\<lambda>ev. ev_Module ev = m \<and> ev_EventType ev = t) acc
   \<and> mget0 0 (mx_EventsProcessed mx) [m] = number (\<lambda>ev. ev_Module ev = m) acc
   \<and> int (length (mget0 [] (mx_ProcessingDuration mx) [m])) = number (\<lambda>ev. ev_Module ev = m) acc
   \<and> mget0 0 (mx_PipelineRequests mx) [pt, st] = number (\<lambda>ev. pt \<noteq> [] \<and> ev_PipelineType ev = pt \<and> ev_Status ev = st) acc
   \<and> mx_HoneyTokenTriggers mx = number triggers_token acc
   \<and> mget0 0 (mx_IncidentsCreated mx) [sev] = number (\<lambda>ev. opens_incident ev \<and> ev_Severity ev = sev) acc
   \<and> mx_ActiveAlerts mx = sum_list (map (\<lambda>ev. firing (Sign mac (Signer_New secret) ev) rules) acc)"
proof -
  let ?p = "tracker_init n rules secret"
  have "pr_validator ?p \<noteq> None" "pr_signer ?p = Some (Signer_New secret)" "am_rules (pr_alerts ?p) = rules" "pr_metrics ?p = zero_metrics"
    by (simp_all add: tracker_init_def SetValidator_def SetSigner_def Processor_New_def)
  then show ?thesis
    using run_metrics [of ?p "Signer_New secret" rules mac marshal evs m t pt st sev]
    by (simp add: zero_metrics_def mget0_def Let_def)
qed

end
