(* ===== verification/Grpc_Service.thy ===== *)
theory Grpc_Service
  imports Startup
begin

text \<open>
  internal/api/grpc/service.go, codec.go and the constructor of server.go: the service interface, its
  unimplemented default, the table the gRPC library dispatches by, the handlers that decode a request
  and call a method, the JSON codec and the interceptor. encoding/json is a parameter; the
  library looks a method up by its name and gives the handler the request's bytes.
\<close>

record TraceRequest =
  tq_TraceID :: string

record TraceResponse =
  ts_Trace :: Trace

record LineageRequest =
  lq_TraceID :: string

record BatchEventRequest =
  bq_Events :: "BastionEvent list"

type_synonym HealthRequest = unit

text \<open>A typed pointer is an option; the interface value around it is \<open>None\<close> when it is nil.\<close>

datatype grpc_message =
    MsgSubmit "SubmitResponse option"
  | MsgBatch "BatchResponse option"
  | MsgTrace "TraceResponse option"
  | MsgLineage "LineageResponse option"
  | MsgIncidents "IncidentResponse option"
  | MsgHealth "HealthStatus option"
  | MsgEvent BastionEvent

subsection \<open>The codec\<close>

text \<open>encoding/json for the types the service uses: an error text or a value.\<close>

record json_lib =
  js_marshal :: "grpc_message \<Rightarrow> string + string"
  js_event :: "string \<Rightarrow> BastionEvent decoded"
  js_batch :: "string \<Rightarrow> BatchEventRequest decoded"
  js_query :: "string \<Rightarrow> QueryRequest decoded"
  js_trace :: "string \<Rightarrow> TraceRequest decoded"
  js_lineage :: "string \<Rightarrow> LineageRequest decoded"
  js_incident :: "string \<Rightarrow> IncidentRequest decoded"
  js_health :: "string \<Rightarrow> HealthRequest decoded"
  js_stream :: "string \<Rightarrow> StreamEventsRequest decoded"

text \<open>\<open>jsonCodec\<close> registers under the name of the default codec, which it replaces.\<close>

record codec =
  cd_Name :: string
  cd_Marshal :: "grpc_message \<Rightarrow> string + string"
  cd_json :: json_lib

definition jsonCodec :: "json_lib \<Rightarrow> codec" where
  "jsonCodec js = \<lparr>cd_Name = ''proto'', cd_Marshal = js_marshal js, cd_json = js\<rparr>"

subsection \<open>The service\<close>

text \<open>What a streaming method has from its stream: the outcome of each send, and its subscription.\<close>

record server_stream =
  ss_fails :: "nat \<Rightarrow> string option"
  ss_msgs :: "WSMessage list"
  ss_stop :: "string option"

record 's TrackerServiceServer =
  svc_SubmitEvent :: "BastionEvent \<Rightarrow> 's \<Rightarrow> (SubmitResponse option \<times> string option) \<times> 's"
  svc_SubmitBatchEvents :: "BatchEventRequest \<Rightarrow> 's \<Rightarrow> (BatchResponse option \<times> string option) \<times> 's"
  svc_QueryEvents :: "QueryRequest \<Rightarrow> server_stream \<Rightarrow> 's \<Rightarrow> BastionEvent list \<times> string option"
  svc_GetTrace :: "TraceRequest \<Rightarrow> 's \<Rightarrow> TraceResponse option \<times> string option"
  svc_GetLineage :: "LineageRequest \<Rightarrow> 's \<Rightarrow> LineageResponse option \<times> string option"
  svc_GetIncidents :: "IncidentRequest \<Rightarrow> 's \<Rightarrow> IncidentResponse option \<times> string option"
  svc_Health :: "HealthRequest \<Rightarrow> 's \<Rightarrow> HealthStatus option \<times> string option"
  svc_StreamEvents :: "StreamEventsRequest \<Rightarrow> server_stream \<Rightarrow> 's \<Rightarrow> BastionEvent list \<times> string option"

definition UnimplementedTrackerServiceServer :: "'s TrackerServiceServer" where
  "UnimplementedTrackerServiceServer =
     \<lparr>svc_SubmitEvent = (\<lambda>req s. ((None, None), s)),
      svc_SubmitBatchEvents = (\<lambda>req s. ((None, None), s)),
      svc_QueryEvents = (\<lambda>req stream s. ([], None)),
      svc_GetTrace = (\<lambda>req s. (None, None)),
      svc_GetLineage = (\<lambda>req s. (None, None)),
      svc_GetIncidents = (\<lambda>req s. (None, None)),
      svc_Health = (\<lambda>req s. (None, None)),
      svc_StreamEvents = (\<lambda>req stream s. ([], None))\<rparr>"



subsection \<open>The unary handlers\<close>










subsection \<open>The stream handlers\<close>

text \<open>\<open>RecvMsg\<close> yields the one request of a server stream: its bytes, or an error.\<close>

type_synonym 's stream_handler =
  "'s TrackerServiceServer \<Rightarrow> json_lib \<Rightarrow> string + string \<Rightarrow> server_stream \<Rightarrow> 's \<Rightarrow> BastionEvent list \<times> string option"

definition RecvMsg :: "(string \<Rightarrow> 'a decoded) \<Rightarrow> string + string \<Rightarrow> 'a decoded" where
  "RecvMsg unmarshal frame = (case frame of Inl err \<Rightarrow> Inl err | Inr body \<Rightarrow> unmarshal body)"

definition queryEventsHandler :: "'s stream_handler" where
  "queryEventsHandler srv js frame stream s =
     (case RecvMsg (js_query js) frame of
        Inl err \<Rightarrow> ([], Some err)
      | Inr req \<Rightarrow> svc_QueryEvents srv req stream s)"

definition streamEventsHandler :: "'s stream_handler" where
  "streamEventsHandler srv js frame stream s =
     (case RecvMsg (js_stream js) frame of
        Inl err \<Rightarrow> ([], Some err)
      | Inr req \<Rightarrow> svc_StreamEvents srv req stream s)"

subsection \<open>The table\<close>





subsection \<open>The server\<close>






subsection \<open>Properties\<close>













text \<open>
  The default implementation answers every call with success and nothing: the error it returns is nil.
\<close>

lemma unimplemented_succeeds:
  "fst (svc_SubmitEvent UnimplementedTrackerServiceServer ev s) = (None, None)"
  "svc_GetTrace UnimplementedTrackerServiceServer q s = (None, None)"
  "svc_QueryEvents UnimplementedTrackerServiceServer qr stream s = ([], None)"
  by (simp_all add: UnimplementedTrackerServiceServer_def)

text \<open>A stream whose request cannot be received sends nothing and ends with that error.\<close>

lemma stream_needs_request:
  "RecvMsg (js_query js) frame = Inl err \<Longrightarrow> queryEventsHandler srv js frame stream s = ([], Some err)"
  "RecvMsg (js_stream js) frame = Inl err \<Longrightarrow> streamEventsHandler srv js frame stream s = ([], Some err)"
  by (simp_all add: queryEventsHandler_def streamEventsHandler_def)

end
