(* ===== verification/Gateway.thy ===== *)
theory Gateway
  imports Server
begin

text \<open>
  The HTTP door of the server as a whole: a request passes the middleware of its route
  (theory Auth) before the handler that internal/api/rest/server.go registers for it runs on the tracker
  and the user manager. A request is the route it selects, with what its handler reads;
  the requests that only read are one constructor. Requests and the server's other steps
  (theory Server) interleave in any order.
\<close>

record gateway =
  gt_h :: handlers
  gt_users :: Users

text \<open>The libraries: JWT, bcrypt, HMAC, the JSON writer and the quoting of \<open>%q\<close>.\<close>

record libs =
  lb_jwt :: jwt_lib
  lb_cmp :: "string \<Rightarrow> string \<Rightarrow> bool"
  lb_gen :: "string \<Rightarrow> string + string"
  lb_mac :: "string \<Rightarrow> string \<Rightarrow> string"
  lb_marshal :: "BastionEvent \<Rightarrow> string"
  lb_quote :: "string \<Rightarrow> string"

datatype api_call =
    CallRead route
  | CallReloadConfig
  | CallLogin "nat \<Rightarrow> gotime" request "LoginRequest decoded"
  | CallRefresh "nat \<Rightarrow> gotime" request "string decoded"
  | CallSubmitEvent IngestEnv "BastionEvent decoded"
  | CallSubmitBatch "nat \<Rightarrow> IngestEnv" "BastionEvent list decoded"
  | CallCreateUser gotime "CreateUserRequest decoded"
  | CallUpdateUser gotime gotime request "UpdateUserRequest decoded"
  | CallDeleteUser request
  | CallResolveIncident gotime request "string decoded"
  | CallAcknowledgeAlert gotime request
  | CallResolveAlert gotime request
  | CallCreateHoneyToken gotime "HoneyTokenBody decoded"
  | CallDeleteHoneyToken request
  | CallReplayScenario "(string \<times> rat) decoded"
  | CallInjectEvent IngestEnv gotime "BastionEvent decoded"
  | CallStopScenario "string decoded"
  | CallStartRecording gotime string "(string \<times> string) decoded"
  | CallStopRecording gotime
  | CallSetMode "string list \<Rightarrow> string list" gotime "(string \<times> string) decoded"
  | CallDeleteSession request
  | CallAnnotateStep request "string decoded"
  | CallCreateCheckpoint gotime gotime string "CheckpointBody decoded"
  | CallDecideCheckpoint gotime request "(string \<times> string) decoded"

text \<open>The entry of \<open>routes()\<close> each handler is registered under.\<close>

fun call_route :: "api_call \<Rightarrow> route" where
  "call_route (CallRead rt) = rt"
| "call_route CallReloadConfig = POST ''/v1/config/reload'' AdminOrOpen"
| "call_route (CallLogin clk rq body) = POST ''/v1/auth/login'' Public"
| "call_route (CallRefresh clk rq body) = POST ''/v1/auth/refresh'' AnyToken"
| "call_route (CallSubmitEvent env body) = POST ''/v1/events'' OperatorOrOpen"
| "call_route (CallSubmitBatch envs body) = POST ''/v1/events/batch'' OperatorOrOpen"
| "call_route (CallCreateUser now body) = POST ''/v1/users'' AdminOrOpen"
| "call_route (CallUpdateUser now now2 rq body) = PATCH ''/v1/users/{name}'' AdminOrOpen"
| "call_route (CallDeleteUser rq) = DELETE ''/v1/users/{name}'' AdminOrOpen"
| "call_route (CallResolveIncident now rq body) = POST ''/v1/security/incidents/{id}/resolve'' OperatorOrOpen"
| "call_route (CallAcknowledgeAlert now rq) = POST ''/v1/alerts/{id}/acknowledge'' OperatorOrOpen"
| "call_route (CallResolveAlert now rq) = POST ''/v1/alerts/{id}/resolve'' OperatorOrOpen"
| "call_route (CallCreateHoneyToken now body) = POST ''/v1/honey-tokens'' OperatorOrOpen"
| "call_route (CallDeleteHoneyToken rq) = DELETE ''/v1/honey-tokens/{id}'' OperatorOrOpen"
| "call_route (CallReplayScenario body) = POST ''/v1/demo/replay'' OperatorOrOpen"
| "call_route (CallInjectEvent env now body) = POST ''/v1/demo/inject'' OperatorOrOpen"
| "call_route (CallStopScenario body) = POST ''/v1/demo/stop'' OperatorOrOpen"
| "call_route (CallStartRecording now stamp body) = POST ''/v1/demo/record/start'' OperatorOrOpen"
| "call_route (CallStopRecording now) = POST ''/v1/demo/record/stop'' OperatorOrOpen"
| "call_route (CallSetMode ord now body) = POST ''/v1/monitor/mode'' OperatorOrOpen"
| "call_route (CallDeleteSession rq) = DELETE ''/v1/monitor/sessions/{session_id}'' OperatorOrOpen"
| "call_route (CallAnnotateStep rq body) = POST ''/v1/monitor/sessions/{session_id}/steps/{step_id}/annotate'' OperatorOrOpen"
| "call_route (CallCreateCheckpoint now now2 cid body) = POST ''/v1/monitor/checkpoints'' OperatorOrOpen"
| "call_route (CallDecideCheckpoint now rq body) = POST ''/v1/monitor/checkpoints/{checkpoint_id}/decide'' OperatorOrOpen"

definition on_h :: "(handlers \<Rightarrow> handlers option) \<Rightarrow> gateway \<Rightarrow> gateway option" where
  "on_h f g = map_option (\<lambda>h. g\<lparr>gt_h := h\<rparr>) (f (gt_h g))"

definition on_users :: "(Users \<Rightarrow> Users) \<Rightarrow> gateway \<Rightarrow> gateway option" where
  "on_users f g = Some (g\<lparr>gt_users := f (gt_users g)\<rparr>)"

text \<open>What the handler of a request leaves, run with the context the middleware made; \<open>None\<close> is a handler that blocks for ever.\<close>

fun call_run :: "libs \<Rightarrow> AuthConfig option \<Rightarrow> go_context \<Rightarrow> api_call \<Rightarrow> gateway \<Rightarrow> gateway option" where
  "call_run L cfg ctx (CallRead rt) g = Some g"
| "call_run L cfg ctx CallReloadConfig g = Some g"
| "call_run L cfg ctx (CallLogin clk rq body) g =
     on_h (\<lambda>h. Some (fst (on_store (\<lambda>s. prod.swap (Login (lb_jwt L) (lb_cmp L) clk cfg (gt_users g) rq body s)) h))) g"
| "call_run L cfg ctx (CallRefresh clk rq body) g =
     on_h (\<lambda>h. Some (fst (on_store (\<lambda>s. prod.swap (RefreshToken_handler (lb_jwt L) clk cfg rq body s)) h))) g"
| "call_run L cfg ctx (CallSubmitEvent env body) g = on_h (\<lambda>h. Some (snd (SubmitEvent (lb_mac L) (lb_marshal L) env body h))) g"
| "call_run L cfg ctx (CallSubmitBatch envs body) g = on_h (\<lambda>h. Some (snd (SubmitBatch (lb_mac L) (lb_marshal L) envs body h))) g"
| "call_run L cfg ctx (CallCreateUser now body) g = on_users (\<lambda>us. snd (CreateUser (lb_gen L) now body us)) g"
| "call_run L cfg ctx (CallUpdateUser now now2 rq body) g = on_users (\<lambda>us. snd (UpdateUser (lb_gen L) now now2 rq body us)) g"
| "call_run L cfg ctx (CallDeleteUser rq) g = on_users (\<lambda>us. snd (DeleteUser rq us)) g"
| "call_run L cfg ctx (CallResolveIncident now rq body) g = on_h (\<lambda>h. Some (snd (ResolveIncident now rq body h))) g"
| "call_run L cfg ctx (CallAcknowledgeAlert now rq) g = on_h (\<lambda>h. Some (snd (AcknowledgeAlert_handler now rq h))) g"
| "call_run L cfg ctx (CallResolveAlert now rq) g = on_h (\<lambda>h. Some (snd (ResolveAlert_handler now rq h))) g"
| "call_run L cfg ctx (CallCreateHoneyToken now body) g = on_h (\<lambda>h. Some (snd (CreateHoneyToken now body h))) g"
| "call_run L cfg ctx (CallDeleteHoneyToken rq) g = on_h (\<lambda>h. Some (snd (DeleteHoneyToken rq h))) g"
| "call_run L cfg ctx (CallReplayScenario body) g = on_h (\<lambda>h. Some (snd (ReplayScenario (lb_quote L) body h))) g"
| "call_run L cfg ctx (CallInjectEvent env now body) g =
     on_h (\<lambda>h. Some (snd (InjectEvent (lb_mac L) (lb_marshal L) env now body h))) g"
| "call_run L cfg ctx (CallStopScenario body) g = on_h (\<lambda>h. Some (snd (StopScenario body h))) g"
| "call_run L cfg ctx (CallStartRecording now stamp body) g = on_h (\<lambda>h. Some (snd (StartRecording now stamp body h))) g"
| "call_run L cfg ctx (CallStopRecording now) g = on_h (\<lambda>h. Some (snd (StopRecording now h))) g"
| "call_run L cfg ctx (CallSetMode ord now body) g = on_h (\<lambda>h. map_option snd (MonitorSetMode ord now body h)) g"
| "call_run L cfg ctx (CallDeleteSession rq) g = on_h (\<lambda>h. Some (snd (MonitorDeleteSession rq h))) g"
| "call_run L cfg ctx (CallAnnotateStep rq body) g = on_h (\<lambda>h. Some (snd (MonitorAnnotateStep rq body h))) g"
| "call_run L cfg ctx (CallCreateCheckpoint now now2 cid body) g =
     on_h (\<lambda>h. Some (snd (MonitorCreateCheckpoint now now2 cid body h))) g"
| "call_run L cfg ctx (CallDecideCheckpoint now rq body) g = on_h (\<lambda>h. map_option snd (MonitorDecideCheckpoint now ctx rq body h)) g"

text \<open>A request: when it comes, its origin and authorization headers, and the call.\<close>

record api_request =
  aq_now :: gotime
  aq_origin :: string
  aq_auth :: string
  aq_call :: api_call

definition handle_request :: "libs \<Rightarrow> AuthConfig option \<Rightarrow> string list \<Rightarrow> api_request \<Rightarrow> gateway \<Rightarrow> gateway option" where
  "handle_request L cfg allowed rq g =
     (let rt = call_route (aq_call rq)
      in case snd (serve (lb_jwt L) (aq_now rq) cfg allowed (aq_origin rq) (rt_method rt) (aq_auth rq) rt) of
           Invoke ctx \<Rightarrow> call_run L cfg ctx (aq_call rq) g
         | Denied status msg \<Rightarrow> Some g
         | Preflight \<Rightarrow> Some g)"

fun handle_all :: "libs \<Rightarrow> AuthConfig option \<Rightarrow> string list \<Rightarrow> api_request list \<Rightarrow> gateway \<Rightarrow> gateway option" where
  "handle_all L cfg allowed [] g = Some g"
| "handle_all L cfg allowed (rq # rqs) g = Option.bind (handle_request L cfg allowed rq g) (handle_all L cfg allowed rqs)"

subsection \<open>The routes\<close>

text \<open>Every entry of the table that is not a read belongs to one of the calls, and to its guard.\<close>

definition write_routes :: "route list" where
  "write_routes = filter (\<lambda>rt. rt_method rt \<notin> {''GET'', ''*''}) all_routes"

lemma write_routes_eq:
  "write_routes =
     [POST ''/v1/auth/login'' Public, POST ''/v1/events'' OperatorOrOpen, POST ''/v1/events/batch'' OperatorOrOpen,
      POST ''/v1/auth/refresh'' AnyToken, POST ''/v1/users'' AdminOrOpen, PATCH ''/v1/users/{name}'' AdminOrOpen,
      DELETE ''/v1/users/{name}'' AdminOrOpen, POST ''/v1/security/incidents/{id}/resolve'' OperatorOrOpen,
      POST ''/v1/alerts/{id}/acknowledge'' OperatorOrOpen, POST ''/v1/honey-tokens'' OperatorOrOpen,
      DELETE ''/v1/honey-tokens/{id}'' OperatorOrOpen, POST ''/v1/alerts/{id}/resolve'' OperatorOrOpen,
      POST ''/v1/demo/replay'' OperatorOrOpen, POST ''/v1/demo/inject'' OperatorOrOpen, POST ''/v1/demo/stop'' OperatorOrOpen,
      POST ''/v1/demo/record/start'' OperatorOrOpen, POST ''/v1/demo/record/stop'' OperatorOrOpen,
      POST ''/v1/config/reload'' AdminOrOpen, POST ''/v1/monitor/mode'' OperatorOrOpen,
      DELETE ''/v1/monitor/sessions/{session_id}'' OperatorOrOpen,
      POST ''/v1/monitor/sessions/{session_id}/steps/{step_id}/annotate'' OperatorOrOpen,
      POST ''/v1/monitor/checkpoints/{checkpoint_id}/decide'' OperatorOrOpen,
      POST ''/v1/monitor/checkpoints'' OperatorOrOpen]"
  by (simp add: write_routes_def all_routes_def public_routes_def protected_routes_def GET_def POST_def PATCH_def DELETE_def)

definition is_read :: "api_call \<Rightarrow> bool" where
  "is_read call = (case call of CallRead rt \<Rightarrow> True | _ \<Rightarrow> False)"

lemma write_calls: "\<not> is_read call \<Longrightarrow> call_route call \<in> set write_routes"
  unfolding write_routes_eq
  by (cases call) (simp_all only: is_read_def call_route.simps api_call.simps list.set insert_iff simp_thms)

lemma write_routes_covered: "rt \<in> set write_routes \<Longrightarrow> \<exists>call. \<not> is_read call \<and> call_route call = rt"
proof -
  let ?rq = "\<lparr>rq_query = [], rq_param = (\<lambda>k. []), rq_remote = []\<rparr>"
  let ?calls = "[CallLogin (\<lambda>n. 0) ?rq (Inl []), CallSubmitEvent undefined (Inl []), CallSubmitBatch undefined (Inl []),
    CallRefresh (\<lambda>n. 0) ?rq (Inl []), CallCreateUser 0 (Inl []), CallUpdateUser 0 0 ?rq (Inl []), CallDeleteUser ?rq,
    CallResolveIncident 0 ?rq (Inl []), CallAcknowledgeAlert 0 ?rq, CallCreateHoneyToken 0 (Inl []), CallDeleteHoneyToken ?rq,
    CallResolveAlert 0 ?rq, CallReplayScenario (Inl []), CallInjectEvent undefined 0 (Inl []), CallStopScenario (Inl []),
    CallStartRecording 0 [] (Inl []), CallStopRecording 0, CallReloadConfig, CallSetMode id 0 (Inl []), CallDeleteSession ?rq,
    CallAnnotateStep ?rq (Inl []), CallDecideCheckpoint 0 ?rq (Inl []), CallCreateCheckpoint 0 0 [] (Inl [])]"
  have "map call_route ?calls = write_routes" unfolding write_routes_eq list.map call_route.simps by (rule refl)
  moreover have "list_all (\<lambda>call. \<not> is_read call) ?calls"
    by (simp only: list.pred_inject is_read_def api_call.simps simp_thms)
  moreover assume "rt \<in> set write_routes"
  ultimately have "rt \<in> call_route ` set ?calls" by (simp only: set_map [symmetric])
  then obtain call where "call \<in> set ?calls" "call_route call = rt" by (rule imageE) (rule that, assumption, rule sym)
  then show ?thesis using \<open>list_all (\<lambda>call. \<not> is_read call) ?calls\<close> unfolding list_all_iff by blast
qed

subsection \<open>Who may do what\<close>

text \<open>A request is authorised when its route is open, or it has a valid token of the level of the route.\<close>

definition token_claims :: "libs \<Rightarrow> AuthConfig \<Rightarrow> api_request \<Rightarrow> Claims option" where
  "token_claims L c rq =
     (case CutPrefix (aq_auth rq) ''Bearer '' of
        None \<Rightarrow> None
      | Some tok \<Rightarrow> (case ValidateToken (lb_jwt L) (aq_now rq) tok (au_JWTSecret c) of
                      Inl err \<Rightarrow> None
                    | Inr claims \<Rightarrow> Some claims))"

definition authorised :: "libs \<Rightarrow> AuthConfig \<Rightarrow> api_request \<Rightarrow> bool" where
  "authorised L c rq =
     (let g = rt_guard (call_route (aq_call rq))
      in g = Public \<or> (case token_claims L c rq of None \<Rightarrow> False | Some claims \<Rightarrow> guard_level g \<le> RoleLevel (cl_Role claims)))"

lemma token_claims_Some:
  "token_claims L c rq = Some claims \<longleftrightarrow>
     (\<exists>tok. aq_auth rq = bearer tok \<and> ValidateToken (lb_jwt L) (aq_now rq) tok (au_JWTSecret c) = Inr claims)"
  by (auto simp: token_claims_def cut_bearer [symmetric] split: option.split sum.split)

lemma guarded_authorised:
  assumes "au_Enabled c"
  shows "(\<exists>ctx. guarded (lb_jwt L) (aq_now rq) (Some c) (rt_guard (call_route (aq_call rq))) (aq_auth rq) = Invoke ctx)
    \<longleftrightarrow> authorised L c rq"
proof (cases "rt_guard (call_route (aq_call rq)) = Public")
  case False
  have "(\<exists>ctx tok claims. aq_auth rq = bearer tok \<and> ValidateToken (lb_jwt L) (aq_now rq) tok (au_JWTSecret c) = Inr claims
      \<and> ctx = claims_context claims \<and> n \<le> RoleLevel (cl_Role claims))
    \<longleftrightarrow> (\<exists>claims. token_claims L c rq = Some claims \<and> n \<le> RoleLevel (cl_Role claims))" for n
    unfolding token_claims_Some by blast
  then show ?thesis
    unfolding guarded_on [OF assms False] authorised_def Let_def using False by (simp split: option.split)
qed (simp add: authorised_def)

lemma handle_request_denied:
  assumes "au_Enabled c" and "\<not> authorised L c rq"
  shows "handle_request L (Some c) allowed rq g = Some g"
proof -
  let ?rt = "call_route (aq_call rq)"
  have "snd (serve (lb_jwt L) (aq_now rq) (Some c) allowed (aq_origin rq) (rt_method ?rt) (aq_auth rq) ?rt) \<noteq> Invoke ctx" for ctx
    using guarded_authorised [OF assms(1), of L rq] assms(2) unfolding serve_Invoke by blast
  then show ?thesis by (simp add: handle_request_def Let_def split: outcome.split)
qed

lemma handle_request_cases:
  "handle_request L cfg allowed rq g = Some g
   \<or> (\<exists>ctx. guarded (lb_jwt L) (aq_now rq) cfg (rt_guard (call_route (aq_call rq))) (aq_auth rq) = Invoke ctx
        \<and> handle_request L cfg allowed rq g = call_run L cfg ctx (aq_call rq) g)"
proof -
  let ?rt = "call_route (aq_call rq)"
  let ?out = "snd (serve (lb_jwt L) (aq_now rq) cfg allowed (aq_origin rq) (rt_method ?rt) (aq_auth rq) ?rt)"
  show ?thesis
  proof (cases ?out)
    case (Invoke ctx)
    have "guarded (lb_jwt L) (aq_now rq) cfg (rt_guard ?rt) (aq_auth rq) = Invoke ctx"
      using Invoke unfolding serve_Invoke by blast
    moreover have "handle_request L cfg allowed rq g = call_run L cfg ctx (aq_call rq) g"
      using Invoke by (simp add: handle_request_def Let_def)
    ultimately show ?thesis by blast
  qed (simp_all add: handle_request_def Let_def)
qed

text \<open>The calls below a role, and what they can touch.\<close>

definition trail_equal :: "handlers \<Rightarrow> handlers \<Rightarrow> bool" where
  "trail_equal h h' \<longleftrightarrow> (\<exists>evs. h' = h\<lparr>h_proc := (h_proc h)\<lparr>pr_store := fold RecordLogin evs (pr_store (h_proc h))\<rparr>\<rparr>)"

lemma trail_equal_login:
  "trail_equal h (fst (on_store (\<lambda>s. prod.swap (Login jwt cmp clk cfg us r body s)) h))"
  "trail_equal h (fst (on_store (\<lambda>s. prod.swap (RefreshToken_handler jwt clk cfg r tok s)) h))"
proof -
  obtain evs where "snd (Login jwt cmp clk cfg us r body (pr_store (h_proc h))) = fold RecordLogin evs (pr_store (h_proc h))"
    using trail_only(1) by blast
  then show "trail_equal h (fst (on_store (\<lambda>s. prod.swap (Login jwt cmp clk cfg us r body s)) h))"
    by (auto simp: trail_equal_def on_store_def split_beta Let_def)
  obtain evs where "snd (RefreshToken_handler jwt clk cfg r tok (pr_store (h_proc h))) = fold RecordLogin evs (pr_store (h_proc h))"
    using trail_only(2) by blast
  then show "trail_equal h (fst (on_store (\<lambda>s. prod.swap (RefreshToken_handler jwt clk cfg r tok s)) h))"
    by (auto simp: trail_equal_def on_store_def split_beta Let_def)
qed

lemma trail_equal_refl: "trail_equal h h"
  unfolding trail_equal_def by (rule exI [of _ "[]"]) simp

lemma call_effect:
  assumes "call_run L cfg ctx call g = Some g'"
  shows "rt_guard (call_route call) = AdminOrOpen
    \<or> gt_users g' = gt_users g \<and> (rt_guard (call_route call) = OperatorOrOpen \<or> trail_equal (gt_h g) (gt_h g'))"
  using assms trail_equal_login trail_equal_refl
  by (cases call) (auto simp: on_h_def on_users_def POST_def PATCH_def DELETE_def)

subsection \<open>Requests are steps of the server\<close>

text \<open>The server with its HTTP door: requests and everything else the server does, in any order.\<close>

fun call_ok :: "handlers \<Rightarrow> api_call \<Rightarrow> bool" where
  "call_ok h (CallSubmitEvent env body) = env_ok (ge_env env)"
| "call_ok h (CallSubmitBatch envs body) = (\<forall>n. env_ok (ge_env (envs n)))"
| "call_ok h (CallInjectEvent env now body) = env_ok (ge_env env)"
| "call_ok h (CallSetMode ord now body) = (\<forall>xs. mset (ord xs) = mset xs)"
| "call_ok h (CallCreateCheckpoint now now2 cid body) = (\<forall>m. h_mon h = Some m \<longrightarrow> mget (mon_checkpoints m) cid = None)"
| "call_ok h call = True"

inductive gateway_step :: "libs \<Rightarrow> Config \<Rightarrow> gateway \<Rightarrow> gateway option \<Rightarrow> bool"
  for L :: libs and cfg :: Config where
  request: "call_ok (gt_h g) (aq_call rq) \<Longrightarrow>
     gateway_step L cfg g (handle_request L (Some (cf_Auth cfg)) (sv_CORSAllowedOrigins (cf_Server cfg)) rq g)"
| inside: "server_step (lb_mac L) (lb_marshal L) (gt_h g) r \<Longrightarrow> gateway_step L cfg g (on_h (\<lambda>h. r) g)"

text \<open>\<open>rest.New\<close> seeds the user manager from the configuration.\<close>

abbreviation gateway_init :: "Config \<Rightarrow> gateway \<Rightarrow> bool" where
  "gateway_init cfg g \<equiv> server_init cfg (gt_h g) \<and> (\<exists>now. gt_users g = Users_New now (au_Users (cf_Auth cfg)))"

abbreviation gateway_reach :: "libs \<Rightarrow> Config \<Rightarrow> gateway \<Rightarrow> bool" where
  "gateway_reach L cfg \<equiv> reachable (gateway_init cfg) (gateway_step L cfg)"

lemma on_h_step:
  assumes "server_step mac marshal (gt_h g) (f (gt_h g))"
  shows "P \<or> (\<exists>r. server_step mac marshal (gt_h g) r \<and> on_h f g = on_h (\<lambda>h. r) g)"
  using assms by (intro disjI2 exI conjI) (assumption, simp add: on_h_def)

lemma on_h_Some: "on_h (\<lambda>h. r) g = Some g' \<Longrightarrow> r = Some (gt_h g')"
  by (auto simp: on_h_def)

lemma call_run_step:
  assumes "call_ok (gt_h g) call" and "guarded jwt t authCfg grd hdr = Invoke ctx"
  shows "(\<exists>g'. call_run L cfg ctx call g = Some g' \<and> gt_h g' = gt_h g)
    \<or> (\<exists>r. server_step (lb_mac L) (lb_marshal L) (gt_h g) r \<and> call_run L cfg ctx call g = on_h (\<lambda>h. r) g)"
proof (cases call)
  case (CallSubmitBatch envs body)
  then show ?thesis using assms by (simp only: call_run.simps call_ok.simps) (intro on_h_step server_step.batch)
next
  case (CallSetMode ord now body)
  then show ?thesis using assms by (simp only: call_run.simps call_ok.simps) (intro on_h_step server_step.set_mode)
next
  case (CallCreateCheckpoint now now2 cid body)
  then show ?thesis using assms by (simp only: call_run.simps call_ok.simps) (intro on_h_step server_step.create_checkpoint)
qed (use assms in \<open>auto simp: on_users_def intro!: on_h_step intro: server_step.intros\<close>)

interpretation gateway_server: simulated_system "gateway_init cfg" "gateway_step L cfg" "server_init cfg"
    "server_step (lb_mac L) (lb_marshal L)" gt_h
  for cfg L
proof unfold_locales
  show "server_reach (lb_mac L) (lb_marshal L) cfg (gt_h g)" if "gateway_init cfg g" for g
    by (rule reachable.begin_here) (use that in blast)
  show "server_reach (lb_mac L) (lb_marshal L) cfg (gt_h g')"
    if "server_reach (lb_mac L) (lb_marshal L) cfg (gt_h g)" and "gateway_step L cfg g (Some g')" for g g'
  proof -
    have next_h: "server_reach (lb_mac L) (lb_marshal L) cfg (gt_h g')"
      if "server_step (lb_mac L) (lb_marshal L) (gt_h g) r" and "on_h (\<lambda>h. r) g = Some g'" for r
      using server_next [OF \<open>server_reach (lb_mac L) (lb_marshal L) cfg (gt_h g)\<close>] that(1) on_h_Some [OF that(2)] by simp
    from that(2) show ?thesis
    proof cases
      case (request rq)
      let ?a = "Some (cf_Auth cfg)"
      consider "g' = g" | ctx where "guarded (lb_jwt L) (aq_now rq) ?a (rt_guard (call_route (aq_call rq))) (aq_auth rq) = Invoke ctx"
          "call_run L ?a ctx (aq_call rq) g = Some g'"
        using handle_request_cases [of L ?a "sv_CORSAllowedOrigins (cf_Server cfg)" rq g] request(1) by auto
      then show ?thesis
      proof cases
        case (2 ctx)
        then show ?thesis using call_run_step [OF request(2) 2(1), of L ?a] that(1) next_h by fastforce
      qed (use that(1) in simp)
    next
      case (inside r)
      then show ?thesis using next_h by simp
    qed
  qed
qed

subsection \<open>Properties\<close>

text \<open>
  C7: only staff changes the tracker. With authentication on, a run of requests ends in the state that
  it ends in when every request without a valid token of its route's level is left out. A request that changes
  the user manager carried an administrator's token; one that changes anything of the tracker but the login
  trail carried a token of an operator or administrator.
\<close>

theorem only_staff_changes_tracker:
  assumes "au_Enabled c"
  shows "handle_all L (Some c) allowed rqs g = handle_all L (Some c) allowed (filter (authorised L c) rqs) g
    \<and> (handle_request L (Some c) allowed rq g = Some g' \<longrightarrow>
        (gt_users g' = gt_users g \<or> map_option cl_Role (token_claims L c rq) = Some ''admin'')
        \<and> (trail_equal (gt_h g) (gt_h g') \<or> map_option cl_Role (token_claims L c rq) \<in> {Some ''operator'', Some ''admin''}))"
proof (intro conjI impI)
  show "handle_all L (Some c) allowed rqs g = handle_all L (Some c) allowed (filter (authorised L c) rqs) g"
  proof (induction rqs arbitrary: g)
    case (Cons rq rqs)
    show ?case
    proof (cases "authorised L c rq")
      case True
      then show ?thesis using Cons.IH by (cases "handle_request L (Some c) allowed rq g") simp_all
    qed (use Cons.IH handle_request_denied [OF assms] in simp)
  qed simp
  assume run: "handle_request L (Some c) allowed rq g = Some g'"
  let ?rt = "call_route (aq_call rq)"
  have role: "\<exists>claims. token_claims L c rq = Some claims \<and> guard_level (rt_guard ?rt) \<le> RoleLevel (cl_Role claims)"
    if "g' \<noteq> g" "rt_guard ?rt \<noteq> Public"
    using handle_request_denied [OF assms, of L rq allowed g] that run
    by (cases "authorised L c rq") (auto simp: authorised_def Let_def split: option.splits)
  have eff: "g' \<noteq> g \<Longrightarrow> rt_guard ?rt = AdminOrOpen
    \<or> gt_users g' = gt_users g \<and> (rt_guard ?rt = OperatorOrOpen \<or> trail_equal (gt_h g) (gt_h g'))"
    using handle_request_cases [of L "Some c" allowed rq g] run call_effect [of L "Some c" _ "aq_call rq" g g'] by auto
  show "gt_users g' = gt_users g \<or> map_option cl_Role (token_claims L c rq) = Some ''admin''"
    using role eff by (cases "g' = g") (auto simp: RoleLevel_def split: if_splits)
  show "trail_equal (gt_h g) (gt_h g') \<or> map_option cl_Role (token_claims L c rq) \<in> {Some ''operator'', Some ''admin''}"
    using role eff trail_equal_refl by (cases "g' = g") (auto simp: RoleLevel_def split: if_splits)
qed

text \<open>
  C8: requests from outside never break the server. Whatever requests arrive, with whatever tokens, mixed in any
  order with the server's own steps: each is answered, none blocks, and the tracker is in a state the
  server of theory Server can reach, so that everything proved of its reachable states holds.
\<close>

theorem requests_refine_server:
  assumes "mac_ok (lb_mac L)" and "gateway_reach L cfg g" and "gateway_step L cfg g r"
  shows "\<exists>g'. r = Some g' \<and> server_reach (lb_mac L) (lb_marshal L) cfg (gt_h g')
    \<and> server_inv (lb_mac L) (Signer_New (so_AuditSecret (cf_Storage cfg))) (gt_h g')"
proof -
  have h: "server_reach (lb_mac L) (lb_marshal L) cfg (gt_h g)" by (rule gateway_server.reach_view [OF assms(2)])
  have steps: "r' \<noteq> None" if "server_step (lb_mac L) (lb_marshal L) (gt_h g) r'" for r'
    using server_step_inv [OF that server_reach_inv [OF h assms(1)] assms(1)] by blast
  from assms(3) have "r \<noteq> None"
  proof cases
    case (request rq)
    let ?a = "Some (cf_Auth cfg)" and ?o = "sv_CORSAllowedOrigins (cf_Server cfg)"
    consider "r = Some g" | ctx where "guarded (lb_jwt L) (aq_now rq) ?a (rt_guard (call_route (aq_call rq))) (aq_auth rq) = Invoke ctx"
        "r = call_run L ?a ctx (aq_call rq) g"
      using handle_request_cases [of L ?a ?o rq g] request(1) by auto
    then show ?thesis
    proof cases
      case (2 ctx)
      then show ?thesis using call_run_step [OF request(2) 2(1), of L ?a] steps by (auto simp: on_h_def)
    qed simp
  next
    case (inside r')
    then show ?thesis using steps by (simp add: on_h_def)
  qed
  then obtain g' where r: "r = Some g'" by blast
  then have "server_reach (lb_mac L) (lb_marshal L) cfg (gt_h g')"
    using gateway_server.step_view [OF h] assms(3) by blast
  then show ?thesis using r server_reach_inv [OF _ assms(1)] by blast
qed

text \<open>
  What a token is worth does not depend on the user manager, and renewing it asks only for the token.
\<close>

lemma serve_allowed:
  assumes "au_Enabled c" and "authorised L c rq"
  obtains ctx where "handle_request L (Some c) allowed rq g = call_run L (Some c) ctx (aq_call rq) g"
    and "claims_of ctx = token_claims L c rq \<or> rt_guard (call_route (aq_call rq)) = Public"
proof -
  let ?rt = "call_route (aq_call rq)"
  have read: "call_run L (Some c) ctx (aq_call rq) g = Some g" if "rt_method ?rt = ''OPTIONS''" for ctx
    using that by (cases "aq_call rq") (simp_all add: POST_def PATCH_def DELETE_def)
  obtain ctx where ctx: "guarded (lb_jwt L) (aq_now rq) (Some c) (rt_guard ?rt) (aq_auth rq) = Invoke ctx"
    using guarded_authorised [OF assms(1), of L rq] assms(2) by blast
  then have run: "handle_request L (Some c) allowed rq g = call_run L (Some c) ctx (aq_call rq) g"
    using read by (auto simp: handle_request_def serve_def corsMiddleware_def Let_def)
  have "claims_of ctx = token_claims L c rq" if guard: "rt_guard ?rt \<noteq> Public"
  proof -
    obtain tok claims where tok: "aq_auth rq = bearer tok" "ValidateToken (lb_jwt L) (aq_now rq) tok (au_JWTSecret c) = Inr claims"
      and claims: "ctx = claims_context claims"
      using ctx guarded_on [OF assms(1) guard] by auto
    have "token_claims L c rq = Some claims" unfolding token_claims_Some using tok by blast
    then show ?thesis by (simp add: claims)
  qed
  then show thesis using that run by blast
qed

lemma refresh_expiry_pos: "0 < refresh_expiry c"
  by (simp add: refresh_expiry_def DefaultExpiry_def Hour_def Minute_def Second_def Let_def)

text \<open>The claims of the token that a renewal at \<open>now\<close> signs.\<close>

definition renewed_claims :: "jwt_lib \<Rightarrow> AuthConfig \<Rightarrow> Claims \<Rightarrow> gotime \<Rightarrow> Claims" where
  "renewed_claims lib c cl now =
     \<lparr>cl_UserID = cl_UserID cl, cl_Role = cl_Role cl, cl_ExpiresAt = jl_date lib (time_Add now (refresh_expiry c)),
      cl_IssuedAt = jl_date lib now, cl_Subject = cl_UserID cl\<rparr>"

lemma renewed_numeric: "numeric_dates lib (renewed_claims lib c cl now)"
  by (auto simp: numeric_dates_def renewed_claims_def)

lemma refresh_renews:
  assumes "ValidateToken lib now tok (au_JWTSecret c) = Inr cl" and "au_Enabled c"
    and "jl_sign lib (renewed_claims lib c cl now) (au_JWTSecret c) = Inr tok'"
  shows "RefreshToken_handler lib (\<lambda>i. now) (Some c) r (Inr tok) s =
     (Reply 200 \<lparr>lp_Token = tok', lp_ExpiresIn = duration_text (refresh_expiry c), lp_Role = cl_Role cl\<rparr>, s)"
  using assms refresh_expiry_pos [of c]
  by (simp add: RefreshToken_handler_def RefreshToken_def GenerateToken_def renewed_claims_def http_simps Let_def)

text \<open>
  C9: a deleted user stays in. Whoever holds a valid token and renews it before each expiry has access
  for ever with the role of the first token: every renewal succeeds and every request that role
  allows reaches its handler, in whatever state the tracker and the user manager are, so also when the user
  has been deleted or demoted. Nothing the tracker offers ends this.
\<close>

theorem deleted_user_stays_in:
  assumes "jwt_ok (lb_jwt L)" and "au_Enabled c"
    and "ValidateToken (lb_jwt L) (clk 0) tok (au_JWTSecret c) = Inr cl"
    and "\<And>n. \<exists>t. jl_sign (lb_jwt L) (renewed_claims (lb_jwt L) c cl (clk n)) (au_JWTSecret c) = Inr t"
    and "\<And>n. clk (Suc n) < jl_date (lb_jwt L) (time_Add (clk n) (refresh_expiry c))"
  shows "\<exists>toks. toks 0 = tok \<and> (\<forall>n r s allowed rq g.
      RefreshToken_handler (lb_jwt L) (\<lambda>i. clk n) (Some c) r (Inr (toks n)) s =
        (Reply 200 \<lparr>lp_Token = toks (Suc n), lp_ExpiresIn = duration_text (refresh_expiry c), lp_Role = cl_Role cl\<rparr>, s)
    \<and> (aq_auth rq = bearer (toks n) \<and> aq_now rq = clk n
        \<and> guard_level (rt_guard (call_route (aq_call rq))) \<le> RoleLevel (cl_Role cl)
       \<longrightarrow> (\<exists>ctx. handle_request L (Some c) allowed rq g = call_run L (Some c) ctx (aq_call rq) g
            \<and> (map_option cl_Role (claims_of ctx) = Some (cl_Role cl) \<or> rt_guard (call_route (aq_call rq)) = Public))))"
proof -
  let ?lib = "lb_jwt L" and ?k = "au_JWTSecret c"
  obtain sg where sg: "\<And>n. jl_sign ?lib (renewed_claims ?lib c cl (clk n)) ?k = Inr (sg n)" using assms(4) by metis
  define toks where "toks n = (case n of 0 \<Rightarrow> tok | Suc m \<Rightarrow> sg m)" for n
  define cls where "cls n = (case n of 0 \<Rightarrow> cl | Suc m \<Rightarrow> renewed_claims ?lib c cl (clk m))" for n
  have valid: "ValidateToken ?lib (clk n) (toks n) ?k = Inr (cls n)" for n
  proof (cases n)
    case (Suc m)
    then show ?thesis
      using ValidateToken_signed [OF assms(1) sg renewed_numeric] assms(5) [of m] by (simp add: toks_def cls_def) (simp add: renewed_claims_def)
  qed (use assms(3) in \<open>simp add: toks_def cls_def\<close>)
  have same: "renewed_claims ?lib c (cls n) t = renewed_claims ?lib c cl t" "cl_Role (cls n) = cl_Role cl" for n t
    by (simp_all add: cls_def renewed_claims_def split: nat.split)
  have "RefreshToken_handler ?lib (\<lambda>i. clk n) (Some c) r (Inr (toks n)) s =
      (Reply 200 \<lparr>lp_Token = toks (Suc n), lp_ExpiresIn = duration_text (refresh_expiry c), lp_Role = cl_Role cl\<rparr>, s)" for n r s
    using refresh_renews [OF valid assms(2), of n "toks (Suc n)"] sg [of n] by (simp add: same) (simp add: toks_def)
  moreover have "\<exists>ctx. handle_request L (Some c) allowed rq g = call_run L (Some c) ctx (aq_call rq) g
      \<and> (map_option cl_Role (claims_of ctx) = Some (cl_Role cl) \<or> rt_guard (call_route (aq_call rq)) = Public)"
    if "aq_auth rq = bearer (toks n)" "aq_now rq = clk n"
      "guard_level (rt_guard (call_route (aq_call rq))) \<le> RoleLevel (cl_Role cl)" for n allowed rq g
  proof -
    have tc: "token_claims L c rq = Some (cls n)" unfolding token_claims_Some using that(1,2) valid by metis
    then have "authorised L c rq" using that(3) by (simp add: authorised_def same)
    from serve_allowed [OF assms(2) this, of allowed g] show ?thesis using tc same(2) by (metis option.simps(9))
  qed
  moreover have "toks 0 = tok" by (simp add: toks_def)
  ultimately show ?thesis by blast
qed

subsection \<open>Witnesses\<close>

text \<open>A library that signs the claims of one operator; a token is the expiry in digits.\<close>

definition ops_claims :: "nat \<Rightarrow> Claims" where
  "ops_claims e = \<lparr>cl_UserID = ''bob'', cl_Role = ''operator'', cl_ExpiresAt = int e, cl_IssuedAt = int e - DefaultExpiry,
     cl_Subject = ''bob''\<rparr>"

definition ops_jwt :: jwt_lib where
  "ops_jwt =
     \<lparr>jl_sign = (\<lambda>c k. if k = ''k'' \<and> c = ops_claims (nat (cl_ExpiresAt c)) then Inr (dec (nat (cl_ExpiresAt c))) else Inl ''no''),
      jl_hmac = (\<lambda>t. True), jl_date = (\<lambda>t. t),
      jl_parse = (\<lambda>now t k. if k = Some ''k'' \<and> now < int (undec t) then Inr (ops_claims (undec t), True) else Inl ''bad token'')\<rparr>"

lemma ops_jwt_ok: "jwt_ok ops_jwt"
proof -
  have "int (nat (cl_ExpiresAt c)) = cl_ExpiresAt c" if "c = ops_claims (nat (cl_ExpiresAt c))" for c
    using that by (metis Claims.select_convs(3) ops_claims_def)
  then show ?thesis by (auto simp: jwt_ok_def numeric_dates_def ops_jwt_def)
qed

definition ops_libs :: libs where
  "ops_libs = \<lparr>lb_jwt = ops_jwt, lb_cmp = (\<lambda>h p. False), lb_gen = (\<lambda>p. Inl []), lb_mac = toy_mac, lb_marshal = demo_raw,
     lb_quote = id\<rparr>"

definition ops_start :: gateway where
  "ops_start = \<lparr>gt_h = demo_server, gt_users = Users_New 5 (au_Users (cf_Auth Defaults))\<rparr>"

definition ops_request :: "string \<Rightarrow> api_request" where
  "ops_request tok = \<lparr>aq_now = 10, aq_origin = [], aq_auth = bearer tok, aq_call = CallSubmitEvent demo_ingest (Inr zero_event)\<rparr>"

lemma ops_start_reach: "gateway_reach ops_libs Defaults ops_start"
  by (rule reachable.begin_here) (auto simp: ops_start_def demo_server_def)

lemma only_staff_changes_tracker_witness:
  "handle_all ops_libs (Some demo_auth) [] [ops_request ''5'', ops_request ''20''] ops_start =
     handle_all ops_libs (Some demo_auth) [] [ops_request ''20''] ops_start"
proof -
  have en: "au_Enabled demo_auth" by (simp add: demo_auth_def)
  have "\<not> authorised ops_libs demo_auth (ops_request ''5'')" "authorised ops_libs demo_auth (ops_request ''20'')" by code_simp+
  then have "filter (authorised ops_libs demo_auth) [ops_request ''5'', ops_request ''20''] = [ops_request ''20'']" by simp
  with only_staff_changes_tracker [OF en, of ops_libs "[]" "[ops_request ''5'', ops_request ''20'']" ops_start
      "ops_request ''5''" ops_start]
  show ?thesis by simp
qed

lemma requests_refine_server_witness:
  "handle_request ops_libs (Some (cf_Auth Defaults)) [] (ops_request []) ops_start \<noteq> None"
proof -
  have mac: "mac_ok (lb_mac ops_libs)" by (simp add: ops_libs_def toy_mac_ok)
  have "call_ok (gt_h ops_start) (aq_call (ops_request []))" by (simp add: ops_request_def demo_ingest_ok)
  from requests_refine_server [OF mac ops_start_reach gateway_step.request [where L = ops_libs and cfg = Defaults, OF this]]
  show ?thesis by (auto simp: Defaults_def)
qed

lemma deleted_user_stays_in_witness:
  "\<exists>toks. toks (0::nat) = dec 100 \<and> (\<forall>n allowed g. \<exists>ctx.
     handle_request ops_libs (Some demo_auth) allowed (ops_request ''20''\<lparr>aq_now := int n, aq_auth := bearer (toks n)\<rparr>)
       (g\<lparr>gt_users := []\<rparr>) = call_run ops_libs (Some demo_auth) ctx (aq_call (ops_request ''20'')) (g\<lparr>gt_users := []\<rparr>))"
proof -
  have en: "au_Enabled demo_auth" by (simp add: demo_auth_def)
  have ok: "jwt_ok (lb_jwt ops_libs)" by (simp add: ops_libs_def ops_jwt_ok)
  have e: "refresh_expiry demo_auth = DefaultExpiry" by code_simp
  have "ValidateToken (lb_jwt ops_libs) (int 0) (dec 100) (au_JWTSecret demo_auth) = Inr (ops_claims 100)"
    by (simp add: ValidateToken_def ops_libs_def ops_jwt_def demo_auth_def)
  moreover have "\<exists>t. jl_sign (lb_jwt ops_libs) (renewed_claims (lb_jwt ops_libs) demo_auth (ops_claims 100) (int n)) (au_JWTSecret demo_auth) = Inr t" for n
    by (simp add: ops_libs_def ops_jwt_def demo_auth_def [THEN arg_cong, of au_JWTSecret] renewed_claims_def e ops_claims_def time_Add_def)
      (simp add: DefaultExpiry_def Hour_def Minute_def Second_def)
  moreover have "int (Suc n) < jl_date (lb_jwt ops_libs) (time_Add (int n) (refresh_expiry demo_auth))" for n
    by (simp add: e ops_libs_def ops_jwt_def time_Add_def DefaultExpiry_def Hour_def Minute_def Second_def)
  ultimately obtain toks where "toks 0 = dec 100" and
    acc: "\<And>n rq g allowed. aq_auth rq = bearer (toks n) \<and> aq_now rq = int n
        \<and> guard_level (rt_guard (call_route (aq_call rq))) \<le> RoleLevel (cl_Role (ops_claims 100))
       \<Longrightarrow> \<exists>ctx. handle_request ops_libs (Some demo_auth) allowed rq g = call_run ops_libs (Some demo_auth) ctx (aq_call rq) g"
    using deleted_user_stays_in [OF ok en, of int "dec 100" "ops_claims 100"] by metis
  moreover have "\<exists>ctx. handle_request ops_libs (Some demo_auth) allowed (ops_request ''20''\<lparr>aq_now := int n, aq_auth := bearer (toks n)\<rparr>)
       (g\<lparr>gt_users := []\<rparr>) = call_run ops_libs (Some demo_auth) ctx (aq_call (ops_request ''20'')) (g\<lparr>gt_users := []\<rparr>)" for n allowed g
    using acc [of "ops_request ''20''\<lparr>aq_now := int n, aq_auth := bearer (toks n)\<rparr>" n allowed "g\<lparr>gt_users := []\<rparr>"]
    by (simp add: ops_request_def ops_claims_def POST_def RoleLevel_def)
  ultimately show ?thesis by blast
qed

end
