(* ===== verification/Lifecycle.thy ===== *)
theory Lifecycle
  imports Startup
begin

text \<open>
  From the listeners to the end of the process: the last part of \<open>runServer\<close> and \<open>runDemoServer\<close>
  (cmd/tracker-cli/main.go), the \<open>Start\<close> methods of internal/api/rest/server.go and
  internal/api/grpc/server.go and \<open>Close\<close> of the NATS collector. The main goroutine and the two
  servers are a transition system; a send on an error channel that would block for ever is
  \<open>None\<close>. Listening itself is a step that may fail with any error at any time, requests are counted.
  \<open>Close\<close> makes the calls of \<open>Drain\<close> one after the other; such a call only begins the draining, and a step of its own,
  which may come at any later time or never, is its completion in the NATS library. The process ends with its main goroutine.
\<close>

datatype api = Rest | Grpc

text \<open>Where \<open>Start\<close> is: its select, the graceful stop, about to return, gone after the send.\<close>

datatype server_pc = ServerSelect | ServerStopping | ServerReturning "string option" | ServerEnded

record api_server =
  as_pc :: server_pc
  as_errCh :: "string chan"
  as_listening :: bool
  as_inflight :: nat

text \<open>\<open>Close\<close> of the collector: the calls it makes on the NATS library, in their order.\<close>

datatype nats_call = DrainSubscription string | DrainConnection

definition Collector_Close :: "NATSCollector \<Rightarrow> nats_call list" where
  "Collector_Close c = map DrainSubscription (nt_subs c) @ [DrainConnection]"

text \<open>Where \<open>runServer\<close> is: its select, before the cancel, in \<open>Close\<close> with the calls still to make, returned.\<close>

datatype main_pc = MainSelect | MainCancel "string option" | MainClose "string option" "nats_call list" | MainReturned "string option"

record process_state =
  ps_main :: main_pc
  ps_cancelled :: bool
  ps_signalled :: bool
  ps_errCh :: "string option chan"
  ps_collector :: "NATSCollector option"
  ps_begun :: "nats_call list"
  ps_drained :: "nats_call list"
  ps_servers :: "api \<Rightarrow> api_server option"
  ps_failures :: "string list"

definition start_server :: api_server where
  "start_server = \<lparr>as_pc = ServerSelect, as_errCh = make_chan 1, as_listening = True, as_inflight = 0\<rparr>"

definition runServer_process :: "NATSCollector option \<Rightarrow> process_state" where
  "runServer_process col = \<lparr>ps_main = MainSelect, ps_cancelled = False, ps_signalled = False, ps_errCh = make_chan 2,
     ps_collector = col, ps_begun = [], ps_drained = [],
     ps_servers = (\<lambda>a. Some start_server), ps_failures = []\<rparr>"

definition runDemoServer_process :: process_state where
  "runDemoServer_process = \<lparr>ps_main = MainSelect, ps_cancelled = False, ps_signalled = False, ps_errCh = make_chan 1,
     ps_collector = None, ps_begun = [], ps_drained = [],
     ps_servers = (\<lambda>a. if a = Rest then Some start_server else None), ps_failures = []\<rparr>"

definition put_server :: "api \<Rightarrow> api_server \<Rightarrow> process_state \<Rightarrow> process_state" where
  "put_server a sv st = st\<lparr>ps_servers := (ps_servers st)(a := Some sv)\<rparr>"

subsection \<open>The REST server around the handlers\<close>

record rest_options =
  ro_corsOrigins :: "string list"
  ro_trustProxy :: bool

definition WithCORSOrigins :: "string list \<Rightarrow> rest_options \<Rightarrow> rest_options" where
  "WithCORSOrigins origins o1 = o1\<lparr>ro_corsOrigins := origins\<rparr>"

definition WithTrustProxy :: "bool \<Rightarrow> rest_options \<Rightarrow> rest_options" where
  "WithTrustProxy trust o1 = o1\<lparr>ro_trustProxy := trust\<rparr>"

record rest_server =
  rs_port :: int
  rs_opts :: rest_options
  rs_ReadTimeout :: duration
  rs_WriteTimeout :: duration
  rs_IdleTimeout :: duration
  rs_push :: duration

text \<open>\<open>rest.New\<close>: the options in order, the timeouts, and the interval of the dashboard push.\<close>

definition Rest_Server_New :: "int \<Rightarrow> (rest_options \<Rightarrow> rest_options) list \<Rightarrow> rest_server" where
  "Rest_Server_New port opts =
     \<lparr>rs_port = port, rs_opts = fold (\<lambda>o1 acc. o1 acc) opts \<lparr>ro_corsOrigins = [], ro_trustProxy = False\<rparr>,
      rs_ReadTimeout = 10 * Second, rs_WriteTimeout = 30 * Second, rs_IdleTimeout = 60 * Second, rs_push = 30 * Second\<rparr>"

definition configured_rest :: "Config \<Rightarrow> rest_server" where
  "configured_rest cfg = Rest_Server_New (sv_RESTPort (cf_Server cfg))
     [WithCORSOrigins (sv_CORSAllowedOrigins (cf_Server cfg)), WithTrustProxy (sv_TrustProxy (cf_Server cfg))]"

text \<open>\<open>Done\<close>: a channel that nothing sends on or closes.\<close>

definition rest_Done :: "unit chan" where
  "rest_Done = make_chan 0"

lemma rest_options_from_config:
  "ro_corsOrigins (rs_opts (configured_rest cfg)) = sv_CORSAllowedOrigins (cf_Server cfg)"
  "ro_trustProxy (rs_opts (configured_rest cfg)) = sv_TrustProxy (cf_Server cfg)"
  by (simp_all add: configured_rest_def Rest_Server_New_def WithCORSOrigins_def WithTrustProxy_def)

text \<open>So the case that would stop the dashboard push is never taken.\<close>

lemma push_never_stops: "fst (chan_recv rest_Done) = RecvBlocks"
  by (simp add: rest_Done_def chan_recv_def)

subsection \<open>Start\<close>

text \<open>The goroutine that serves: its error goes to the channel of \<open>Start\<close>.\<close>

definition serve_fails :: "string \<Rightarrow> api \<Rightarrow> api_server \<Rightarrow> process_state \<Rightarrow> process_state option" where
  "serve_fails err a sv st =
     (if \<not> as_listening sv then Some st
      else map_option (\<lambda>ch. put_server a (sv\<lparr>as_errCh := ch, as_listening := False\<rparr>) (st\<lparr>ps_failures := ps_failures st @ [err]\<rparr>))
             (send_locked err (as_errCh sv)))"

text \<open>The two cases of the select, and the end of the graceful stop.\<close>

definition Start_error :: "api \<Rightarrow> api_server \<Rightarrow> process_state \<Rightarrow> process_state" where
  "Start_error a sv st =
     (if as_pc sv \<noteq> ServerSelect then st
      else case chan_recv (as_errCh sv) of
             (Received err, ch) \<Rightarrow> put_server a (sv\<lparr>as_pc := ServerReturning (Some err), as_errCh := ch\<rparr>) st
           | _ \<Rightarrow> st)"

definition Start_cancelled :: "api \<Rightarrow> api_server \<Rightarrow> process_state \<Rightarrow> process_state" where
  "Start_cancelled a sv st =
     (if as_pc sv = ServerSelect \<and> ps_cancelled st
      then put_server a (sv\<lparr>as_pc := ServerStopping, as_listening := False\<rparr>) st else st)"

text \<open>\<open>Shutdown\<close> gives up after 30 seconds, \<open>GracefulStop\<close> never does.\<close>

definition Start_stopped :: "bool \<Rightarrow> api \<Rightarrow> api_server \<Rightarrow> process_state \<Rightarrow> process_state" where
  "Start_stopped expired a sv st =
     (if as_pc sv \<noteq> ServerStopping then st
      else if as_inflight sv = 0 then put_server a (sv\<lparr>as_pc := ServerReturning None\<rparr>) st
      else if expired \<and> a = Rest then put_server a (sv\<lparr>as_pc := ServerReturning (Some ''context deadline exceeded'')\<rparr>) st
      else st)"

text \<open>\<open>errCh <- srv.Start(ctx)\<close>.\<close>

definition Start_returned :: "api \<Rightarrow> api_server \<Rightarrow> process_state \<Rightarrow> process_state option" where
  "Start_returned a sv st =
     (case as_pc sv of
        ServerReturning r \<Rightarrow>
          map_option (\<lambda>ch. (put_server a (sv\<lparr>as_pc := ServerEnded\<rparr>) st)\<lparr>ps_errCh := ch\<rparr>) (send_locked r (ps_errCh st))
      | _ \<Rightarrow> Some st)"

definition request_begins :: "api \<Rightarrow> api_server \<Rightarrow> process_state \<Rightarrow> process_state" where
  "request_begins a sv st = (if as_listening sv then put_server a (sv\<lparr>as_inflight := as_inflight sv + 1\<rparr>) st else st)"

definition request_ends :: "api \<Rightarrow> api_server \<Rightarrow> process_state \<Rightarrow> process_state" where
  "request_ends a sv st = put_server a (sv\<lparr>as_inflight := as_inflight sv - 1\<rparr>) st"

subsection \<open>The main goroutine\<close>

definition signal_comes :: "process_state \<Rightarrow> process_state" where
  "signal_comes st = st\<lparr>ps_signalled := True\<rparr>"

definition main_error :: "process_state \<Rightarrow> process_state" where
  "main_error st =
     (if ps_main st \<noteq> MainSelect then st
      else case chan_recv (ps_errCh st) of
             (Received r, ch) \<Rightarrow> st\<lparr>ps_main := MainCancel r, ps_errCh := ch\<rparr>
           | _ \<Rightarrow> st)"

definition main_signal :: "process_state \<Rightarrow> process_state" where
  "main_signal st = (if ps_main st = MainSelect \<and> ps_signalled st then st\<lparr>ps_main := MainCancel None\<rparr> else st)"

text \<open>\<open>Close\<close> is called when there is a collector.\<close>

definition close_calls :: "process_state \<Rightarrow> nats_call list" where
  "close_calls st = (case ps_collector st of None \<Rightarrow> [] | Some c \<Rightarrow> Collector_Close c)"

definition main_cancel :: "process_state \<Rightarrow> process_state" where
  "main_cancel st =
     (case ps_main st of MainCancel r \<Rightarrow> st\<lparr>ps_main := MainClose r (close_calls st), ps_cancelled := True\<rparr> | _ \<Rightarrow> st)"

text \<open>The next call of \<open>Close\<close>, or the return after the last.\<close>

definition main_close :: "process_state \<Rightarrow> process_state" where
  "main_close st = (case ps_main st of
       MainClose r (c # calls) \<Rightarrow> st\<lparr>ps_main := MainClose r calls, ps_begun := ps_begun st @ [c]\<rparr>
     | MainClose r [] \<Rightarrow> st\<lparr>ps_main := MainReturned r\<rparr>
     | _ \<Rightarrow> st)"

text \<open>The library has finished a draining that was begun.\<close>

definition drain_ends :: "nats_call \<Rightarrow> process_state \<Rightarrow> process_state" where
  "drain_ends c st = (if c \<in> set (ps_begun st) then st\<lparr>ps_drained := ps_drained st @ [c]\<rparr> else st)"

definition alive :: "process_state \<Rightarrow> bool" where
  "alive st = (case ps_main st of MainReturned r \<Rightarrow> False | _ \<Rightarrow> True)"

inductive process_moves :: "process_state \<Rightarrow> process_state option \<Rightarrow> bool" where
  fails: "alive st \<Longrightarrow> ps_servers st a = Some sv \<Longrightarrow> process_moves st (serve_fails err a sv st)"
| start_error: "alive st \<Longrightarrow> ps_servers st a = Some sv \<Longrightarrow> process_moves st (Some (Start_error a sv st))"
| start_cancelled: "alive st \<Longrightarrow> ps_servers st a = Some sv \<Longrightarrow> process_moves st (Some (Start_cancelled a sv st))"
| start_stopped: "alive st \<Longrightarrow> ps_servers st a = Some sv \<Longrightarrow> process_moves st (Some (Start_stopped expired a sv st))"
| start_returned: "alive st \<Longrightarrow> ps_servers st a = Some sv \<Longrightarrow> process_moves st (Start_returned a sv st)"
| begins: "alive st \<Longrightarrow> ps_servers st a = Some sv \<Longrightarrow> process_moves st (Some (request_begins a sv st))"
| ends: "alive st \<Longrightarrow> ps_servers st a = Some sv \<Longrightarrow> process_moves st (Some (request_ends a sv st))"
| signal: "alive st \<Longrightarrow> process_moves st (Some (signal_comes st))"
| main_err: "alive st \<Longrightarrow> process_moves st (Some (main_error st))"
| main_sig: "alive st \<Longrightarrow> process_moves st (Some (main_signal st))"
| cancels: "alive st \<Longrightarrow> process_moves st (Some (main_cancel st))"
| closes: "alive st \<Longrightarrow> process_moves st (Some (main_close st))"
| drains: "alive st \<Longrightarrow> process_moves st (Some (drain_ends c st))"

abbreviation process_init :: "process_state \<Rightarrow> bool" where
  "process_init st \<equiv> (\<exists>col. st = runServer_process col) \<or> st = runDemoServer_process"

abbreviation process_reach :: "process_state \<Rightarrow> bool" where
  "process_reach \<equiv> reachable process_init process_moves"

subsection \<open>The invariant\<close>

text \<open>How many servers run, and how many have sent what they returned.\<close>

definition present :: "process_state \<Rightarrow> api \<Rightarrow> nat" where
  "present st a = (case ps_servers st a of None \<Rightarrow> 0 | Some sv \<Rightarrow> 1)"

definition ended :: "process_state \<Rightarrow> api \<Rightarrow> nat" where
  "ended st a = (case ps_servers st a of None \<Rightarrow> 0 | Some sv \<Rightarrow> of_bool (as_pc sv = ServerEnded))"

text \<open>A result is an error a listener ended with, or nothing after a signal.\<close>

fun result_sound :: "bool \<Rightarrow> string list \<Rightarrow> string option \<Rightarrow> bool" where
  "result_sound signalled errs None = signalled"
| "result_sound signalled errs (Some err) = (err \<in> set errs)"

text \<open>Before the context is cancelled, \<open>Start\<close> returns with an error only.\<close>

fun start_sound :: "string list \<Rightarrow> server_pc \<Rightarrow> bool" where
  "start_sound errs ServerStopping = False"
| "start_sound errs (ServerReturning r) = result_sound False errs r"
| "start_sound errs pc = True"

fun main_sound :: "process_state \<Rightarrow> main_pc \<Rightarrow> bool" where
  "main_sound st MainSelect = (\<not> ps_cancelled st \<and> ps_begun st = [])"
| "main_sound st (MainCancel r) = (\<not> ps_cancelled st \<and> ps_begun st = [] \<and> result_sound (ps_signalled st) (ps_failures st) r)"
| "main_sound st (MainClose r calls) =
     (ps_cancelled st \<and> close_calls st = ps_begun st @ calls \<and> result_sound (ps_signalled st) (ps_failures st) r)"
| "main_sound st (MainReturned r) =
     (ps_cancelled st \<and> close_calls st = ps_begun st \<and> result_sound (ps_signalled st) (ps_failures st) r)"

definition server_sound :: "process_state \<Rightarrow> api_server \<Rightarrow> bool" where
  "server_sound st sv \<longleftrightarrow> \<not> ch_closed (as_errCh sv) \<and> ch_cap (as_errCh sv) = 1
     \<and> (as_listening sv \<longrightarrow> ch_buf (as_errCh sv) = []) \<and> set (ch_buf (as_errCh sv)) \<subseteq> set (ps_failures st)
     \<and> (\<not> ps_cancelled st \<longrightarrow> start_sound (ps_failures st) (as_pc sv))"

definition process_inv :: "process_state \<Rightarrow> bool" where
  "process_inv st \<longleftrightarrow> \<not> ch_closed (ps_errCh st) \<and> ch_cap (ps_errCh st) = present st Rest + present st Grpc
     \<and> length (ch_buf (ps_errCh st)) \<le> ended st Rest + ended st Grpc
     \<and> (\<forall>a sv. ps_servers st a = Some sv \<longrightarrow> server_sound st sv)
     \<and> (\<not> ps_cancelled st \<longrightarrow> set (ch_buf (ps_errCh st)) \<subseteq> Some ` set (ps_failures st))
     \<and> set (ps_drained st) \<subseteq> set (ps_begun st) \<and> main_sound st (ps_main st)"

lemma close_calls_cong: "ps_collector st' = ps_collector st \<Longrightarrow> close_calls st' = close_calls st"
  by (simp add: close_calls_def)

lemma main_sound_put:
  "main_sound (put_server a sv st) pc = main_sound st pc"
  by (cases pc) (simp_all add: put_server_def close_calls_def)

lemma sound_more:
  "result_sound b errs r \<Longrightarrow> result_sound b (errs @ [err]) r" "start_sound errs pc \<Longrightarrow> start_sound (errs @ [err]) pc"
  by (cases r; simp) (cases pc; simp; cases "case pc of ServerReturning r \<Rightarrow> r | _ \<Rightarrow> None"; simp)

lemma put_server_simps [simp]:
  "ps_servers (put_server a sv st) = (ps_servers st)(a := Some sv)" "ps_main (put_server a sv st) = ps_main st"
  "ps_cancelled (put_server a sv st) = ps_cancelled st" "ps_signalled (put_server a sv st) = ps_signalled st"
  "ps_errCh (put_server a sv st) = ps_errCh st" "ps_collector (put_server a sv st) = ps_collector st"
  "ps_begun (put_server a sv st) = ps_begun st" "ps_drained (put_server a sv st) = ps_drained st"
  "ps_failures (put_server a sv st) = ps_failures st"
  by (simp_all add: put_server_def)

lemma server_sound_cong:
  "ps_failures st' = ps_failures st \<Longrightarrow> ps_cancelled st' = ps_cancelled st \<Longrightarrow> server_sound st' sv = server_sound st sv"
  by (simp add: server_sound_def)

lemma put_inv:
  assumes "process_inv st" and "ps_servers st a = Some sv" and "server_sound st sv'"
    and "as_pc sv' = ServerEnded \<longleftrightarrow> as_pc sv = ServerEnded"
  shows "process_inv (put_server a sv' st)"
proof -
  have count: "present (put_server a sv' st) b = present st b" "ended (put_server a sv' st) b = ended st b" for b
    using assms(2,4) by (auto simp: present_def ended_def)
  have "server_sound (put_server a sv' st) x = server_sound st x" for x by (rule server_sound_cong) simp_all
  then show ?thesis
    using assms(1,3) by (simp add: process_inv_def count main_sound_put)
qed

lemma main_only_inv:
  assumes "process_inv st" and "ps_servers st' = ps_servers st" and "ps_failures st' = ps_failures st"
  shows "present st' b = present st b" "ended st' b = ended st b"
    "ps_cancelled st' = ps_cancelled st \<or> ps_cancelled st' \<Longrightarrow> ps_servers st a = Some sv \<Longrightarrow> server_sound st' sv"
  using assms by (auto simp: present_def ended_def process_inv_def server_sound_def)

lemma server_steps_inv:
  assumes "process_inv st" and "ps_servers st a = Some sv"
  shows "process_inv (Start_error a sv st)" "process_inv (Start_cancelled a sv st)" "process_inv (Start_stopped expired a sv st)"
    "process_inv (request_begins a sv st)" "process_inv (request_ends a sv st)"
proof -
  have s: "server_sound st sv" using assms by (simp add: process_inv_def)
  show "process_inv (Start_error a sv st)"
    using assms(1) put_inv [OF assms] s
    by (auto simp: Start_error_def chan_recv_def server_sound_def split: list.split)
  show "process_inv (Start_cancelled a sv st)"
    using assms(1) put_inv [OF assms] s by (auto simp: Start_cancelled_def server_sound_def)
  show "process_inv (Start_stopped expired a sv st)"
    using assms(1) put_inv [OF assms] s by (auto simp: Start_stopped_def server_sound_def)
  show "process_inv (request_begins a sv st)"
    using assms(1) put_inv [OF assms] s by (auto simp: request_begins_def server_sound_def)
  show "process_inv (request_ends a sv st)"
    using put_inv [OF assms] s by (auto simp: request_ends_def server_sound_def)
qed

lemma serve_fails_inv:
  assumes "process_inv st" and "ps_servers st a = Some sv"
  shows "\<exists>st'. serve_fails err a sv st = Some st' \<and> process_inv st'"
proof (cases "as_listening sv")
  case True
  have s: "server_sound st sv" using assms by (simp add: process_inv_def)
  let ?ch = "(as_errCh sv)\<lparr>ch_buf := [err]\<rparr>" and ?st = "st\<lparr>ps_failures := ps_failures st @ [err]\<rparr>"
  have ch: "send_locked err (as_errCh sv) = Some ?ch" using s True by (simp add: send_locked_Some server_sound_def)
  have st: "process_inv ?st"
  proof -
    have "server_sound ?st x" if "server_sound st x" for x
      using that sound_more(2) by (auto simp: server_sound_def)
    moreover have "main_sound ?st (ps_main st)" if "main_sound st (ps_main st)"
      using that sound_more(1) by (cases "ps_main st") (auto simp: close_calls_def)
    moreover have "present ?st b = present st b" "ended ?st b = ended st b" for b by (simp_all add: present_def ended_def)
    ultimately show ?thesis
      using assms(1) by (auto simp: process_inv_def)
  qed
  have "server_sound ?st (sv\<lparr>as_errCh := ?ch, as_listening := False\<rparr>)"
    using s sound_more(2) by (auto simp: server_sound_def)
  from put_inv [OF st _ this, of a] assms(2)
  have "process_inv (put_server a (sv\<lparr>as_errCh := ?ch, as_listening := False\<rparr>) ?st)" by simp
  then show ?thesis using True ch by (simp add: serve_fails_def)
qed (use assms in \<open>simp add: serve_fails_def\<close>)

lemma Start_returned_inv:
  assumes "process_inv st" and "ps_servers st a = Some sv"
  shows "\<exists>st'. Start_returned a sv st = Some st' \<and> process_inv st'"
proof (cases "as_pc sv")
  case (ServerReturning r)
  have s: "server_sound st sv" using assms by (simp add: process_inv_def)
  have mine: "present st a = 1" "ended st a = 0" using assms(2) ServerReturning by (simp_all add: present_def ended_def)
  have le: "ended st b \<le> present st b" for b by (simp add: ended_def present_def split: option.split)
  have room: "length (ch_buf (ps_errCh st)) < ch_cap (ps_errCh st)"
    using assms(1) mine le [of Rest] le [of Grpc] by (cases a) (auto simp: process_inv_def)
  let ?ch = "(ps_errCh st)\<lparr>ch_buf := ch_buf (ps_errCh st) @ [r]\<rparr>"
  let ?st = "(put_server a (sv\<lparr>as_pc := ServerEnded\<rparr>) st)\<lparr>ps_errCh := ?ch\<rparr>"
  have ch: "send_locked r (ps_errCh st) = Some ?ch" using room assms(1) by (simp add: send_locked_Some process_inv_def)
  have count: "present ?st b = present st b" "ended ?st b = (if b = a then 1 else ended st b)" for b
    using assms(2) by (simp_all add: present_def ended_def)
  have sound: "server_sound ?st x = server_sound st x" for x by (simp add: server_sound_def)
  have main_same: "main_sound ?st pc = main_sound st pc" for pc by (cases pc) (simp_all add: close_calls_def)
  have sv: "server_sound st (sv\<lparr>as_pc := ServerEnded\<rparr>)" using s by (simp add: server_sound_def)
  have sums: "present ?st Rest + present ?st Grpc = present st Rest + present st Grpc"
      "ended ?st Rest + ended ?st Grpc = ended st Rest + ended st Grpc + 1"
    using count [of Rest] count [of Grpc] mine by (cases a; simp)+
  have "r \<in> Some ` set (ps_failures st)" if "\<not> ps_cancelled st"
    using s that ServerReturning by (cases r) (auto simp: server_sound_def)
  then have "process_inv ?st"
    using assms(1) sv sums by (simp add: process_inv_def sound main_same)
  then show ?thesis using ServerReturning ch by (simp add: Start_returned_def)
qed (use assms in \<open>simp_all add: Start_returned_def\<close>)

lemma main_steps_inv:
  assumes "process_inv st"
  shows "process_inv (signal_comes st)" "process_inv (main_error st)" "process_inv (main_signal st)"
    "process_inv (main_cancel st)"
proof -
  note same = main_only_inv [OF assms]
  show "process_inv (signal_comes st)"
    using assms same [of "signal_comes st"]
    by (cases "ps_main st"; cases "case ps_main st of MainCancel r \<Rightarrow> r | MainClose r cs \<Rightarrow> r | MainReturned r \<Rightarrow> r | _ \<Rightarrow> None")
      (auto simp: signal_comes_def process_inv_def close_calls_def)
  show "process_inv (main_error st)"
  proof (cases "ps_main st = MainSelect")
    case True
    show ?thesis
    proof (cases "ch_buf (ps_errCh st)")
      case (Cons r rest)
      let ?st = "st\<lparr>ps_main := MainCancel r, ps_errCh := (ps_errCh st)\<lparr>ch_buf := rest\<rparr>\<rparr>"
      show ?thesis
        using assms same [of ?st] True Cons by (auto simp: main_error_def chan_recv_def process_inv_def)
    qed (use assms True in \<open>simp add: main_error_def chan_recv_def\<close>)
  qed (use assms in \<open>simp add: main_error_def\<close>)
  show "process_inv (main_signal st)"
    using assms same [of "st\<lparr>ps_main := MainCancel None\<rparr>"] by (auto simp: main_signal_def process_inv_def)
  show "process_inv (main_cancel st)"
  proof (cases "ps_main st")
    case (MainCancel r)
    then show ?thesis
      using assms same [of "st\<lparr>ps_main := MainClose r (close_calls st), ps_cancelled := True\<rparr>"]
      by (auto simp: main_cancel_def process_inv_def close_calls_def)
  qed (use assms in \<open>simp_all add: main_cancel_def\<close>)
qed

lemma close_steps_inv:
  assumes "process_inv st"
  shows "process_inv (main_close st)" "process_inv (drain_ends c st)"
proof -
  note same = main_only_inv [OF assms]
  show "process_inv (main_close st)"
  proof (cases "ps_main st")
    case (MainClose r calls)
    then show ?thesis
      using assms same [of "main_close st"]
      by (cases calls) (auto simp: main_close_def process_inv_def close_calls_def)
  qed (use assms in \<open>simp_all add: main_close_def\<close>)
  have "main_sound (drain_ends c st) (ps_main st)"
    using assms by (cases "ps_main st") (auto simp: process_inv_def drain_ends_def close_calls_def)
  then show "process_inv (drain_ends c st)"
    using assms same [of "drain_ends c st"] by (auto simp: drain_ends_def process_inv_def)
qed

lemma process_moves_inv: "process_inv st \<Longrightarrow> process_moves st r \<Longrightarrow> \<exists>st'. r = Some st' \<and> process_inv st'"
  by (erule process_moves.cases)
    (simp_all add: serve_fails_inv Start_returned_inv server_steps_inv main_steps_inv close_steps_inv)

interpretation process_sys: safe_system process_init process_moves process_inv
proof unfold_locales
  show "process_inv st" if "process_init st" for st
    using that
    by (auto simp: runServer_process_def runDemoServer_process_def process_inv_def present_def ended_def start_server_def
        server_sound_def split: if_splits)
qed (rule process_moves_inv)

subsection \<open>Properties\<close>

lemmas moves_next = reachable.step_on [where step = process_moves]

text \<open>\<open>Close\<close> never waits: once in it, the main goroutine makes its calls and returns by itself.\<close>

lemma close_by_itself:
  "ps_main st = MainClose r calls \<Longrightarrow>
     \<exists>st'. runs process_moves st st' \<and> ps_main st' = MainReturned r \<and> ps_servers st' = ps_servers st
       \<and> ps_begun st' = ps_begun st @ calls \<and> ps_drained st' = ps_drained st \<and> ps_collector st' = ps_collector st"
proof (induction calls arbitrary: st)
  case Nil
  have "runs process_moves st (main_close st)"
    by (rule moves_next [OF runs_refl process_moves.closes]) (simp add: alive_def Nil)
  then show ?case using Nil by (intro exI [of _ "main_close st"]) (simp add: main_close_def)
next
  case (Cons c calls)
  have 1: "runs process_moves st (main_close st)"
    by (rule moves_next [OF runs_refl process_moves.closes]) (simp add: alive_def Cons.prems)
  obtain st' where "runs process_moves (main_close st) st'" "ps_main st' = MainReturned r"
    "ps_servers st' = ps_servers st" "ps_begun st' = ps_begun st @ c # calls" "ps_drained st' = ps_drained st"
    "ps_collector st' = ps_collector st"
    using Cons.IH [of "main_close st"] by (auto simp: main_close_def Cons.prems)
  then show ?case using reachable_runs [OF _ 1] by blast
qed

text \<open>After a signal the main goroutine ends the process by itself, whatever the servers do.\<close>

lemma exit_at_once:
  assumes "ps_main st = MainSelect"
  shows "\<exists>st'. runs process_moves st st' \<and> ps_main st' = MainReturned None \<and> ps_servers st' = ps_servers st
    \<and> ps_begun st' = ps_begun st @ close_calls st \<and> ps_drained st' = ps_drained st \<and> ps_collector st' = ps_collector st"
proof -
  let ?s1 = "signal_comes st"
  let ?s2 = "main_signal ?s1"
  let ?s3 = "main_cancel ?s2"
  have pc: "ps_main ?s1 = MainSelect" "ps_main ?s2 = MainCancel None" "ps_main ?s3 = MainClose None (close_calls st)"
    "ps_servers ?s3 = ps_servers st" "ps_begun ?s3 = ps_begun st" "ps_drained ?s3 = ps_drained st"
    "ps_collector ?s3 = ps_collector st"
    using assms by (simp_all add: signal_comes_def main_signal_def main_cancel_def close_calls_def)
  have 1: "runs process_moves st ?s1" by (rule moves_next [OF runs_refl process_moves.signal]) (simp add: alive_def assms)
  have 2: "runs process_moves st ?s2" by (rule moves_next [OF 1 process_moves.main_sig]) (simp add: alive_def pc)
  have 3: "runs process_moves st ?s3" by (rule moves_next [OF 2 process_moves.cancels]) (simp add: alive_def pc)
  from close_by_itself [OF pc(3)] show ?thesis using reachable_runs [OF _ 3] pc(4-7) by auto
qed

text \<open>
  C18: how the process ends. In every run, with both servers or the demo's one: no goroutine ever blocks on an
  error channel; the process returns an error only when a listener ended with it, and success only
  after a signal; by then the context is cancelled, and the draining of every NATS subscription and then of the
  connection has been begun, each once and in this order, and no earlier than the cancel. But the process waits
  neither for that draining nor for the graceful stop it has started: from every state in which main still
  waits, a signal ends the process while no draining has finished and the servers are where they were, with the
  requests they were serving.
\<close>

theorem process_end:
  assumes "process_reach st"
  shows "\<not> process_moves st None
    \<and> (\<not> ps_cancelled st \<longrightarrow> ps_begun st = [])
    \<and> (case ps_main st of
         MainReturned r \<Rightarrow> ps_cancelled st
           \<and> ps_begun st = (case ps_collector st of None \<Rightarrow> []
                | Some c \<Rightarrow> map DrainSubscription (nt_subs c) @ [DrainConnection])
           \<and> (case r of None \<Rightarrow> ps_signalled st | Some err \<Rightarrow> err \<in> set (ps_failures st))
       | MainSelect \<Rightarrow> \<exists>st'. runs process_moves st st' \<and> ps_main st' = MainReturned None
           \<and> ps_servers st' = ps_servers st \<and> ps_collector st' = ps_collector st \<and> ps_drained st' = []
       | _ \<Rightarrow> True)"
proof (intro conjI)
  have inv: "process_inv st" by (rule process_sys.reach_inv [OF assms])
  show "\<not> process_moves st None" by (rule process_sys.never_stuck [OF assms])
  show "\<not> ps_cancelled st \<longrightarrow> ps_begun st = []"
    using inv by (cases "ps_main st") (auto simp: process_inv_def)
  show "case ps_main st of
         MainReturned r \<Rightarrow> ps_cancelled st
           \<and> ps_begun st = (case ps_collector st of None \<Rightarrow> []
                | Some c \<Rightarrow> map DrainSubscription (nt_subs c) @ [DrainConnection])
           \<and> (case r of None \<Rightarrow> ps_signalled st | Some err \<Rightarrow> err \<in> set (ps_failures st))
       | MainSelect \<Rightarrow> \<exists>st'. runs process_moves st st' \<and> ps_main st' = MainReturned None
           \<and> ps_servers st' = ps_servers st \<and> ps_collector st' = ps_collector st \<and> ps_drained st' = []
       | _ \<Rightarrow> True"
  proof (cases "ps_main st")
    case MainSelect
    then have "ps_drained st = []" using inv by (auto simp: process_inv_def)
    with exit_at_once [OF MainSelect] MainSelect show ?thesis by auto
  next
    case (MainReturned r)
    then show ?thesis
      using inv by (cases r; cases "ps_collector st") (simp_all add: process_inv_def close_calls_def Collector_Close_def)
  qed simp_all
qed

lemma process_end_witness:
  "\<exists>st'. runs process_moves (request_begins Rest start_server (runServer_process (Some \<lparr>nt_subs = [''bastion.>'']\<rparr>))) st'
     \<and> ps_main st' = MainReturned None \<and> map_option as_inflight (ps_servers st' Rest) = Some 1
     \<and> ps_begun st' = [DrainSubscription ''bastion.>'', DrainConnection] \<and> ps_drained st' = []"
proof -
  let ?st = "request_begins Rest start_server (runServer_process (Some \<lparr>nt_subs = [''bastion.>'']\<rparr>))"
  have 0: "process_reach (runServer_process (Some \<lparr>nt_subs = [''bastion.>'']\<rparr>))" by (rule reachable.begin_here) blast
  have r: "process_reach ?st"
    by (rule moves_next [OF 0 process_moves.begins]) (simp_all add: runServer_process_def alive_def)
  have st: "ps_main ?st = MainSelect" "map_option as_inflight (ps_servers ?st Rest) = Some 1"
    "ps_collector ?st = Some \<lparr>nt_subs = [''bastion.>'']\<rparr>"
    by (simp_all add: runServer_process_def request_begins_def start_server_def)
  from process_end [OF r] st obtain st' where st': "runs process_moves ?st st'" "ps_main st' = MainReturned None"
    "ps_servers st' = ps_servers ?st" "ps_collector st' = ps_collector ?st" "ps_drained st' = []" by auto
  have "process_reach st'" by (rule reachable_runs [OF st'(1) r])
  from process_end [OF this] st'(2,4) st(3) have "ps_begun st' = [DrainSubscription ''bastion.>'', DrainConnection]" by simp
  then show ?thesis using st' st by auto
qed

end
