(* ===== verification/Commands.thy ===== *)
theory Commands
  imports Cli Lifecycle Gateway
begin

text \<open>
  The command tree of internal/cli/commands.go, what cmd/tracker-cli/main.go changes in it, the exit status,
  the bodies of the commands around the requests and listings of theory Cli, and what they print. The cobra
  library is reduced to the table it walks: a command without a body prints its help.
\<close>

datatype command_body =
    RunServer
  | RunDemoServer
  | RunStream
  | RunTraces
  | RunTrace
  | RunLineage
  | RunIncidents
  | RunAlerts
  | RunDemoList
  | RunDemoReplay
  | RunInject
  | RunGenerate

text \<open>
  A command: the words that select it, its usage and help text, its flags with their defaults as they
  are written on the command line, and its body.
\<close>

record cobra_command =
  cc_Path :: "string list"
  cc_Use :: string
  cc_Short :: string
  cc_Flags :: "(string \<times> string) list"
  cc_RunE :: "command_body option"

definition serverCmd :: cobra_command where
  "serverCmd =
     \<lparr>cc_Path = [''server''], cc_Use = ''server'', cc_Short = ''Start the Tracker REST + gRPC server'',
      cc_Flags = [(''config'', [])], cc_RunE = None\<rparr>"

definition streamCmd :: cobra_command where
  "streamCmd =
     \<lparr>cc_Path = [''stream''], cc_Use = ''stream'', cc_Short = ''Stream live events from Tracker WebSocket'',
      cc_Flags = [(''module'', []), (''severity'', [])], cc_RunE = Some RunStream\<rparr>"

definition tracesCmd :: cobra_command where
  "tracesCmd =
     \<lparr>cc_Path = [''traces''], cc_Use = ''traces'', cc_Short = ''List recent request traces'',
      cc_Flags = [(''limit'', ''20'')], cc_RunE = Some RunTraces\<rparr>"

definition traceCmd :: cobra_command where
  "traceCmd =
     \<lparr>cc_Path = [''trace''], cc_Use = ''trace <trace_id>'', cc_Short = ''Show detail for a single trace'',
      cc_Flags = [], cc_RunE = Some RunTrace\<rparr>"

definition lineageCmd :: cobra_command where
  "lineageCmd =
     \<lparr>cc_Path = [''lineage''], cc_Use = ''lineage <trace_id|user:<user_id>|audit>'', cc_Short = ''Query data lineage (SRS doc 22)'',
      cc_Flags = [(''from'', []), (''to'', [])], cc_RunE = Some RunLineage\<rparr>"

text \<open>The commands \<open>security\<close> and \<open>demo\<close> have no body of their own.\<close>

definition securityCmd :: "cobra_command list" where
  "securityCmd =
    [\<lparr>cc_Path = [''security'', ''incidents''], cc_Use = ''incidents'', cc_Short = ''List open incidents'',
      cc_Flags = [], cc_RunE = Some RunIncidents\<rparr>,
     \<lparr>cc_Path = [''security'', ''alerts''], cc_Use = ''alerts'', cc_Short = ''List firing alerts'',
      cc_Flags = [], cc_RunE = Some RunAlerts\<rparr>]"

definition demoCmd :: "cobra_command list" where
  "demoCmd =
    [\<lparr>cc_Path = [''demo'', ''list''], cc_Use = ''list'', cc_Short = ''List available demo scenarios'',
      cc_Flags = [], cc_RunE = Some RunDemoList\<rparr>,
     \<lparr>cc_Path = [''demo'', ''replay''], cc_Use = ''replay <scenario-name>'', cc_Short = ''Replay a demo scenario'',
      cc_Flags = [], cc_RunE = Some RunDemoReplay\<rparr>]"

definition injectCmd :: cobra_command where
  "injectCmd =
     \<lparr>cc_Path = [''inject''], cc_Use = ''inject'', cc_Short = ''Inject a synthetic event'',
      cc_Flags = [(''module'', ''sentinel''), (''event-type'', ''request_received''), (''tenant'', ''demo-tenant''), (''pipeline'', ''full'')], cc_RunE = Some RunInject\<rparr>"

definition generateCmd :: cobra_command where
  "generateCmd =
     \<lparr>cc_Path = [''generate''], cc_Use = ''generate'', cc_Short = ''Generate synthetic event traffic'',
      cc_Flags = [(''rate'', ''10''), (''duration'', ''30s'')], cc_RunE = Some RunGenerate\<rparr>"

definition default_api :: string where
  "default_api = ''http://localhost:8080''"

definition Root :: "cobra_command list" where
  "Root = [serverCmd, streamCmd, tracesCmd, traceCmd] @ securityCmd @ demoCmd @ [injectCmd, generateCmd, lineageCmd]"

text \<open>The loop of \<open>main\<close>: the first command used as \<open>server\<close> gets the real body; then \<open>demo-server\<close> is added.\<close>

fun set_server_body :: "cobra_command list \<Rightarrow> cobra_command list" where
  "set_server_body [] = []"
| "set_server_body (c # cs) = (if cc_Use c = ''server'' then c\<lparr>cc_RunE := Some RunServer\<rparr> # cs else c # set_server_body cs)"

definition tracker_commands :: "cobra_command list" where
  "tracker_commands = set_server_body Root
     @ [\<lparr>cc_Path = [''demo-server''], cc_Use = ''demo-server'', cc_Short = ''Start server and immediately run all demo scenarios'',
         cc_Flags = [], cc_RunE = Some RunDemoServer\<rparr>]"

text \<open>The exit status of the process: that of \<open>root.Execute\<close>.\<close>

definition exit_status :: "string option \<Rightarrow> nat" where
  "exit_status err = (case err of None \<Rightarrow> 0 | Some e \<Rightarrow> 1)"

subsection \<open>What commands print\<close>

text \<open>\<open>strings.Replace(s, old, new, 1)\<close> for a non-empty old text.\<close>

fun replace_once :: "string \<Rightarrow> string \<Rightarrow> string \<Rightarrow> string" where
  "replace_once old new [] = []"
| "replace_once old new (c # s) = (if HasPrefix (c # s) old then new @ drop (length old) (c # s) else c # replace_once old new s)"

definition stream_url :: "string \<Rightarrow> string" where
  "stream_url baseURL = replace_once ''http://'' ''ws://'' baseURL @ ''/ws/events''"

definition banner :: "string list \<Rightarrow> string list" where
  "banner lines = (let rule = concat (replicate 43 [CHR 0xE2, CHR 0x95, CHR 0x90]) in [rule] @ lines @ [rule])"

definition stream_banner :: "string list" where
  "stream_banner = banner [''  Bastion-Tracker Live Event Stream'', ''  Press Ctrl+C to stop'']"

definition demo_list_output :: "DemoScenario list \<Rightarrow> string list" where
  "demo_list_output scenarios = banner [''  Available Demo Scenarios'']
     @ map (\<lambda>s. ''  '' @ fmt_left 30 (sc_Name s) @ '' '' @ sc_Description s) scenarios"

definition ready_lines :: "Config \<Rightarrow> string list" where
  "ready_lines cfg =
     [''Bastion-Tracker v'' @ cf_Version cfg @ '' ready'',
      ''  REST/UI  '' @ [CHR 0xE2, CHR 0x86, CHR 0x92] @ '' http://localhost:'' @ itoa (sv_RESTPort (cf_Server cfg)),
      ''  gRPC     '' @ [CHR 0xE2, CHR 0x86, CHR 0x92] @ '' localhost:'' @ itoa (sv_GRPCPort (cf_Server cfg)),
      ''  Auth     '' @ [CHR 0xE2, CHR 0x86, CHR 0x92] @ '' '' @ (if au_Enabled (cf_Auth cfg) then ''enabled'' else ''disabled'')]"

subsection \<open>The bodies of the commands\<close>

text \<open>
  What a command finds outside: the outcome of an HTTP request, which \<open>apiGet\<close> and \<open>apiPost\<close> reduce to an
  error or the body of whatever reply came, encoding/json for the three replies it reads, the socket of the
  event stream, and the formats of times and durations.
\<close>

record cli_world =
  cw_http :: "string \<Rightarrow> cli_request \<Rightarrow> string + nat \<times> string"
  cw_traces :: "string \<Rightarrow> TracesResponse decoded"
  cw_trace :: "string \<Rightarrow> Trace decoded"
  cw_scenarios :: "string \<Rightarrow> DemoScenario list decoded"
  cw_dial :: "string \<Rightarrow> string + WSMessage option list"
  cw_reread :: "ws_payload \<Rightarrow> BastionEvent option"
  cw_clock :: "gotime \<Rightarrow> string"
  cw_millis :: "gotime \<Rightarrow> string"
  cw_span :: "duration \<Rightarrow> string"

definition apiGet :: "cli_world \<Rightarrow> string \<Rightarrow> cli_request \<Rightarrow> string + string" where
  "apiGet w baseURL rq = map_sum id snd (cw_http w baseURL rq)"

definition apiPost :: "cli_world \<Rightarrow> string \<Rightarrow> cli_request \<Rightarrow> string + string" where
  "apiPost w baseURL rq = map_sum id snd (cw_http w baseURL rq)"

type_synonym command_outcome = "string list \<times> string option"

definition print_body :: "string + string \<Rightarrow> command_outcome" where
  "print_body resp = (case resp of Inl err \<Rightarrow> ([], Some err) | Inr body \<Rightarrow> ([body], None))"

definition print_read :: "(string \<Rightarrow> 'a decoded) \<Rightarrow> ('a \<Rightarrow> string list) \<Rightarrow> string + string \<Rightarrow> command_outcome" where
  "print_read unmarshal show_it resp =
     (case resp of
        Inl err \<Rightarrow> ([], Some err)
      | Inr body \<Rightarrow> (case unmarshal body of Inl err \<Rightarrow> ([], Some err) | Inr r \<Rightarrow> (show_it r, None)))"

definition stream_run :: "cli_world \<Rightarrow> string \<Rightarrow> string \<Rightarrow> string \<Rightarrow> command_outcome" where
  "stream_run w baseURL modl severity =
     (case cw_dial w (stream_url baseURL) of
        Inl err \<Rightarrow> ([], Some (''connect: '' @ err))
      | Inr msgs \<Rightarrow> (stream_banner @ stream_lines (cw_reread w) (cw_millis w) modl severity msgs, None))"

definition traces_run :: "cli_world \<Rightarrow> string \<Rightarrow> int \<Rightarrow> command_outcome" where
  "traces_run w baseURL limit =
     print_read (cw_traces w) (traces_output (cw_clock w)) (apiGet w baseURL (traces_request limit))"

definition trace_run :: "cli_world \<Rightarrow> string \<Rightarrow> string \<Rightarrow> command_outcome" where
  "trace_run w baseURL tid = print_read (cw_trace w) trace_output (apiGet w baseURL (trace_request tid))"

definition lineage_run :: "cli_world \<Rightarrow> string \<Rightarrow> string \<Rightarrow> string \<Rightarrow> string \<Rightarrow> command_outcome" where
  "lineage_run w baseURL arg from_flag to_flag = print_body (apiGet w baseURL (lineage_request arg from_flag to_flag))"

definition incidents_run :: "cli_world \<Rightarrow> string \<Rightarrow> command_outcome" where
  "incidents_run w baseURL = print_body (apiGet w baseURL incidents_request)"

definition alerts_run :: "cli_world \<Rightarrow> string \<Rightarrow> command_outcome" where
  "alerts_run w baseURL = print_body (apiGet w baseURL alerts_request)"

definition demo_list_run :: "cli_world \<Rightarrow> string \<Rightarrow> command_outcome" where
  "demo_list_run w baseURL = print_read (cw_scenarios w) demo_list_output (apiGet w baseURL demo_list_request)"

definition demo_replay_run :: "cli_world \<Rightarrow> string \<Rightarrow> string \<Rightarrow> command_outcome" where
  "demo_replay_run w baseURL name = print_body (apiPost w baseURL (demo_replay_request name))"

definition inject_run :: "cli_world \<Rightarrow> string \<Rightarrow> gotime \<Rightarrow> string \<Rightarrow> string \<Rightarrow> string \<Rightarrow> string \<Rightarrow> command_outcome" where
  "inject_run w baseURL now modl eventType tenantID pipeline =
     print_body (apiPost w baseURL (inject_request now modl eventType tenantID pipeline))"

text \<open>
  \<open>generate\<close>: the outcomes of its select in order; what it has posted and the line it ends with. A list
  that ends without a stop or a signal is a prefix of the run. The result of a post is dropped.
\<close>

datatype generate_case = Stopped | Interrupted | Tick gotime

fun generate_loop :: "nat \<Rightarrow> generate_case list \<Rightarrow> cli_request list \<times> string list" where
  "generate_loop i [] = ([], [])"
| "generate_loop i (Stopped # cs) = ([], [''Done.''])"
| "generate_loop i (Interrupted # cs) = ([], [])"
| "generate_loop i (Tick now # cs) = (let (posts, out) = generate_loop (Suc i) cs in (generate_request now i # posts, out))"

definition generate_start :: "cli_world \<Rightarrow> int \<Rightarrow> duration \<Rightarrow> string" where
  "generate_start w rate d = ''Generating ~'' @ itoa rate @ '' events/s for '' @ cw_span w d @ ''...''"

text \<open>Without a period (the division or \<open>NewTicker\<close> panics) there is no outcome.\<close>

definition generate_cmd :: "cli_world \<Rightarrow> int \<Rightarrow> duration \<Rightarrow> generate_case list \<Rightarrow> (cli_request list \<times> command_outcome) option" where
  "generate_cmd w rate d cs =
     map_option (\<lambda>period. let (posts, out) = generate_loop 0 cs in (posts, generate_start w rate d # out, None))
       (generate_period rate)"

subsection \<open>What holds of them\<close>

text \<open>Every command has a body in the end, each is selected by other words, and \<open>server\<close> runs the server.\<close>

lemma commands_wired:
  "list_all (\<lambda>c. cc_RunE c \<noteq> None) tracker_commands" "distinct (map cc_Path tracker_commands)"
  "map cc_RunE (filter (\<lambda>c. cc_Path c = [''server'']) tracker_commands) = [Some RunServer]"
  by code_simp+

text \<open>With an address that starts with \<open>https://\<close> the stream is asked for over https, which no WebSocket dialer accepts.\<close>

lemma stream_url_https:
  "stream_url ''https://tracker.example'' = ''https://tracker.example/ws/events''"
  "stream_url (default_api) = ''ws://localhost:8080/ws/events''"
  by code_simp+

text \<open>No command looks at the status: what it prints and how it exits depends on the body only.\<close>

lemma status_ignored:
  assumes "\<And>rq. map_sum id snd (cw_http w baseURL rq) = map_sum id snd (cw_http w' baseURL rq)"
  shows "incidents_run w baseURL = incidents_run w' baseURL" "alerts_run w baseURL = alerts_run w' baseURL"
    "demo_replay_run w baseURL name = demo_replay_run w' baseURL name"
    "lineage_run w baseURL arg f t = lineage_run w' baseURL arg f t"
    "inject_run w baseURL now m e tn pl = inject_run w' baseURL now m e tn pl"
  by (simp_all add: incidents_run_def alerts_run_def demo_replay_run_def lineage_run_def inject_run_def apiGet_def
      apiPost_def assms)

lemma error_exits_zero:
  assumes "cw_http w baseURL (inject_request now m e tn pl) = Inr (status, body)"
  shows "inject_run w baseURL now m e tn pl = ([body], None) \<and> exit_status (snd (inject_run w baseURL now m e tn pl)) = 0"
  using assms by (simp add: inject_run_def apiPost_def print_body_def exit_status_def)

text \<open>The ticks of \<open>generate\<close> before it ends are the events of \<open>generate_run\<close>, in order.\<close>

lemma generate_posts:
  "fst (generate_loop i (map Tick nows @ [Stopped])) = map (\<lambda>k. generate_request (nows ! k) (i + k)) [0..<length nows]"
proof (induction nows arbitrary: i)
  case (Cons t nows)
  have "[0..<length (t # nows)] = 0 # map Suc [0..<length nows]"
    by (simp add: map_Suc_upt upt_conv_Cons del: upt_Suc)
  then show ?case by (simp add: Cons.IH split_beta Let_def del: upt_Suc)
qed simp

end
