(* ===== verification/Feedback.thy ===== *)
theory Feedback
  imports Server
begin

text \<open>
  The loop between the detector of internal/anomaly, the sink of cmd/tracker-cli/main.go and \<open>Process\<close>:
  an anomaly becomes an event, a goroutine processes it, and the hook has it inspected like any other. This
  theory follows such a chain through the started server of theory Server.
\<close>

text \<open>The last event a call left for a goroutine to process.\<close>

fun last_spawn :: "outgoing list \<Rightarrow> BastionEvent option" where
  "last_spawn [] = None"
| "last_spawn (OutSpawn ev # outs) = (case last_spawn outs of None \<Rightarrow> Some ev | Some ev' \<Rightarrow> Some ev')"
| "last_spawn (out # outs) = last_spawn outs"

text \<open>
  A chain of \<open>n\<close> rounds: an event is processed with all hooks, then the last event this has left, and so on.
  The result is the events that were left, in order, and the state after the last round.
\<close>

fun feedback ::
    "(string \<Rightarrow> string \<Rightarrow> string) \<Rightarrow> (BastionEvent \<Rightarrow> string) \<Rightarrow> (nat \<Rightarrow> IngestEnv) \<Rightarrow> nat \<Rightarrow> nat \<Rightarrow> BastionEvent \<Rightarrow> handlers
       \<Rightarrow> BastionEvent list \<times> handlers" where
  "feedback mac marshal envs i 0 ev h = ([], h)"
| "feedback mac marshal envs i (Suc n) ev h =
     (let h' = ingest mac marshal (envs i) ev h
      in case last_spawn (drop (length (h_out h)) (h_out h')) of
           None \<Rightarrow> ([], h')
         | Some ev' \<Rightarrow> (let (evs, h'') = feedback mac marshal envs (Suc i) n ev' h' in (ev' # evs, h'')))"

subsection \<open>One round\<close>

lemma last_spawn_append: "last_spawn (xs @ ys) = (case last_spawn ys of None \<Rightarrow> last_spawn xs | Some ev \<Rightarrow> Some ev)"
  by (induction xs rule: last_spawn.induct) (simp_all split: option.split)

lemma last_spawn_anomalies:
  "ans \<noteq> [] \<Longrightarrow> last_spawn (concat (map (\<lambda>an. [OutAnomaly an, OutSpawn (OnAnomaly an)]) ans)) = Some (OnAnomaly (last ans))"
  by (induction ans) (auto simp: last_spawn_append split: option.split)

lemma last_spawn_in: "last_spawn outs = Some ev \<Longrightarrow> OutSpawn ev \<in> set outs"
  by (induction outs rule: last_spawn.induct) (auto split: option.splits)

text \<open>What the hooks of one accepted event leave.\<close>

lemma run_hooks_detector:
  assumes "h_anomaly h = Some d"
  shows "\<exists>ps. h_out (run_hooks env ev h) = h_out h @ map OutPush ps
      @ concat (map (\<lambda>an. [OutAnomaly an, OutSpawn (OnAnomaly an)]) (snd (Inspect (ge_inspect env) ev d)))
    \<and> h_anomaly (run_hooks env ev h) = Some (fst (Inspect (ge_inspect env) ev d))"
proof -
  have "\<exists>ps. h_out (observe_hook env ev h) = h_out h @ map OutPush ps \<and> h_anomaly (observe_hook env ev h) = h_anomaly h"
    by (auto simp: observe_hook_def emit_def split_beta Let_def intro: exI [of _ "[]"] split: option.split)
  then show ?thesis
    using assms by (auto simp: run_hooks_def record_hook_def inspect_hook_def emit_def split_beta Let_def)
qed

lemma ingest_detector:
  assumes "pr_validator (h_proc h) \<noteq> None" and "pr_signer (h_proc h) = Some sg" and "h_anomaly h = Some d"
    and "Validate (enrich (ge_env env) ev) = None"
  shows "\<exists>outs. h_out (ingest mac marshal env ev h) = h_out h @ outs
      @ concat (map (\<lambda>an. [OutAnomaly an, OutSpawn (OnAnomaly an)])
          (snd (Inspect (ge_inspect env) (Sign mac sg (enrich (ge_env env) ev)) d)))
    \<and> h_anomaly (ingest mac marshal env ev h) = Some (fst (Inspect (ge_inspect env) (Sign mac sg (enrich (ge_env env) ev)) d))"
proof -
  obtain p' fx where run: "Process mac marshal (ge_env env) ev (h_proc h) = (p', fx)" by fastforce
  have "fx_hooks fx = [Sign mac sg (enrich (ge_env env) ev)]"
    using Process_hooks [OF assms(1,2), of mac marshal "ge_env env" ev] run assms(4) by (simp add: accepted_def)
  then show ?thesis
    using run_hooks_detector [of "emit (fx_outputs fx) (h\<lparr>h_proc := p'\<rparr>)" d env "Sign mac sg (enrich (ge_env env) ev)"] assms(3) run
    by (fastforce simp: ingest_def emit_def)
qed

definition off_at :: "Detector \<Rightarrow> IngestEnv \<Rightarrow> gotime \<Rightarrow> bool" where
  "off_at d env t \<longleftrightarrow> off_hours (dt_cfg d) (time_Hour (ie_zone (ge_inspect env)) t)"

lemma off_hours_round:
  assumes "pr_validator (h_proc h) \<noteq> None" and "pr_signer (h_proc h) = Some sg"
    and "h_anomaly h = Some d" and "ac_Enabled (dt_cfg d)" and "env_ok (ge_env env)"
    and "Validate (enrich (ge_env env) ev) = None" and "off_at d env (ev_Timestamp (enrich (ge_env env) ev))"
  obtains an d' where "last_spawn (drop (length (h_out h)) (h_out (ingest mac marshal env ev h))) = Some (OnAnomaly an)"
    and "ano_Severity an = ''warning''" and "ano_Pattern an = ''off_hours_access''"
    and "h_anomaly (ingest mac marshal env ev h) = Some d'" and "dt_cfg d' = dt_cfg d"
proof -
  let ?e = "Sign mac sg (enrich (ge_env env) ev)"
  have "ev_Timestamp (enrich (ge_env env) ev) \<noteq> 0"
    using assms(5) by (simp add: enrich_fields env_ok_def time_IsZero_def)
  then have "inspected_at (ge_inspect env) ?e = ev_Timestamp (enrich (ge_env env) ev)"
    by (simp add: inspected_at_def Sign_def time_IsZero_def)
  then have fires: "snd (Inspect (ge_inspect env) ?e d) \<noteq> []"
    "ano_Pattern (last (snd (Inspect (ge_inspect env) ?e d))) = ''off_hours_access''"
    "ano_Severity (last (snd (Inspect (ge_inspect env) ?e d))) = ''warning''"
    using Inspect_hours_fires [OF assms(4), of "ge_inspect env" ?e] assms(7) by (simp_all add: off_at_def)
  from ingest_detector [OF assms(1-3,6), of mac marshal] show thesis
    using last_spawn_anomalies [OF fires(1)] by (elim exE conjE, intro that [OF _ fires(3,2), where d' = "fst (Inspect (ge_inspect env) ?e d)"]) (simp_all add: last_spawn_append)
qed

subsection \<open>A chain\<close>

definition self_made :: "BastionEvent \<Rightarrow> bool" where
  "self_made e \<longleftrightarrow> (\<exists>an. e = OnAnomaly an \<and> ano_Severity an = ''warning'' \<and> ano_Pattern an = ''off_hours_access'')"

lemma self_made_accepted:
  assumes "self_made e" and "env_ok env"
  shows "Validate (enrich env e) = None" "\<not> opens_incident (enrich env e)" "ev_Timestamp (enrich env e) = env_now env"
  using assms OnAnomaly_accepted [OF assms(2)] by (auto simp: self_made_def)

lemma ingest_grows: "set (h_out h) \<subseteq> set (h_out (ingest mac marshal env ev h))"
proof -
  have hook: "set (h_out h) \<subseteq> set (h_out (run_hooks env e h))" for e h
    by (auto simp: run_hooks_def record_hook_def inspect_hook_def observe_hook_def emit_def split_beta Let_def split: option.split)
  have "set (h_out h) \<subseteq> set (h_out (fold (run_hooks env) es h))" for es h
    by (induction es arbitrary: h) (use hook in fastforce)+
  then show ?thesis by (fastforce simp: ingest_def emit_def split_beta Let_def)
qed

lemma feedback_grows: "set (h_out h) \<subseteq> set (h_out (snd (feedback mac marshal envs i n ev h)))"
proof (induction n arbitrary: i ev h)
  case (Suc n)
  then show ?case
    using ingest_grows [of h mac marshal "envs i" ev] by (fastforce simp: split_beta Let_def split: option.split)
qed simp

lemma feedback_chain:
  assumes "pr_validator (h_proc h) \<noteq> None" and "pr_signer (h_proc h) = Some sg"
    and "h_anomaly h = Some d" and "ac_Enabled (dt_cfg d)" and "\<forall>i. env_ok (ge_env (envs i))"
    and "Validate (enrich (ge_env (envs i)) ev) = None" and "off_at d (envs i) (ev_Timestamp (enrich (ge_env (envs i)) ev))"
    and "\<forall>j. i < j \<and> j < i + n \<longrightarrow> off_at d (envs j) (env_now (ge_env (envs j)))"
  shows "length (fst (feedback mac marshal envs i n ev h)) = n
    \<and> list_all self_made (fst (feedback mac marshal envs i n ev h))
    \<and> OutSpawn ` set (fst (feedback mac marshal envs i n ev h)) \<subseteq> set (h_out (snd (feedback mac marshal envs i n ev h)))
    \<and> snd (feedback mac marshal envs i n ev h)
      = ingest_list mac marshal envs i (take n (ev # fst (feedback mac marshal envs i n ev h))) h"
  using assms
proof (induction n arbitrary: i ev h d)
  case (Suc n)
  let ?h = "ingest mac marshal (envs i) ev h"
  obtain an d' where sp: "last_spawn (drop (length (h_out h)) (h_out ?h)) = Some (OnAnomaly an)"
    and an: "ano_Severity an = ''warning''" "ano_Pattern an = ''off_hours_access''"
    and d': "h_anomaly ?h = Some d'" "dt_cfg d' = dt_cfg d"
    using off_hours_round [OF Suc.prems(1-4) _ Suc.prems(6,7)] Suc.prems(5) by metis
  have self: "self_made (OnAnomaly an)" using an by (auto simp: self_made_def)
  obtain p' fx where run: "Process mac marshal (ge_env (envs i)) ev (h_proc h) = (p', fx)" by fastforce
  have p: "pr_validator (h_proc ?h) \<noteq> None" "pr_signer (h_proc ?h) = Some sg"
    using Process_keeps [OF run] Suc.prems(1,2) run by (simp_all add: ingest_frame)
  have off: "off_at d' e t = off_at d e t" for e t by (simp add: off_at_def d'(2))
  have pending: "OutSpawn (OnAnomaly an) \<in> set (h_out ?h)" using last_spawn_in [OF sp] by (rule in_set_dropD)
  show ?case
  proof (cases n)
    case 0
    then show ?thesis using sp self pending by simp
  next
    case (Suc m)
    have "length (fst (feedback mac marshal envs (Suc i) n (OnAnomaly an) ?h)) = n
      \<and> list_all self_made (fst (feedback mac marshal envs (Suc i) n (OnAnomaly an) ?h))
      \<and> OutSpawn ` set (fst (feedback mac marshal envs (Suc i) n (OnAnomaly an) ?h))
          \<subseteq> set (h_out (snd (feedback mac marshal envs (Suc i) n (OnAnomaly an) ?h)))
      \<and> snd (feedback mac marshal envs (Suc i) n (OnAnomaly an) ?h)
        = ingest_list mac marshal envs (Suc i) (take n (OnAnomaly an # fst (feedback mac marshal envs (Suc i) n (OnAnomaly an) ?h))) ?h"
      using Suc.prems(4,5,8) Suc d'(2) self_made_accepted [OF self] by (intro Suc.IH [OF p d'(1)]) (simp_all add: off)
    then show ?thesis
      using sp self pending feedback_grows [of ?h mac marshal envs "Suc i" n "OnAnomaly an"]
      by (auto simp: split_beta Let_def)
  qed
qed simp

lemma ingest_list_reach:
  assumes "server_reach mac marshal cfg h" and "\<forall>i. env_ok (ge_env (envs i))"
  shows "server_reach mac marshal cfg (ingest_list mac marshal envs n evs h)"
  using assms(1)
proof (induction evs arbitrary: n h)
  case (Cons ev evs)
  have "server_step mac marshal h (Some (ingest mac marshal (envs n) ev h))"
    using server_step.submit [of "envs n" mac marshal h "Inr ev"] assms(2) by (simp add: SubmitEvent_def Let_def)
  then show ?case using Cons server_next by simp
qed simp

lemma accepted_batch:
  "\<forall>e \<in> set es. \<forall>j. Validate (enrich (ge_env (envs j)) e) = None \<Longrightarrow>
   accepted (batch_runs envs k es) = map (\<lambda>(env, e). enrich env e) (batch_runs envs k es)"
proof (induction es arbitrary: k)
  case (Cons e es)
  have "accepted [(ge_env (envs k), e)] = [enrich (ge_env (envs k)) e]" using Cons.prems by (simp add: accepted_def)
  then show ?case
    using Cons accepted_Cons [of "(ge_env (envs k), e)" "batch_runs envs (Suc k) es"] by simp
qed (simp add: accepted_def)

subsection \<open>Properties\<close>

text \<open>
  C33: outside the active hours the detector feeds itself. Let the started server, in any state it can reach and with the
  detector on, accept one event, and let the hour be outside the configured ones when that event and the events
  after it are inspected (the time of the first event, then the readings of the clock). Then the event
  leaves an event of the tracker's own, that one, processed by its goroutine, leaves the next, and so on: for every
  \<open>n\<close> for which the hour stays outside there are \<open>n\<close> of them, the last one still to be processed, and all the others are in the
  store, valid and signed. None of them opens an incident. Nothing but the clock ends it.
\<close>

theorem off_hours_feedback:
  assumes "mac_ok mac" and "server_reach mac marshal cfg h" and "h_anomaly h = Some d" and "ac_Enabled (dt_cfg d)"
    and "\<forall>i. env_ok (ge_env (envs i))" and "Validate (enrich (ge_env (envs 0)) ev) = None"
    and "off_hours (dt_cfg d) (time_Hour (ie_zone (ge_inspect (envs 0))) (ev_Timestamp (enrich (ge_env (envs 0)) ev)))"
    and "\<forall>i. 0 < i \<and> i < n \<longrightarrow> off_hours (dt_cfg d) (time_Hour (ie_zone (ge_inspect (envs i))) (env_now (ge_env (envs i))))"
    and "feedback mac marshal envs 0 n ev h = (evs, h')"
  shows "length evs = n \<and> server_reach mac marshal cfg h'
    \<and> (\<forall>e \<in> set evs. ev_EventType e = ''anomaly_detected'' \<and> OutSpawn e \<in> set (h_out h')
         \<and> (\<forall>env. env_ok env \<longrightarrow> Validate (enrich env e) = None \<and> \<not> opens_incident (enrich env e)))
    \<and> newest (pr_store (h_proc h')) = take (st_maxEvents (pr_store (h_proc h)))
        (rev (map (\<lambda>(env, e). Sign mac (Signer_New (so_AuditSecret (cf_Storage cfg))) (enrich env e))
           (batch_runs envs 0 (take n (ev # evs)))) @ newest (pr_store (h_proc h)))"
proof -
  let ?sg = "Signer_New (so_AuditSecret (cf_Storage cfg))"
  have p: "pr_signer (h_proc h) = Some ?sg" "pr_validator (h_proc h) \<noteq> None"
    using server_reach_inv [OF assms(2,1)] by (simp_all add: server_inv_def proc_inv_def)
  have "\<forall>j. 0 < j \<and> j < 0 + n \<longrightarrow> off_at d (envs j) (env_now (ge_env (envs j)))" using assms(8) by (simp add: off_at_def)
  note c = feedback_chain [OF p(2,1) assms(3-6) assms(7) [folded off_at_def] this, of mac marshal, unfolded assms(9) fst_conv snd_conv]
  have chain: "length evs = n" "list_all self_made evs" "OutSpawn ` set evs \<subseteq> set (h_out h')"
      "h' = ingest_list mac marshal envs 0 (take n (ev # evs)) h"
    using c by blast+
  have acc: "accepted (batch_runs envs 0 (take n (ev # evs))) = map (\<lambda>(env, e). enrich env e) (batch_runs envs 0 (take n (ev # evs)))"
  proof (cases n)
    case (Suc m)
    have "\<forall>e \<in> set (take m evs). \<forall>j. Validate (enrich (ge_env (envs j)) e) = None"
      using chain(2) self_made_accepted(1) assms(5) by (meson in_set_takeD list_all_iff)
    then show ?thesis
      using accepted_batch [of "take m evs" envs "Suc 0"] assms(6) by (simp add: Suc accepted_Cons [of "(ge_env (envs 0), ev)" "batch_runs envs (Suc 0) (take m evs)"])
        (simp add: accepted_def)
  qed (simp add: accepted_def)
  have "newest (pr_store (h_proc h')) = take (st_maxEvents (pr_store (h_proc h)))
      (rev (map (\<lambda>(env, e). Sign mac ?sg (enrich env e)) (batch_runs envs 0 (take n (ev # evs)))) @ newest (pr_store (h_proc h)))"
    using ingest_list_store [OF assms(1,2,5), of "take n (ev # evs)"] by (simp add: chain(4) acc comp_def case_prod_unfold)
  moreover have "ev_EventType e = ''anomaly_detected''" if "self_made e" for e
    using that by (auto simp: self_made_def OnAnomaly_def)
  moreover have "server_reach mac marshal cfg h'" using ingest_list_reach [OF assms(2,5)] chain(4) by simp
  ultimately show ?thesis
    using chain(1-3) self_made_accepted by (auto simp: list_all_iff)
qed

subsection \<open>Witness\<close>

text \<open>A server whose active hours are nine to five, at midnight.\<close>

definition office_cfg :: Config where
  "office_cfg = Defaults\<lparr>cf_Anomaly := demo_anomaly_cfg\<lparr>ac_ActiveHoursStart := 9, ac_ActiveHoursEnd := 17\<rparr>\<rparr>"

lemma off_hours_feedback_witness:
  "length (fst (feedback toy_mac demo_raw (\<lambda>i. demo_ingest) 0 100 (demo_decoy\<lparr>ev_Status := ''passed''\<rparr>)
     (snd (start_up demo_nats (\<lambda>i. 5) office_cfg)))) = 100"
proof -
  let ?h = "snd (start_up demo_nats (\<lambda>i. 5) office_cfg)" and ?d = "Detector_New (cf_Anomaly office_cfg)"
  let ?ev = "demo_decoy\<lparr>ev_Status := ''passed''\<rparr>"
  have reach: "server_reach toy_mac demo_raw office_cfg ?h" by (rule reachable.begin_here) blast
  have d: "h_anomaly ?h = Some ?d"
    by (simp add: start_up_def Rest_New_def buildComponents_def office_cfg_def demo_anomaly_cfg_def split_beta Let_def)
  have cfg: "dt_cfg ?d = demo_anomaly_cfg\<lparr>ac_ActiveHoursStart := 9, ac_ActiveHoursEnd := 17\<rparr>"
    by (simp add: Detector_New_def office_cfg_def)
  have on: "ac_Enabled (dt_cfg ?d)" by (simp add: cfg demo_anomaly_cfg_def)
  have v: "Validate (enrich (ge_env demo_ingest) ?ev) = None" by code_simp
  have night: "off_hours (dt_cfg ?d) (time_Hour (ie_zone (ge_inspect demo_ingest)) (unix_epoch + 7))"
    unfolding cfg by code_simp
  have t: "ev_Timestamp (enrich (ge_env demo_ingest) ?ev) = unix_epoch + 7" "env_now (ge_env demo_ingest) = unix_epoch + 7" by code_simp+
  obtain evs h' where run: "feedback toy_mac demo_raw (\<lambda>i. demo_ingest) 0 100 ?ev ?h = (evs, h')" by fastforce
  show ?thesis
    using off_hours_feedback [OF toy_mac_ok reach d on _ v _ _ run] night demo_ingest_ok unfolding t run by simp
qed

end
